(* ===== verification/Prelude.thy ===== *)
theory Prelude
  imports Main "HOL-Library.Word"
begin

unbundle bit_operations_syntax

text \<open>
  Shared vocabulary of the development: the machine types of the Go sources, Go strings
  and byte slices, error values, the \<open>(value, error)\<close> result convention, association
  lists for Go maps, and the generic list and word lemmas that the component theories
  use. The collections declared here are filled by the component theories:
  \<^item> \<open>go_simps\<close>: equations of the modelled standard-library functions;
  \<^item> \<open>fs_simps\<close>: equations of the modelled file-system calls;
  \<^item> \<open>inv_intros\<close>: preservation lemmas of the component invariants.
\<close>

named_theorems go_simps
named_theorems fs_simps
named_theorems inv_intros

subsection \<open>Machine types, byte slices and strings\<close>

text \<open>
  Go's fixed-width unsigned integers are words. A byte slice is a list of bytes; a nil slice
  and an empty slice are the same list, since the sources only take lengths of, copy and
  append to them. A Go string is a sequence of bytes, written as a HOL \<open>string\<close>.
\<close>

type_synonym byte = "8 word"
type_synonym bytes = "byte list"
type_synonym u16 = "16 word"
type_synonym u32 = "32 word"
type_synonym u64 = "64 word"

definition byte_of :: "char \<Rightarrow> byte" where
  "byte_of c = of_nat (of_char c)"

definition char_of_byte :: "byte \<Rightarrow> char" where
  "char_of_byte b = char_of (unat b)"

definition bytes_of :: "string \<Rightarrow> bytes" where
  "bytes_of s = map byte_of s"

definition string_of :: "bytes \<Rightarrow> string" where
  "string_of bs = map char_of_byte bs"

lemma char_of_byte_of [simp]: "char_of_byte (byte_of c) = c"
proof -
  have "of_char c < (256::nat)" by (rule nat_of_char_less_256)
  then show ?thesis
    by (simp add: char_of_byte_def byte_of_def unat_of_nat)
qed

lemma byte_of_char_of_byte [simp]: "byte_of (char_of_byte b) = b"
proof -
  have "unat b < 256" using unsigned_less [of b, where 'a=nat] by simp
  then show ?thesis
    by (simp add: char_of_byte_def byte_of_def)
qed

lemma string_of_bytes_of [simp]: "string_of (bytes_of s) = s"
  by (simp add: string_of_def bytes_of_def comp_def)

lemma bytes_of_string_of [simp]: "bytes_of (string_of b) = b"
  by (simp add: string_of_def bytes_of_def comp_def)

lemma length_bytes_of [simp]: "length (bytes_of s) = length s"
  by (simp add: bytes_of_def)

lemma length_string_of [simp]: "length (string_of s) = length s"
  by (simp add: string_of_def)

lemma bytes_of_inj [simp]: "bytes_of s = bytes_of t \<longleftrightarrow> s = t"
  by (metis string_of_bytes_of)

lemma bytes_of_append [simp]: "bytes_of (s @ t) = bytes_of s @ bytes_of t"
  by (simp add: bytes_of_def)

lemma bytes_of_Nil [simp]: "bytes_of [] = []"
  by (simp add: bytes_of_def)

subsection \<open>Errors and results\<close>

text \<open>
  An error value keeps what the sources can distinguish: the sentinel errors they compare
  with, the operating system's "does not exist", other environment errors by a number,
  \<open>errors.New\<close> texts, and \<open>fmt.Errorf\<close> with its format and its arguments. A panic is an
  error value of its own: no caller in the sources recovers from it.
\<close>

datatype go_err =
    ErrClosed
  | ErrNotFound
  | ErrEOF
  | ErrUnexpectedEOF
  | ErrNotLeader
  | ErrLeadershipLost
  | ErrNoLeader
  | ErrNotReadyForConsistentReads
  | CtxCanceled
  | CtxDeadlineExceeded
  | OsNotExist
  | EnvErr nat
  | ErrNew string
  | Errorf string "go_arg list"
  | Panic string
and go_arg =
    AErr go_err
  | AStr string
  | ANum nat

type_synonym 'a result = "go_err + 'a"

fun is_panic :: "go_err \<Rightarrow> bool" where
  "is_panic (Panic _) = True"
| "is_panic _ = False"

subsection \<open>Go maps as association lists\<close>

text \<open>
  A Go map is an association list without duplicate keys; \<open>map_of\<close> reads it. Setting a key
  drops its old entry, deleting a missing key does nothing.
\<close>

definition map_set :: "'k \<Rightarrow> 'v \<Rightarrow> ('k \<times> 'v) list \<Rightarrow> ('k \<times> 'v) list" where
  "map_set k v m = (k, v) # filter (\<lambda>e. fst e \<noteq> k) m"

definition map_del :: "'k \<Rightarrow> ('k \<times> 'v) list \<Rightarrow> ('k \<times> 'v) list" where
  "map_del k m = filter (\<lambda>e. fst e \<noteq> k) m"

lemma map_of_filter_neq:
  "map_of (filter (\<lambda>e. fst e \<noteq> k) m) = (map_of m)(k := None)"
  by (induction m) (auto simp: fun_eq_iff)

lemma map_of_map_set [simp]: "map_of (map_set k v m) = (map_of m)(k \<mapsto> v)"
  by (auto simp: map_set_def map_of_filter_neq fun_eq_iff)

lemma map_of_map_del [simp]: "map_of (map_del k m) = (map_of m)(k := None)"
  by (simp add: map_del_def map_of_filter_neq)

lemma distinct_map_filter: "distinct (map fst m) \<Longrightarrow> distinct (map fst (filter P m))"
  by (induction m) auto

lemma distinct_map_set [simp, intro]:
  "distinct (map fst m) \<Longrightarrow> distinct (map fst (map_set k v m))"
  by (auto simp: map_set_def distinct_map_filter)

lemma distinct_map_del [simp, intro]:
  "distinct (map fst m) \<Longrightarrow> distinct (map fst (map_del k m))"
  by (simp add: map_del_def distinct_map_filter)

lemma map_of_filter_key:
  "map_of (filter (\<lambda>e. Q (fst e)) m) k = (if Q k then map_of m k else None)"
  by (induction m) auto

subsection \<open>Lists\<close>

lemma take_append_exact [simp]: "n = length xs \<Longrightarrow> take n (xs @ ys) = xs"
  by simp

lemma drop_append_exact [simp]: "n = length xs \<Longrightarrow> drop n (xs @ ys) = ys"
  by simp

lemma length_concat_map_ge:
  "(\<And>x. x \<in> set xs \<Longrightarrow> n \<le> length (f x)) \<Longrightarrow> n * length xs \<le> length (concat (map f xs))"
  by (induction xs) (auto simp: add_mono)

end
