(* ===== verification/Go_Path.thy ===== *)
theory Go_Path
  imports Prelude
begin

text \<open>
  The parts of Go's \<open>path/filepath\<close> and \<open>fmt\<close> that name files: \<open>Clean\<close>, \<open>Join\<close>,
  \<open>Dir\<close> on slash-separated paths, and decimal printing (\<open>%d\<close>). \<open>resolve\<close> is what the
  operating system makes of a path string: the list of its components from the root, a
  relative path being taken from the working directory (symbolic links are not modelled).
  The main lemmas say that \<open>Clean\<close> does not change what a path resolves to and that
  \<open>Join\<close> of a directory and a plain name resolves to the name inside the directory.
\<close>

type_synonym fskey = "string list"

subsection \<open>Splitting and joining at slashes\<close>

fun split_slash :: "string \<Rightarrow> string list" where
  "split_slash [] = [[]]"
| "split_slash (c # cs) =
     (if c = CHR ''/'' then [] # split_slash cs
      else (case split_slash cs of [] \<Rightarrow> [[c]] | x # xs \<Rightarrow> (c # x) # xs))"

fun join_slash :: "string list \<Rightarrow> string" where
  "join_slash [] = []"
| "join_slash [x] = x"
| "join_slash (x # y # ys) = x @ CHR ''/'' # join_slash (y # ys)"

lemma split_slash_not_Nil [simp]: "split_slash s \<noteq> []"
  by (cases s) (auto split: list.splits)

lemma split_slash_append:
  "split_slash (a @ CHR ''/'' # b) = split_slash a @ split_slash b"
proof (induction a)
  case (Cons c a)
  then show ?case by (auto split: list.splits)
qed simp

lemma split_slash_plain: "CHR ''/'' \<notin> set s \<Longrightarrow> split_slash s = [s]"
  by (induction s) auto

lemma split_join_slash:
  "cs \<noteq> [] \<Longrightarrow> \<forall>c \<in> set cs. CHR ''/'' \<notin> set c \<Longrightarrow> split_slash (join_slash cs) = cs"
  by (induction cs rule: join_slash.induct)
     (auto simp: split_slash_plain split_slash_append)

lemma split_slash_no_slash: "x \<in> set (split_slash s) \<Longrightarrow> CHR ''/'' \<notin> set x"
  by (induction s arbitrary: x) (auto split: list.splits if_splits)

lemma join_split_slash: "join_slash (split_slash s) = s"
proof (induction s)
  case (Cons c cs)
  obtain x xs where x: "split_slash cs = x # xs" by (cases "split_slash cs") auto
  show ?case using Cons x by (cases xs) auto
qed simp

subsection \<open>Clean, Join and Dir\<close>

definition rooted :: "string \<Rightarrow> bool" where
  "rooted p = (case p of [] \<Rightarrow> False | c # _ \<Rightarrow> c = CHR ''/'')"

text \<open>One path component against the components kept so far (the last one first).\<close>

definition path_step :: "bool \<Rightarrow> string \<Rightarrow> string list \<Rightarrow> string list" where
  "path_step r c st =
     (if c = '''' \<or> c = ''.'' then st
      else if c = ''..'' then
        (case st of
           [] \<Rightarrow> (if r then [] else [''..''])
         | x # st' \<Rightarrow> (if x = ''..'' then ''..'' # st else st'))
      else c # st)"

definition filepath_Clean :: "string \<Rightarrow> string" where
  "filepath_Clean p =
     (let body = join_slash (rev (fold (path_step (rooted p)) (split_slash p) []))
      in if rooted p then CHR ''/'' # body else if body = [] then ''.'' else body)"

definition filepath_Join :: "string \<Rightarrow> string \<Rightarrow> string" where
  "filepath_Join dir name =
     (if dir \<noteq> [] then filepath_Clean (dir @ CHR ''/'' # name)
      else if name \<noteq> [] then filepath_Clean name else [])"

definition filepath_Dir :: "string \<Rightarrow> string" where
  "filepath_Dir p = filepath_Clean (rev (dropWhile (\<lambda>c. c \<noteq> CHR ''/'') (rev p)))"

definition resolve :: "fskey \<Rightarrow> string \<Rightarrow> fskey" where
  "resolve cwd p = rev (fold (path_step True) (split_slash p) (if rooted p then [] else rev cwd))"

definition plain_name :: "string \<Rightarrow> bool" where
  "plain_name n = (n \<noteq> [] \<and> n \<noteq> ''.'' \<and> n \<noteq> ''..'' \<and> CHR ''/'' \<notin> set n)"

lemma path_step_set: "x \<in> set (path_step r c st) \<Longrightarrow> x = c \<or> x \<in> set st"
  by (auto simp: path_step_def split: if_splits list.splits)

lemma fold_path_step_set:
  "x \<in> set (fold (path_step r) cs st) \<Longrightarrow> x \<in> set cs \<or> x \<in> set st"
  by (induction cs arbitrary: st) (auto dest!: path_step_set)

text \<open>
  The components \<open>Clean\<close> keeps are neither empty nor a dot, and \<open>..\<close> stays only below
  the other ones and only in an unrooted path.
\<close>

fun kept :: "bool \<Rightarrow> string list \<Rightarrow> bool" where
  "kept r [] = True"
| "kept r (x # st) =
     (x \<noteq> [] \<and> x \<noteq> ''.'' \<and> (x = ''..'' \<longrightarrow> \<not> r \<and> set st \<subseteq> {''..''}) \<and> kept r st)"

lemma kept_path_step: "kept r st \<Longrightarrow> kept r (path_step r c st)"
  by (cases st) (auto simp: path_step_def)

lemma kept_fold: "kept r st \<Longrightarrow> kept r (fold (path_step r) cs st)"
  by (induction cs arbitrary: st) (auto simp: kept_path_step)

lemma path_step_replay:
  assumes "kept r st"
    and "r \<longrightarrow> acc = []"
  shows "fold (path_step True) (rev (path_step r c st)) acc
    = path_step True c (fold (path_step True) (rev st) acc)"
proof (cases "c = ''..'' \<and> st \<noteq> [] \<and> hd st \<noteq> ''..''")
  case True
  then obtain x st' where st: "st = x # st'" and x: "x \<noteq> ''..''" by (cases st) auto
  with assms(1) have "x \<noteq> []" "x \<noteq> ''.''" by auto
  with True st x show ?thesis by (simp add: path_step_def)
next
  case False
  then show ?thesis using assms
    by (cases st) (auto simp: path_step_def)
qed

lemma fold_path_step_replay:
  assumes "r \<longrightarrow> acc = []"
  shows "fold (path_step True) (rev (fold (path_step r) cs [])) acc
    = fold (path_step True) cs acc"
  using assms
  by (induction cs rule: rev_induct) (simp_all add: path_step_replay kept_fold)

lemma rooted_Cons_slash [simp]: "rooted (CHR ''/'' # p)"
  by (simp add: rooted_def)

lemma join_slash_eq_Nil: "join_slash cs = [] \<longleftrightarrow> cs = [] \<or> cs = [[]]"
  by (induction cs rule: join_slash.induct) auto

lemma kept_no_Nil: "kept r st \<Longrightarrow> [] \<notin> set st"
  by (induction st) auto

lemma rooted_append: "p \<noteq> [] \<Longrightarrow> rooted (p @ q) = rooted p"
  by (cases p) (auto simp: rooted_def)

lemma rooted_slash_free: "CHR ''/'' \<notin> set p \<Longrightarrow> \<not> rooted p"
  by (cases p) (auto simp: rooted_def)

lemma rooted_join_slash:
  "\<forall>c \<in> set cs. CHR ''/'' \<notin> set c \<and> c \<noteq> [] \<Longrightarrow> \<not> rooted (join_slash cs)"
  by (cases cs rule: join_slash.cases)
     (auto simp: rooted_append rooted_slash_free rooted_def [of "[]"])

lemma resolve_Clean [simp]: "resolve cwd (filepath_Clean p) = resolve cwd p"
proof -
  define st where "st = fold (path_step (rooted p)) (split_slash p) []"
  define acc where "acc = (if rooted p then [] else rev cwd)"
  have kept: "kept (rooted p) st" by (simp add: st_def kept_fold)
  have comp: "\<forall>c \<in> set (rev st). CHR ''/'' \<notin> set c \<and> c \<noteq> []"
    using kept_no_Nil [OF kept] fold_path_step_set [of _ "rooted p" "split_slash p" "[]"]
    by (auto simp: st_def dest: split_slash_no_slash)
  have replay: "fold (path_step True) (rev st) acc = fold (path_step True) (split_slash p) acc"
    unfolding st_def by (rule fold_path_step_replay) (simp add: acc_def)
  have split: "fold (path_step True) (split_slash (join_slash (rev st))) acc
      = fold (path_step True) (rev st) acc"
  proof (cases "st = []")
    case True
    then show ?thesis by (simp add: path_step_def)
  next
    case False
    then show ?thesis using comp by (simp add: split_join_slash)
  qed
  show ?thesis
  proof (cases "rooted p")
    case True
    then have "resolve cwd (filepath_Clean p)
      = rev (fold (path_step True) (split_slash (join_slash (rev st))) [])"
      by (simp add: resolve_def filepath_Clean_def st_def path_step_def)
    with True split replay show ?thesis by (simp add: resolve_def acc_def)
  next
    case False
    have body: "join_slash (rev st) = [] \<Longrightarrow> st = []"
      using comp by (auto simp: join_slash_eq_Nil)
    have "filepath_Clean p = (if st = [] then ''.'' else join_slash (rev st))"
      using False body by (auto simp: filepath_Clean_def Let_def st_def)
    then have "resolve cwd (filepath_Clean p)
      = rev (fold (path_step True) (split_slash (join_slash (rev st))) acc)"
      using False rooted_join_slash [OF comp]
      by (simp add: resolve_def acc_def path_step_def rooted_def [of "''.''"])
    with False split replay show ?thesis by (simp add: resolve_def acc_def)
  qed
qed

lemma path_step_plain: "plain_name n \<Longrightarrow> path_step r n st = n # st"
  by (auto simp: path_step_def plain_name_def)

lemma rooted_plain: "plain_name n \<Longrightarrow> \<not> rooted n"
  by (simp add: plain_name_def rooted_slash_free)

lemma resolve_Join [simp]:
  assumes "plain_name n"
  shows "resolve cwd (filepath_Join dir n) = resolve cwd dir @ [n]"
proof (cases "dir = []")
  case True
  have "filepath_Join [] n = filepath_Clean n"
    using assms by (simp add: filepath_Join_def plain_name_def)
  moreover have "resolve cwd n = cwd @ [n]"
    using assms by (simp add: resolve_def rooted_plain split_slash_plain path_step_plain
        plain_name_def [of n])
  moreover have "resolve cwd [] = cwd"
    by (simp add: resolve_def rooted_def path_step_def)
  ultimately show ?thesis using True by simp
next
  case False
  have "split_slash n = [n]" using assms by (simp add: split_slash_plain plain_name_def)
  with assms False show ?thesis
    by (simp add: filepath_Join_def resolve_def [of _ "dir @ _"] resolve_def [of _ dir]
        split_slash_append rooted_append path_step_plain)
qed

lemma filepath_Join_inj:
  assumes "plain_name m" "plain_name n"
  shows "filepath_Join dir m = filepath_Join dir n \<longleftrightarrow> m = n"
  by (metis assms last_snoc resolve_Join)

subsection \<open>Decimal numbers\<close>

fun show_nat :: "nat \<Rightarrow> string" where
  "show_nat n = (if n < 10 then [char_of (48 + n)] else show_nat (n div 10) @ [char_of (48 + n mod 10)])"

declare show_nat.simps [simp del]

definition show_int :: "int \<Rightarrow> string" where
  "show_int i = (if i < 0 then CHR ''-'' # show_nat (nat (- i)) else show_nat (nat i))"

lemma show_nat_set: "c \<in> set (show_nat n) \<Longrightarrow> of_char c \<in> {48..57::nat}"
proof (induction n rule: show_nat.induct)
  case (1 n)
  show ?case
  proof (cases "n < 10")
    case True
    with "1.prems" show ?thesis by (subst (asm) show_nat.simps) auto
  next
    case False
    with 1 show ?thesis by (subst (asm) (2) show_nat.simps) auto
  qed
qed

lemma show_nat_not_Nil [simp]: "show_nat n \<noteq> []"
  by (subst show_nat.simps) simp

lemma plain_name_show:
  "plain_name (show_nat a @ CHR ''_'' # show_int b)"
proof -
  have slash: "CHR ''/'' \<notin> set (show_nat n)" for n
    using show_nat_set [of "CHR ''/''" n] by auto
  have "length (show_nat a @ CHR ''_'' # show_int b) \<ge> 3"
    by (cases "show_nat a"; cases "show_nat (nat b)"; cases "show_nat (nat (- b))")
       (auto simp: show_int_def)
  then have "show_nat a @ CHR ''_'' # show_int b \<notin> {[], ''.'', ''..''}"
    by (metis One_nat_def insertE length_Cons list.size(3) not_less_eq_eq numeral_2_eq_2
        numeral_3_eq_3 singletonD zero_le)
  with slash show ?thesis
    by (auto simp: plain_name_def show_int_def)
qed

subsection \<open>More on resolved paths\<close>

lemma kept_plain: "kept True st \<Longrightarrow> (\<And>c. c \<in> set st \<Longrightarrow> CHR ''/'' \<notin> set c) \<Longrightarrow> list_all plain_name st"
  by (induction st) (simp_all add: plain_name_def)

lemma plain_kept: "list_all plain_name st \<Longrightarrow> kept True st"
  by (induction st) (simp_all add: plain_name_def)

lemma resolve_plain:
  assumes "list_all plain_name cwd"
  shows "list_all plain_name (resolve cwd p)"
proof -
  let ?acc = "if rooted p then [] else rev cwd"
  let ?st = "fold (path_step True) (split_slash p) ?acc"
  have acc: "list_all plain_name ?acc" using assms by simp
  have "kept True ?st" by (intro kept_fold plain_kept acc)
  moreover have "CHR ''/'' \<notin> set c" if "c \<in> set ?st" for c
    using fold_path_step_set [OF that]
  proof
    assume "c \<in> set (split_slash p)"
    then show ?thesis by (rule split_slash_no_slash)
  next
    assume "c \<in> set ?acc"
    then have "plain_name c" using acc by (simp only: list_all_iff)
    then show ?thesis by (simp add: plain_name_def)
  qed
  ultimately have "list_all plain_name ?st" by (rule kept_plain)
  then show ?thesis by (simp add: resolve_def)
qed

lemma join_slash_snoc: "cs \<noteq> [] \<Longrightarrow> join_slash (cs @ [n]) = join_slash cs @ CHR ''/'' # n"
  by (induction cs rule: join_slash.induct) auto

lemma filepath_Clean_last:
  assumes n: "plain_name n" and q: "split_slash q = cs @ [n]"
  shows "\<exists>a. filepath_Clean q = a @ n \<and> (a = [] \<or> (\<exists>b. a = b @ ''/''))"
proof -
  define st where "st = fold (path_step (rooted q)) cs []"
  have "filepath_Clean q = (if rooted q then CHR ''/'' # join_slash (rev st @ [n]) else join_slash (rev st @ [n]))"
    using n by (auto simp: filepath_Clean_def q path_step_plain st_def join_slash_eq_Nil Let_def plain_name_def)
  moreover have "join_slash (rev st @ [n]) = (if st = [] then n else join_slash (rev st) @ CHR ''/'' # n)"
    by (simp add: join_slash_snoc)
  ultimately show ?thesis
    by (cases "rooted q"; cases "st = []")
       (force intro: exI [of _ "''/''"] exI [of _ "CHR ''/'' # join_slash (rev st) @ ''/''"]
          exI [of _ "join_slash (rev st) @ ''/''"])+
qed

lemma filepath_Join_last:
  assumes n: "plain_name n"
  shows "\<exists>a. filepath_Join dir n = a @ n \<and> (a = [] \<or> (\<exists>b. a = b @ ''/''))"
proof (cases "dir = []")
  case True
  then show ?thesis
    using filepath_Clean_last [OF n, of n "[]"] n by (simp add: filepath_Join_def plain_name_def split_slash_plain)
next
  case False
  have "split_slash (dir @ CHR ''/'' # n) = split_slash dir @ [n]"
    using n by (simp add: split_slash_append split_slash_plain plain_name_def)
  then show ?thesis using filepath_Clean_last [OF n] False by (simp add: filepath_Join_def)
qed

lemma resolve_last:
  assumes n: "plain_name n" and a: "a = [] \<or> (\<exists>b. a = b @ ''/'')"
  shows "resolve cwd (a @ n) = resolve cwd a @ [n]"
  using a
proof
  assume "a = []"
  then show ?thesis
    using n by (simp add: resolve_def rooted_plain split_slash_plain path_step_plain plain_name_def [of n])
       (simp add: path_step_def rooted_def)
next
  assume "\<exists>b. a = b @ ''/''"
  then obtain b where b: "a = b @ ''/''" by blast
  have "rooted (b @ CHR ''/'' # n) = rooted (b @ ''/'')" by (cases b) (simp_all add: rooted_def)
  moreover have "split_slash n = [n]" using n by (simp add: split_slash_plain plain_name_def)
  ultimately show ?thesis
    using n by (simp add: b resolve_def split_slash_append path_step_plain)
       (simp add: path_step_def)
qed

lemma resolve_Dir_Join [simp]:
  assumes n: "plain_name n"
  shows "resolve cwd (filepath_Dir (filepath_Join dir n)) = resolve cwd dir"
proof -
  obtain a where a: "filepath_Join dir n = a @ n" "a = [] \<or> (\<exists>b. a = b @ ''/'')"
    using filepath_Join_last [OF n] by blast
  have "dropWhile (\<lambda>c. c \<noteq> CHR ''/'') (rev n @ rev a) = rev a"
    using n a(2) by (subst dropWhile_append2) (auto simp: plain_name_def)
  then have "resolve cwd (filepath_Dir (filepath_Join dir n)) = resolve cwd a"
    by (simp add: filepath_Dir_def a(1))
  then show ?thesis
    using resolve_Join [OF n, of cwd dir] resolve_last [OF n a(2), of cwd] a(1) by simp
qed

end
