(* ===== verification/Pebble_Iface.thy ===== *)
theory Pebble_Iface
  imports Prelude "HOL-Library.List_Lexorder"
begin

text \<open>
  The interface of the Pebble key-value store (\<open>cockroachdb/pebble\<close>, opened through
  \<open>raft-pebbledb\<close>), which is third-party code: the development takes its operations as a
  parameter, a record of functions over an abstract database state \<open>'db\<close> and an abstract
  batch \<open>'b\<close>. Every operation may fail. Two locales state what the sources rely on:
  \<^item> \<open>pebble_spec\<close>: what a successful operation means, through the map \<open>view\<close> that a database
    holds and the writes \<open>pend\<close> a batch has collected;
  \<^item> \<open>pebble_live\<close>: in addition, no operation fails.
  Both are interpreted on \<open>ref_pebble\<close>, an ordered map without failures.
\<close>

record ('db, 'b) pebble =
  pb_open :: "'db option \<Rightarrow> 'db result"
  pb_get :: "'db \<Rightarrow> bytes \<Rightarrow> bytes result"
  pb_closer :: "'db \<Rightarrow> bytes \<Rightarrow> go_err option"
  pb_batch :: "'db \<Rightarrow> 'b"
  pb_set :: "'b \<Rightarrow> bytes \<Rightarrow> bytes \<Rightarrow> go_err option \<times> 'b"
  pb_delete :: "'b \<Rightarrow> bytes \<Rightarrow> go_err option \<times> 'b"
  pb_commit :: "'b \<Rightarrow> 'db \<Rightarrow> go_err option \<times> 'db"
  pb_iter :: "'db \<Rightarrow> ((bytes \<times> bytes) list \<times> go_err option) result"

type_synonym kvmap = "bytes \<rightharpoonup> bytes"
type_synonym batch_op = "bytes \<times> bytes option"

definition apply_ops :: "batch_op list \<Rightarrow> kvmap \<Rightarrow> kvmap" where
  "apply_ops ops m = fold (\<lambda>(k, ov) m. m(k := ov)) ops m"

lemma apply_ops_Nil [simp]: "apply_ops [] m = m"
  by (simp add: apply_ops_def)

lemma apply_ops_append [simp]: "apply_ops (xs @ ys) m = apply_ops ys (apply_ops xs m)"
  by (simp add: apply_ops_def)

lemma apply_ops_Cons [simp]: "apply_ops ((k, ov) # xs) m = apply_ops xs (m(k := ov))"
  by (simp add: apply_ops_def)

text \<open>Writing the pairs of a list with distinct keys adds exactly that list to a map.\<close>

definition puts :: "(bytes \<times> bytes) list \<Rightarrow> batch_op list" where
  "puts kvs = map (\<lambda>(k, v). (k, Some v)) kvs"

lemma puts_simps [simp]:
  "puts [] = []" "puts (kv # kvs) = (fst kv, Some (snd kv)) # puts kvs" "puts (xs @ ys) = puts xs @ puts ys"
  by (auto simp: puts_def split: prod.split)

lemma apply_puts:
  "distinct (map fst kvs) \<Longrightarrow> apply_ops (puts kvs) m = m ++ map_of kvs"
proof (induction kvs arbitrary: m)
  case (Cons kv kvs)
  have "map_of kvs (fst kv) = None"
    using Cons.prems by (simp add: map_of_eq_None_iff)
  then have upd: "(m(fst kv \<mapsto> snd kv)) ++ map_of kvs = m ++ map_of (kv # kvs)"
    by (auto simp: map_add_def fun_eq_iff split: option.split)
  have "apply_ops (puts (kv # kvs)) m = (m(fst kv \<mapsto> snd kv)) ++ map_of kvs"
    using Cons.prems by (simp only: puts_simps apply_ops_Cons) (rule Cons.IH, simp)
  then show ?case by (simp only: upd)
qed simp

subsection \<open>What the sources rely on\<close>

locale pebble_spec =
  fixes P :: "('db, 'b) pebble"
    and view :: "'db \<Rightarrow> kvmap"
    and pend :: "'b \<Rightarrow> batch_op list"
  assumes open_new: "pb_open P None = Inr db \<Longrightarrow> view db = Map.empty"
    and open_old: "pb_open P (Some d) = Inr db \<Longrightarrow> view db = view d"
    and get_some: "pb_get P db k = Inr v \<Longrightarrow> view db k = Some v"
    and get_none: "pb_get P db k = Inl ErrNotFound \<Longrightarrow> view db k = None"
    and batch_new: "pend (pb_batch P db) = []"
    and set_ok: "pb_set P b k v = (None, b') \<Longrightarrow> pend b' = pend b @ [(k, Some v)]"
    and delete_ok: "pb_delete P b k = (None, b') \<Longrightarrow> pend b' = pend b @ [(k, None)]"
    and commit_ok: "pb_commit P b db = (None, db') \<Longrightarrow> view db' = apply_ops (pend b) (view db)"
    and iter_ok: "pb_iter P db = Inr (kvs, None) \<Longrightarrow>
                    map_of kvs = view db \<and> sorted_wrt (<) (map fst kvs)"

locale pebble_live = pebble_spec +
  assumes open_new_live: "\<exists>db. pb_open P None = Inr db"
    and open_old_live: "\<exists>db. pb_open P (Some d) = Inr db"
    and get_some_live: "view db k = Some v \<Longrightarrow> pb_get P db k = Inr v"
    and get_none_live: "view db k = None \<Longrightarrow> pb_get P db k = Inl ErrNotFound"
    and closer_live: "pb_closer P db k = None"
    and set_live: "fst (pb_set P b k v) = None"
    and commit_live: "fst (pb_commit P b db) = None"
    and iter_live: "\<exists>kvs. pb_iter P db = Inr (kvs, None)"
begin

lemma set_eq: "\<exists>b'. pb_set P b k v = (None, b') \<and> pend b' = pend b @ [(k, Some v)]"
  using set_live [of b k v] set_ok [of b k v] by (cases "pb_set P b k v") auto

lemma commit_eq:
  "\<exists>db'. pb_commit P b db = (None, db') \<and> view db' = apply_ops (pend b) (view db)"
  using commit_live [of b db] commit_ok [of b db] by (cases "pb_commit P b db") auto

end

text \<open>
  An iteration is determined by the contents: two databases with the same view yield the
  same pairs in the same order.
\<close>

lemma sorted_keys_unique:
  fixes xs ys :: "(bytes \<times> bytes) list"
  assumes "sorted_wrt (<) (map fst xs)" and "sorted_wrt (<) (map fst ys)"
    and "map_of xs = map_of ys"
  shows "xs = ys"
proof -
  have dx: "distinct (map fst xs)" and dy: "distinct (map fst ys)"
    using assms(1,2) strict_sorted_iff by blast+
  have "set xs = set ys"
  proof -
    have "set xs = Map.graph (map_of xs)" "set ys = Map.graph (map_of ys)"
      using dx dy by (simp_all add: graph_map_of_if_distinct_dom)
    then show ?thesis using assms(3) by simp
  qed
  moreover have "inj_on fst (set xs \<union> set ys)"
    using dx \<open>set xs = set ys\<close> by (simp add: distinct_map)
  ultimately show ?thesis
    using assms(1,2) by (intro map_sorted_distinct_set_unique [of fst]) (simp_all add: strict_sorted_iff)
qed

subsection \<open>The reference store\<close>

text \<open>
  A database is an association list read by \<open>map_of\<close>, a batch the list of its operations;
  an iteration visits the keys in ascending order of their bytes.
\<close>

type_synonym ref_db = "(bytes \<times> bytes) list"
type_synonym ref_batch = "batch_op list"

definition ref_write :: "batch_op \<Rightarrow> ref_db \<Rightarrow> ref_db" where
  "ref_write op db = (case op of (k, Some v) \<Rightarrow> map_set k v db | (k, None) \<Rightarrow> map_del k db)"

definition ref_keys :: "ref_db \<Rightarrow> bytes list" where
  "ref_keys db = sort (remdups (map fst db))"

definition ref_pebble :: "(ref_db, ref_batch) pebble" where
  "ref_pebble = \<lparr>
     pb_open = (\<lambda>d. Inr (case d of None \<Rightarrow> [] | Some db \<Rightarrow> db)),
     pb_get = (\<lambda>db k. case map_of db k of None \<Rightarrow> Inl ErrNotFound | Some v \<Rightarrow> Inr v),
     pb_closer = (\<lambda>db k. None),
     pb_batch = (\<lambda>db. []),
     pb_set = (\<lambda>b k v. (None, b @ [(k, Some v)])),
     pb_delete = (\<lambda>b k. (None, b @ [(k, None)])),
     pb_commit = (\<lambda>b db. (None, fold ref_write b db)),
     pb_iter = (\<lambda>db. Inr (map (\<lambda>k. (k, the (map_of db k))) (ref_keys db), None))\<rparr>"

lemma ref_commit_view: "map_of (fold ref_write ops db) = apply_ops ops (map_of db)"
proof (induction ops arbitrary: db)
  case (Cons op ops)
  obtain k ov where op: "op = (k, ov)" by (cases op)
  have "map_of (ref_write (k, ov) db) = (map_of db)(k := ov)"
    by (cases ov) (simp_all add: ref_write_def)
  then show ?case by (simp only: op fold_simps apply_ops_Cons Cons.IH)
qed simp

lemma map_of_map_keys:
  "map_of (map (\<lambda>k. (k, the (m k))) ks) k = (if k \<in> set ks then Some (the (m k)) else None)"
  by (induction ks) auto

lemma ref_iter_view: "map_of (map (\<lambda>k. (k, the (map_of db k))) (ref_keys db)) = map_of db"
proof (rule ext)
  fix k
  show "map_of (map (\<lambda>k. (k, the (map_of db k))) (ref_keys db)) k = map_of db k"
  proof (cases "map_of db k")
    case None
    then have "k \<notin> fst ` set db" by (simp add: map_of_eq_None_iff)
    with None show ?thesis by (simp add: map_of_map_keys ref_keys_def)
  next
    case (Some v)
    then have "k \<in> fst ` set db" by (metis domI dom_map_of_conv_image_fst)
    with Some show ?thesis by (simp add: map_of_map_keys ref_keys_def)
  qed
qed

lemma ref_iter_sorted: "sorted_wrt (<) (map fst (map (\<lambda>k. (k, the (map_of db k))) (ref_keys db)))"
  by (simp add: comp_def ref_keys_def strict_sorted_iff)

interpretation ref: pebble_live ref_pebble map_of "\<lambda>b. b"
  by unfold_locales
     (auto simp: ref_pebble_def ref_commit_view ref_iter_view ref_iter_sorted [unfolded map_map]
       split: option.splits)

end
