(* ===== verification/Os_FS.thy ===== *)
theory Os_FS
  imports Go_Path Pebble_Iface "HOL-Library.Char_ord"
begin

text \<open>
  The part of Go's \<open>os\<close> package the sources use, on an explicit file system. A file system
  is an association list from resolved paths to nodes: regular files with their bytes, and
  directories, which may hold a Pebble database (its files are opaque, its contents is the
  value \<open>'db\<close>; every write of the sources is synced, so the contents is what a restart finds).
  The world adds the working directory, the databases that are open, and a fault schedule: every
  call asks the schedule first and fails with its error, without effect, if there is one, so a
  theorem about all worlds covers every pattern of failing calls. \<open>w_hist\<close> records every
  file-system state the run passed through, latest first: the states a crash can leave. A crash is one of the
  process: what was written is there afterwards, whether it was synced or not, so a sync can fail but has no other
  effect. \<open>os.RemoveAll\<close> is one step, and a crash in the middle of it is not among the states.
\<close>

datatype 'db node = RegFile bytes | Directory "'db option"

type_synonym 'db nodes = "(fskey \<times> 'db node) list"

record 'db world =
  w_nodes :: "'db nodes"
  w_cwd :: fskey
  w_windows :: bool
  w_calls :: nat
  w_fault :: "nat \<Rightarrow> go_err option"
  w_open :: "fskey list"
  w_hist :: "'db nodes list"

abbreviation w_key :: "'db world \<Rightarrow> string \<Rightarrow> fskey" where
  "w_key w p \<equiv> resolve (w_cwd w) p"

definition is_dir :: "'db nodes \<Rightarrow> fskey \<Rightarrow> bool" where
  "is_dir ns k = (k = [] \<or> (case map_of ns k of Some (Directory _) \<Rightarrow> True | _ \<Rightarrow> False))"

definition set_nodes :: "'db nodes \<Rightarrow> 'db world \<Rightarrow> 'db world" where
  "set_nodes ns w = w\<lparr>w_nodes := ns, w_hist := ns # w_hist w\<rparr>"

definition tick :: "'db world \<Rightarrow> 'db world" where
  "tick w = w\<lparr>w_calls := Suc (w_calls w)\<rparr>"

definition os_call :: "('db world \<Rightarrow> 'a result \<times> 'db world) \<Rightarrow> 'db world \<Rightarrow> 'a result \<times> 'db world" where
  "os_call f w = (case w_fault w (w_calls w) of Some e \<Rightarrow> (Inl e, tick w) | None \<Rightarrow> f (tick w))"

abbreviation EISDIR :: go_err where "EISDIR \<equiv> EnvErr 21"
abbreviation ENOTDIR :: go_err where "ENOTDIR \<equiv> EnvErr 20"
abbreviation EAGAIN :: go_err where "EAGAIN \<equiv> EnvErr 11"

subsection \<open>Calls\<close>

definition os_Stat :: "string \<Rightarrow> 'db world \<Rightarrow> bool result \<times> 'db world" where
  "os_Stat p = os_call (\<lambda>w.
     (if w_key w p = [] then Inr True
      else case map_of (w_nodes w) (w_key w p) of
        None \<Rightarrow> Inl OsNotExist
      | Some (RegFile _) \<Rightarrow> Inr False
      | Some (Directory _) \<Rightarrow> Inr True, w))"

definition os_IsNotExist :: "go_err \<Rightarrow> bool" where
  "os_IsNotExist e = (e = OsNotExist)"

definition os_IsExist :: "go_err \<Rightarrow> bool" where
  "os_IsExist e = (e = EnvErr 17)"

fun mkdirs :: "fskey \<Rightarrow> fskey \<Rightarrow> 'db nodes \<Rightarrow> 'db nodes option" where
  "mkdirs done [] ns = Some ns"
| "mkdirs done (c # cs) ns =
     (let k = done @ [c] in
      case map_of ns k of
        Some (RegFile _) \<Rightarrow> None
      | Some (Directory _) \<Rightarrow> mkdirs k cs ns
      | None \<Rightarrow> mkdirs k cs (map_set k (Directory None) ns))"

definition os_MkdirAll :: "string \<Rightarrow> 'db world \<Rightarrow> unit result \<times> 'db world" where
  "os_MkdirAll p = os_call (\<lambda>w.
     case mkdirs [] (w_key w p) (w_nodes w) of
       None \<Rightarrow> (Inl ENOTDIR, w)
     | Some ns \<Rightarrow> (Inr (), set_nodes ns w))"

definition os_Create :: "string \<Rightarrow> 'db world \<Rightarrow> unit result \<times> 'db world" where
  "os_Create p = os_call (\<lambda>w.
     let k = w_key w p in
     if is_dir (w_nodes w) k then (Inl EISDIR, w)
     else if \<not> is_dir (w_nodes w) (butlast k) then (Inl OsNotExist, w)
     else (Inr (), set_nodes (map_set k (RegFile []) (w_nodes w)) w))"

text \<open>\<open>Write\<close> on the file opened at a path appends to it.\<close>

definition os_Write :: "string \<Rightarrow> bytes \<Rightarrow> 'db world \<Rightarrow> unit result \<times> 'db world" where
  "os_Write p bs = os_call (\<lambda>w.
     case map_of (w_nodes w) (w_key w p) of
       Some (RegFile old) \<Rightarrow> (Inr (), set_nodes (map_set (w_key w p) (RegFile (old @ bs)) (w_nodes w)) w)
     | _ \<Rightarrow> (Inl OsNotExist, w))"

definition os_Sync :: "'db world \<Rightarrow> unit result \<times> 'db world" where
  "os_Sync = os_call (\<lambda>w. (Inr (), w))"

definition os_Close :: "'db world \<Rightarrow> unit result \<times> 'db world" where
  "os_Close = os_call (\<lambda>w. (Inr (), w))"

definition os_Open :: "string \<Rightarrow> 'db world \<Rightarrow> unit result \<times> 'db world" where
  "os_Open p = os_call (\<lambda>w.
     (if w_key w p = [] \<or> map_of (w_nodes w) (w_key w p) \<noteq> None then Inr () else Inl OsNotExist, w))"

definition io_ReadAll :: "string \<Rightarrow> 'db world \<Rightarrow> bytes result \<times> 'db world" where
  "io_ReadAll p = os_call (\<lambda>w.
     (case map_of (w_nodes w) (w_key w p) of Some (RegFile bs) \<Rightarrow> Inr bs | _ \<Rightarrow> Inl EISDIR, w))"

definition os_Rename :: "string \<Rightarrow> string \<Rightarrow> 'db world \<Rightarrow> unit result \<times> 'db world" where
  "os_Rename a b = os_call (\<lambda>w.
     case map_of (w_nodes w) (w_key w a) of
       Some (RegFile bs) \<Rightarrow>
         if is_dir (w_nodes w) (w_key w b) then (Inl EISDIR, w)
         else if \<not> is_dir (w_nodes w) (butlast (w_key w b)) then (Inl OsNotExist, w)
         else (Inr (), set_nodes (map_set (w_key w b) (RegFile bs) (map_del (w_key w a) (w_nodes w))) w)
     | Some (Directory _) \<Rightarrow> (Inl ENOTDIR, w)
     | None \<Rightarrow> (Inl OsNotExist, w))"

definition below :: "fskey \<Rightarrow> fskey \<Rightarrow> bool" where
  "below d k = (take (length d) k = d)"

definition remove_tree :: "fskey \<Rightarrow> 'db nodes \<Rightarrow> 'db nodes" where
  "remove_tree d ns = filter (\<lambda>e. \<not> below d (fst e)) ns"

definition os_RemoveAll :: "string \<Rightarrow> 'db world \<Rightarrow> unit result \<times> 'db world" where
  "os_RemoveAll p = os_call (\<lambda>w. (Inr (), set_nodes (remove_tree (w_key w p) (w_nodes w)) w))"

definition dir_entries :: "fskey \<Rightarrow> 'db nodes \<Rightarrow> (string \<times> bool) list" where
  "dir_entries d ns =
     map (\<lambda>n. (n, is_dir ns (d @ [n])))
       (sort (remdups (map (\<lambda>e. last (fst e)) (filter (\<lambda>e. fst e \<noteq> [] \<and> butlast (fst e) = d) ns))))"

definition os_ReadDir :: "string \<Rightarrow> 'db world \<Rightarrow> (string \<times> bool) list result \<times> 'db world" where
  "os_ReadDir p = os_call (\<lambda>w.
     (if is_dir (w_nodes w) (w_key w p) then Inr (dir_entries (w_key w p) (w_nodes w))
      else case map_of (w_nodes w) (w_key w p) of None \<Rightarrow> Inl OsNotExist | Some _ \<Rightarrow> Inl ENOTDIR, w))"

subsection \<open>Databases in directories\<close>

text \<open>
  \<open>pebbledb.OpenPebbleDB\<close> opens or creates the database of a directory and locks it; the
  handle is the resolved path. Operations on a database that is not open panic.
\<close>

definition db_open ::
  "('db, 'b) pebble \<Rightarrow> string \<Rightarrow> 'db world \<Rightarrow> fskey result \<times> 'db world" where
  "db_open P p = os_call (\<lambda>w.
     let k = w_key w p in
     if k \<in> set (w_open w) then (Inl EAGAIN, w)
     else case mkdirs [] k (w_nodes w) of
       None \<Rightarrow> (Inl ENOTDIR, w)
     | Some ns \<Rightarrow>
         (case pb_open P (case map_of ns k of Some (Directory d) \<Rightarrow> d | _ \<Rightarrow> None) of
            Inl e \<Rightarrow> (Inl e, set_nodes ns w)
          | Inr db \<Rightarrow> (Inr k, (set_nodes (map_set k (Directory (Some db)) ns) w)\<lparr>w_open := k # w_open w\<rparr>)))"

definition db_close :: "fskey \<Rightarrow> 'db world \<Rightarrow> 'db world" where
  "db_close k w = w\<lparr>w_open := filter (\<lambda>x. x \<noteq> k) (w_open w)\<rparr>"

definition dir_db :: "'db nodes \<Rightarrow> fskey \<Rightarrow> 'db option" where
  "dir_db ns k = (case map_of ns k of Some (Directory d) \<Rightarrow> d | _ \<Rightarrow> None)"

definition db_load :: "fskey \<Rightarrow> 'db world \<Rightarrow> 'db option" where
  "db_load k w = (if k \<in> set (w_open w) then dir_db (w_nodes w) k else None)"

definition db_store :: "fskey \<Rightarrow> 'db \<Rightarrow> 'db world \<Rightarrow> 'db world" where
  "db_store k db w = set_nodes (map_set k (Directory (Some db)) (w_nodes w)) w"

definition db_panic :: go_err where "db_panic = Panic ''pebble: closed''"

subsection \<open>Frame and fault lemmas\<close>

lemma tick_simps [simp]:
  "w_nodes (tick w) = w_nodes w" "w_cwd (tick w) = w_cwd w" "w_windows (tick w) = w_windows w"
  "w_fault (tick w) = w_fault w" "w_open (tick w) = w_open w" "w_hist (tick w) = w_hist w"
  "w_calls (tick w) = Suc (w_calls w)"
  by (simp_all add: tick_def)

lemma set_nodes_simps [simp]:
  "w_nodes (set_nodes ns w) = ns" "w_cwd (set_nodes ns w) = w_cwd w"
  "w_windows (set_nodes ns w) = w_windows w" "w_fault (set_nodes ns w) = w_fault w"
  "w_open (set_nodes ns w) = w_open w" "w_hist (set_nodes ns w) = ns # w_hist w"
  "w_calls (set_nodes ns w) = w_calls w"
  by (simp_all add: set_nodes_def)

lemma db_close_simps [simp]:
  "w_nodes (db_close k w) = w_nodes w" "w_cwd (db_close k w) = w_cwd w"
  "w_windows (db_close k w) = w_windows w" "w_fault (db_close k w) = w_fault w"
  "w_open (db_close k w) = filter (\<lambda>x. x \<noteq> k) (w_open w)" "w_hist (db_close k w) = w_hist w"
  "w_calls (db_close k w) = w_calls w"
  by (simp_all add: db_close_def)

lemma db_store_simps [simp]:
  "w_nodes (db_store k db w) = map_set k (Directory (Some db)) (w_nodes w)"
  "w_cwd (db_store k db w) = w_cwd w" "w_windows (db_store k db w) = w_windows w"
  "w_fault (db_store k db w) = w_fault w" "w_open (db_store k db w) = w_open w"
  "w_hist (db_store k db w) = map_set k (Directory (Some db)) (w_nodes w) # w_hist w"
  "w_calls (db_store k db w) = w_calls w"
  by (simp_all add: db_store_def)

text \<open>A world in which no further call fails.\<close>

definition healthy :: "'db world \<Rightarrow> bool" where
  "healthy w = (\<forall>n \<ge> w_calls w. w_fault w n = None)"

lemma healthy_now: "healthy w \<Longrightarrow> w_fault w (w_calls w) = None"
  by (simp add: healthy_def)

lemma healthy_tick [simp, intro]: "healthy w \<Longrightarrow> healthy (tick w)"
  by (simp add: healthy_def)

lemma healthy_set_nodes [simp]: "healthy (set_nodes ns w) = healthy w"
  by (simp add: healthy_def)

lemma healthy_db [simp]:
  "healthy (db_close k w) = healthy w" "healthy (db_store k db w) = healthy w"
  "healthy (w\<lparr>w_open := ks\<rparr>) = healthy w"
  by (simp_all add: healthy_def)

lemma os_call_healthy [fs_simps]: "healthy w \<Longrightarrow> os_call f w = f (tick w)"
  by (simp add: os_call_def healthy_now)

lemmas os_defs = os_Stat_def os_MkdirAll_def os_Create_def os_Write_def os_Sync_def os_Close_def
  os_Open_def io_ReadAll_def os_Rename_def os_RemoveAll_def os_ReadDir_def

text \<open>What every call keeps: the working directory, the schedule and the open databases.\<close>

definition same_env :: "'db world \<Rightarrow> 'db world \<Rightarrow> bool" where
  "same_env w w' = (w_cwd w' = w_cwd w \<and> w_windows w' = w_windows w \<and> w_fault w' = w_fault w
     \<and> w_open w' = w_open w \<and> w_calls w \<le> w_calls w')"

lemma same_env_refl [simp]: "same_env w w"
  by (simp add: same_env_def)

lemma same_env_trans: "same_env a b \<Longrightarrow> same_env b c \<Longrightarrow> same_env a c"
  by (auto simp: same_env_def)

lemma same_env_healthy: "same_env w w' \<Longrightarrow> healthy w \<Longrightarrow> healthy w'"
  by (auto simp: same_env_def healthy_def)

lemma below_refl [simp]: "below d d"
  by (simp add: below_def)

lemma below_append [simp]: "below d (d @ k)"
  by (simp add: below_def)

lemma map_of_remove_tree: "map_of (remove_tree d ns) k = (if below d k then None else map_of ns k)"
proof -
  have "map_of (filter (\<lambda>e. (\<lambda>x. \<not> below d x) (fst e)) ns) k = (if \<not> below d k then map_of ns k else None)"
    by (rule map_of_filter_key)
  then show ?thesis by (simp add: remove_tree_def)
qed

lemma below_snoc: "below (d @ [a]) (d @ [b]) \<longleftrightarrow> a = b"
  by (auto simp: below_def)

subsubsection \<open>What a run of calls changes\<close>

text \<open>
  \<open>quiet\<close>: only the call counter moved. \<open>touches K\<close>: every file-system state the run passed
  through agrees with the first one outside the paths \<open>K\<close>.
\<close>

definition quiet :: "'db world \<Rightarrow> 'db world \<Rightarrow> bool" where
  "quiet w w' = (same_env w w' \<and> w_nodes w' = w_nodes w \<and> w_hist w' = w_hist w)"

definition touches :: "fskey set \<Rightarrow> 'db world \<Rightarrow> 'db world \<Rightarrow> bool" where
  "touches K w w' = (same_env w w' \<and>
     (\<exists>new. w_hist w' = new @ w_hist w \<and>
        (\<forall>ns \<in> set (w_nodes w' # new). \<forall>k. k \<notin> K \<longrightarrow> map_of ns k = map_of (w_nodes w) k)))"

lemma quiet_refl [simp]: "quiet w w"
  by (simp add: quiet_def)

lemma quiet_trans: "quiet a b \<Longrightarrow> quiet b c \<Longrightarrow> quiet a c"
  by (auto simp: quiet_def intro: same_env_trans)

lemma quiet_same_env: "quiet w w' \<Longrightarrow> same_env w w'"
  by (simp add: quiet_def)

lemma quiet_healthy: "quiet w w' \<Longrightarrow> healthy w \<Longrightarrow> healthy w'"
  by (auto simp: quiet_def intro: same_env_healthy)

lemma quiet_tick [simp]: "quiet w (tick w)"
  by (simp add: quiet_def same_env_def)

lemma quiet_touches: "quiet w w' \<Longrightarrow> touches K w w'"
  by (auto simp: quiet_def touches_def)

lemma touches_refl [simp]: "touches K w w"
  by (simp add: quiet_touches)

lemma touches_mono: "touches K w w' \<Longrightarrow> K \<subseteq> L \<Longrightarrow> touches L w w'"
  unfolding touches_def by blast

lemma touches_trans:
  assumes "touches K a b" and "touches K b c"
  shows "touches K a c"
proof -
  obtain n1 where n1: "w_hist b = n1 @ w_hist a"
    "\<forall>ns \<in> set (w_nodes b # n1). \<forall>k. k \<notin> K \<longrightarrow> map_of ns k = map_of (w_nodes a) k"
    using assms(1) by (auto simp: touches_def)
  obtain n2 where n2: "w_hist c = n2 @ w_hist b"
    "\<forall>ns \<in> set (w_nodes c # n2). \<forall>k. k \<notin> K \<longrightarrow> map_of ns k = map_of (w_nodes b) k"
    using assms(2) by (auto simp: touches_def)
  have "same_env a c" using assms by (auto simp: touches_def intro: same_env_trans)
  moreover have "w_hist c = (n2 @ n1) @ w_hist a" using n1 n2 by simp
  moreover have "\<forall>ns \<in> set (w_nodes c # n2 @ n1). \<forall>k. k \<notin> K \<longrightarrow> map_of ns k = map_of (w_nodes a) k"
    using n1(2) n2(2) by auto
  ultimately show ?thesis unfolding touches_def by blast
qed

lemma touches_same_env: "touches K w w' \<Longrightarrow> same_env w w'"
  by (simp add: touches_def)

lemma touches_lookup: "touches K w w' \<Longrightarrow> k \<notin> K \<Longrightarrow> map_of (w_nodes w') k = map_of (w_nodes w) k"
  by (auto simp: touches_def)

lemma touches_set_nodes:
  "(\<And>k. k \<notin> K \<Longrightarrow> map_of ns k = map_of (w_nodes w) k) \<Longrightarrow> touches K w (set_nodes ns w)"
  by (auto simp: touches_def same_env_def)

lemma touches_tick: "touches K (tick w) w' \<Longrightarrow> touches K w w'"
  using touches_trans quiet_touches quiet_tick by blast

lemma os_call_quiet:
  assumes "\<And>w. snd (f w) = w"
  shows "quiet w (snd (os_call f w))"
  using assms by (simp add: os_call_def split: option.split)

lemma os_call_touches:
  assumes "touches K w (snd (f (tick w)))"
  shows "touches K w (snd (os_call f w))"
  using assms by (auto simp: os_call_def quiet_touches split: option.split)

lemma os_quiet:
  "quiet w (snd (os_Stat p w))" "quiet w (snd (os_Sync w))" "quiet w (snd (os_Close w))"
  "quiet w (snd (os_Open p w))" "quiet w (snd (io_ReadAll p w))" "quiet w (snd (os_ReadDir p w))"
  by (simp_all add: os_defs os_call_quiet)

lemma os_Create_touches: "touches {w_key w p} w (snd (os_Create p w))"
  unfolding os_Create_def
  by (intro os_call_touches)
     (auto simp: Let_def quiet_touches intro!: touches_tick touches_set_nodes split: if_splits)

lemma os_Write_touches: "touches {w_key w p} w (snd (os_Write p bs w))"
  unfolding os_Write_def
  by (intro os_call_touches)
     (auto simp: quiet_touches intro!: touches_tick touches_set_nodes
       split: option.split node.split if_splits)

lemma os_Rename_touches: "touches {w_key w a, w_key w b} w (snd (os_Rename a b w))"
  unfolding os_Rename_def
  by (intro os_call_touches)
     (auto simp: quiet_touches intro!: touches_tick touches_set_nodes
       split: option.split node.split if_splits)

lemma os_RemoveAll_touches: "touches {k. below (w_key w p) k} w (snd (os_RemoveAll p w))"
  unfolding os_RemoveAll_def
  by (intro os_call_touches)
     (auto simp: map_of_remove_tree intro!: touches_tick touches_set_nodes split: if_splits)

lemma os_quietE:
  "os_Stat p w = (r, w1) \<Longrightarrow> quiet w w1" "os_Sync w = (s, w1) \<Longrightarrow> quiet w w1"
  "os_Close w = (s, w1) \<Longrightarrow> quiet w w1" "os_Open p w = (s, w1) \<Longrightarrow> quiet w w1"
  "io_ReadAll p w = (t, w1) \<Longrightarrow> quiet w w1" "os_ReadDir p w = (u, w1) \<Longrightarrow> quiet w w1"
  by (metis os_quiet snd_conv)+

lemma os_touchesE:
  "os_Create p w = (r, w1) \<Longrightarrow> touches {w_key w p} w w1"
  "os_Write p bs w = (r, w1) \<Longrightarrow> touches {w_key w p} w w1"
  "os_Rename p q w = (r, w1) \<Longrightarrow> touches {w_key w p, w_key w q} w w1"
  "os_RemoveAll p w = (r, w1) \<Longrightarrow> touches {k. below (w_key w p) k} w w1"
  by (metis os_Create_touches os_Write_touches os_Rename_touches os_RemoveAll_touches snd_conv)+

lemma same_env_key: "same_env w w' \<Longrightarrow> w_key w' p = w_key w p"
  by (simp add: same_env_def)

lemmas touches_key = touches_same_env [THEN same_env_key]
lemmas quiet_key = quiet_same_env [THEN same_env_key]

subsection \<open>Well-formed worlds\<close>

text \<open>
  Every path in every state of the file system is made of plain names, and so is the working
  directory. Every call keeps this.
\<close>

definition wf_nodes :: "'db nodes \<Rightarrow> bool" where
  "wf_nodes ns = (\<forall>e \<in> set ns. list_all plain_name (fst e))"

definition wf_world :: "'db world \<Rightarrow> bool" where
  "wf_world w = (list_all plain_name (w_cwd w) \<and> (\<forall>ns \<in> set (w_nodes w # w_hist w). wf_nodes ns))"

lemma wf_nodes_remove_tree: "wf_nodes ns \<Longrightarrow> wf_nodes (remove_tree d ns)"
  by (auto simp: wf_nodes_def remove_tree_def)

lemma wf_nodes_map_set: "wf_nodes ns \<Longrightarrow> list_all plain_name k \<Longrightarrow> wf_nodes (map_set k n ns)"
  by (auto simp: wf_nodes_def map_set_def)

lemma wf_nodes_map_del: "wf_nodes ns \<Longrightarrow> wf_nodes (map_del k ns)"
  by (auto simp: wf_nodes_def map_del_def)

lemma wf_world_key: "wf_world w \<Longrightarrow> list_all plain_name (w_key w p)"
  by (simp add: wf_world_def resolve_plain)

lemma wf_world_nodes: "wf_world w \<Longrightarrow> wf_nodes (w_nodes w)"
  by (simp add: wf_world_def)

lemma wf_world_set_nodes: "wf_world w \<Longrightarrow> wf_nodes ns \<Longrightarrow> wf_world (set_nodes ns w)"
  by (simp add: wf_world_def)

lemma wf_world_tick [simp]: "wf_world (tick w) = wf_world w"
  by (simp add: wf_world_def)

lemma wf_world_open [simp]: "wf_world (w\<lparr>w_open := ks\<rparr>) = wf_world w" "wf_world (db_close k w) = wf_world w"
  by (simp_all add: wf_world_def)

lemma wf_world_quiet: "quiet w w' \<Longrightarrow> wf_world w \<Longrightarrow> wf_world w'"
  by (simp add: quiet_def same_env_def wf_world_def)

lemma wf_nodes_mkdirs:
  "mkdirs d cs ns = Some ns' \<Longrightarrow> wf_nodes ns \<Longrightarrow> list_all plain_name (d @ cs) \<Longrightarrow> wf_nodes ns'"
proof (induction d cs ns rule: mkdirs.induct)
  case (2 d c cs ns)
  then show ?case
    by (auto simp: Let_def wf_nodes_map_set split: option.splits node.splits)
qed simp

lemma os_call_wf:
  assumes "wf_world w" and "\<And>w. wf_world w \<Longrightarrow> wf_world (snd (f w))"
  shows "wf_world (snd (os_call f w))"
  using assms by (simp add: os_call_def split: option.split)

lemma os_MkdirAll_wf: "wf_world w \<Longrightarrow> wf_world (snd (os_MkdirAll p w))"
  unfolding os_MkdirAll_def
  by (erule os_call_wf)
     (auto intro!: wf_world_set_nodes dest: wf_nodes_mkdirs simp: wf_world_key wf_world_nodes split: option.split)

lemma os_Create_wf: "wf_world w \<Longrightarrow> wf_world (snd (os_Create p w))"
  unfolding os_Create_def
  by (erule os_call_wf)
     (auto simp: Let_def wf_world_key wf_world_nodes intro!: wf_world_set_nodes wf_nodes_map_set)

lemma os_Write_wf: "wf_world w \<Longrightarrow> wf_world (snd (os_Write p bs w))"
  unfolding os_Write_def
  by (erule os_call_wf)
     (auto simp: wf_world_key wf_world_nodes intro!: wf_world_set_nodes wf_nodes_map_set
       split: option.split node.split)

lemma os_Rename_wf: "wf_world w \<Longrightarrow> wf_world (snd (os_Rename a b w))"
  unfolding os_Rename_def
  by (erule os_call_wf)
     (auto simp: wf_world_key wf_world_nodes intro!: wf_world_set_nodes wf_nodes_map_set wf_nodes_map_del
       split: option.split node.split)

lemma os_RemoveAll_wf: "wf_world w \<Longrightarrow> wf_world (snd (os_RemoveAll p w))"
  unfolding os_RemoveAll_def
  by (erule os_call_wf) (simp add: wf_world_nodes wf_world_set_nodes wf_nodes_remove_tree)

lemma db_open_wf: "wf_world w \<Longrightarrow> wf_world (snd (db_open P p w))"
  unfolding db_open_def
  by (erule os_call_wf)
     (auto simp: Let_def wf_world_key wf_world_nodes intro!: wf_world_set_nodes wf_nodes_map_set
       dest: wf_nodes_mkdirs split: option.split sum.split)

lemma db_store_wf: "wf_world w \<Longrightarrow> list_all plain_name k \<Longrightarrow> wf_world (db_store k db w)"
  unfolding db_store_def by (intro wf_world_set_nodes wf_nodes_map_set wf_world_nodes)

lemmas os_wf = os_MkdirAll_wf os_Create_wf os_Write_wf os_Rename_wf os_RemoveAll_wf db_open_wf
  os_quiet [THEN wf_world_quiet]

lemma os_wfE:
  "os_MkdirAll p w = (r, w1) \<Longrightarrow> wf_world w \<Longrightarrow> wf_world w1"
  "os_Create p w = (r, w1) \<Longrightarrow> wf_world w \<Longrightarrow> wf_world w1"
  "os_Write p bs w = (r, w1) \<Longrightarrow> wf_world w \<Longrightarrow> wf_world w1"
  "os_Rename p q w = (r, w1) \<Longrightarrow> wf_world w \<Longrightarrow> wf_world w1"
  "os_RemoveAll p w = (r, w1) \<Longrightarrow> wf_world w \<Longrightarrow> wf_world w1"
  "db_open P p w = (s, w1) \<Longrightarrow> wf_world w \<Longrightarrow> wf_world w1"
  using os_wf by (metis snd_conv)+

text \<open>A directory with all the directories above it.\<close>

definition path_dirs :: "'db nodes \<Rightarrow> fskey \<Rightarrow> bool" where
  "path_dirs ns k = (\<forall>i \<le> length k. is_dir ns (take i k))"

lemma path_dirs_is_dir: "path_dirs ns k \<Longrightarrow> is_dir ns k"
  by (auto simp: path_dirs_def dest: spec [of _ "length k"])

lemma path_dirs_cong:
  "(\<And>d. length d \<le> length k \<Longrightarrow> map_of ns d = map_of ns' d) \<Longrightarrow> path_dirs ns k = path_dirs ns' k"
  by (simp add: path_dirs_def is_dir_def)

lemma mkdirs_id:
  "(\<forall>i \<le> length cs. is_dir ns (d @ take i cs)) \<Longrightarrow> mkdirs d cs ns = Some ns"
proof (induction cs arbitrary: d)
  case (Cons c cs)
  have "is_dir ns (d @ [c])" using Cons.prems [rule_format, of 1] by simp
  moreover have "mkdirs (d @ [c]) cs ns = Some ns"
    using Cons.prems by (intro Cons.IH) (auto dest: spec [of _ "Suc _"])
  ultimately show ?case
    by (auto simp: is_dir_def Let_def split: option.splits node.splits)
qed simp

lemma mkdirs_append: "mkdirs d (xs @ ys) ns = Option.bind (mkdirs d xs ns) (mkdirs (d @ xs) ys)"
proof (induction xs arbitrary: d ns)
  case (Cons c xs)
  then show ?case by (simp add: Let_def split: option.split node.split)
qed simp

lemma mkdirs_child:
  assumes "path_dirs ns b"
  shows "mkdirs [] (b @ [n]) ns =
    (case map_of ns (b @ [n]) of
       Some (RegFile _) \<Rightarrow> None
     | Some (Directory _) \<Rightarrow> Some ns
     | None \<Rightarrow> Some (map_set (b @ [n]) (Directory None) ns))"
proof -
  have "mkdirs [] b ns = Some ns" using assms by (intro mkdirs_id) (simp add: path_dirs_def)
  then show ?thesis by (simp add: mkdirs_append Let_def split: option.split node.split)
qed

lemma mkdirs_keeps:
  "mkdirs d cs ns = Some ns' \<Longrightarrow> map_of ns k \<noteq> None \<Longrightarrow> map_of ns' k = map_of ns k"
proof (induction d cs ns rule: mkdirs.induct)
  case (2 d c cs ns)
  then show ?case by (auto simp: Let_def split: option.splits node.splits if_splits)
qed simp

lemma is_dir_keeps:
  "mkdirs d cs ns = Some ns' \<Longrightarrow> is_dir ns k \<Longrightarrow> is_dir ns' k"
  using mkdirs_keeps by (fastforce simp: is_dir_def split: option.splits)

lemma mkdirs_new:
  "mkdirs d cs ns = Some ns' \<Longrightarrow> map_of ns' k \<noteq> map_of ns k \<Longrightarrow>
   map_of ns k = None \<and> map_of ns' k = Some (Directory None) \<and> (\<exists>i \<le> length cs. k = d @ take i cs)"
proof (induction cs arbitrary: d ns)
  case (Cons c cs)
  let ?d = "d @ [c]"
  have lift: "\<exists>i \<le> length (c # cs). k = d @ take i (c # cs)" if "i \<le> length cs" "k = ?d @ take i cs" for i
    using that by (intro exI [of _ "Suc i"]) simp
  show ?case
  proof (cases "map_of ns ?d")
    case None
    let ?ns = "map_set ?d (Directory None) ns"
    have r: "mkdirs ?d cs ?ns = Some ns'" using Cons.prems None by (simp add: Let_def)
    show ?thesis
    proof (cases "k = ?d")
      case True
      then have "map_of ns' k = Some (Directory None)" using mkdirs_keeps [OF r, of k] by simp
      with True None show ?thesis using lift [of 0] by simp
    next
      case False
      then have "map_of ns' k \<noteq> map_of ?ns k" using Cons.prems(2) by simp
      with Cons.IH [OF r] False lift show ?thesis by auto
    qed
  next
    case (Some nd)
    then have "mkdirs ?d cs ns = Some ns'" using Cons.prems(1) by (cases nd) (simp_all add: Let_def)
    from Cons.IH [OF this Cons.prems(2)] lift show ?thesis by auto
  qed
qed simp

lemma mkdirs_path_dirs:
  "mkdirs d cs ns = Some ns' \<Longrightarrow> path_dirs ns d \<Longrightarrow> path_dirs ns' (d @ cs)"
proof (induction cs arbitrary: d ns)
  case (Cons c cs)
  have ext: "path_dirs ms (d @ [c])" if "path_dirs ms d" "is_dir ms (d @ [c])" for ms :: "'a nodes"
    using that by (auto simp: path_dirs_def le_Suc_eq)
  show ?case
  proof (cases "map_of ns (d @ [c])")
    case None
    let ?ns = "map_set (d @ [c]) (Directory None) ns"
    have r: "mkdirs (d @ [c]) cs ?ns = Some ns'" using Cons.prems None by (simp add: Let_def)
    have "map_of ?ns k = map_of ns k" if "length k \<le> length d" for k using that by auto
    then have "path_dirs ?ns d" using Cons.prems(2) path_dirs_cong by blast
    then have "path_dirs ?ns (d @ [c])" by (rule ext) (simp add: is_dir_def)
    with Cons.IH [OF r] show ?thesis by simp
  next
    case (Some nd)
    then have "is_dir ns (d @ [c])" and r: "mkdirs (d @ [c]) cs ns = Some ns'"
      using Cons.prems by (cases nd; simp add: Let_def is_dir_def)+
    with Cons.IH [OF r] ext Cons.prems(2) show ?thesis by simp
  qed
qed simp

end
