(* ===== verification/Go_Binary.thy ===== *)
theory Go_Binary
  imports Prelude
begin

text \<open>
  The parts of Go's \<open>encoding/binary\<close>, \<open>io\<close> and slice primitives that the sources use:
  little-endian \<open>PutUint16/32/64\<close> and \<open>Uint16/32/64\<close>, writing into a buffer at an offset,
  \<open>io.ReadFull\<close> on a reader, and the length check of \<open>make\<close>.
\<close>

subsection \<open>Little-endian integers\<close>

definition le_bytes :: "nat \<Rightarrow> 'a::len word \<Rightarrow> bytes" where
  "le_bytes n w = map (\<lambda>i. ucast (drop_bit (8 * i) w)) [0..<n]"

fun le_word :: "bytes \<Rightarrow> 'a::len word" where
  "le_word [] = 0"
| "le_word (b # bs) = ucast b OR push_bit 8 (le_word bs)"

definition putUint16 :: "u16 \<Rightarrow> bytes" where "putUint16 v = le_bytes 2 v"
definition putUint32 :: "u32 \<Rightarrow> bytes" where "putUint32 v = le_bytes 4 v"
definition putUint64 :: "u64 \<Rightarrow> bytes" where "putUint64 v = le_bytes 8 v"

definition getUint16 :: "bytes \<Rightarrow> u16" where "getUint16 b = le_word (take 2 b)"
definition getUint32 :: "bytes \<Rightarrow> u32" where "getUint32 b = le_word (take 4 b)"
definition getUint64 :: "bytes \<Rightarrow> u64" where "getUint64 b = le_word (take 8 b)"

lemma length_le_bytes [simp]: "length (le_bytes n w) = n"
  by (simp add: le_bytes_def)

lemma length_putUint [simp]:
  "length (putUint16 a) = 2" "length (putUint32 b) = 4" "length (putUint64 c) = 8"
  by (simp_all add: putUint16_def putUint32_def putUint64_def)

lemma le_bytes_Suc: "le_bytes (Suc n) w = ucast w # le_bytes n (drop_bit 8 w)"
proof -
  have "[0..<Suc n] = 0 # map Suc [0..<n]"
    by (simp add: map_Suc_upt upt_conv_Cons del: upt_Suc)
  then show ?thesis by (simp add: le_bytes_def comp_def drop_bit_drop_bit ac_simps)
qed

lemma word_split_low8:
  fixes w :: "'a::len word"
  shows "ucast (ucast w :: byte) OR push_bit 8 (drop_bit 8 w) = w"
proof (rule bit_word_eqI)
  fix n
  assume "n < LENGTH('a)"
  then show "bit (ucast (ucast w :: byte) OR push_bit 8 (drop_bit 8 w)) n = bit w n"
    by (cases "n < 8") (auto simp: bit_simps)
qed

lemma le_word_le_bytes_aux:
  fixes w :: "'a::len word"
  shows "(\<And>i. bit w i \<Longrightarrow> i < 8 * n) \<Longrightarrow> le_word (le_bytes n w) = w"
proof (induction n arbitrary: w)
  case 0
  then have "w = 0" by (intro bit_word_eqI) auto
  then show ?case by (simp add: le_bytes_def)
next
  case (Suc n)
  have "bit (drop_bit 8 w) i \<Longrightarrow> i < 8 * n" for i
    using Suc.prems [of "8 + i"] by (auto simp: bit_drop_bit_eq)
  then have "le_word (le_bytes n (drop_bit 8 w)) = drop_bit 8 w"
    by (rule Suc.IH)
  then show ?case
    by (simp only: le_bytes_Suc le_word.simps word_split_low8)
qed

lemma le_word_le_bytes:
  fixes w :: "'a::len word"
  shows "LENGTH('a) \<le> 8 * n \<Longrightarrow> le_word (le_bytes n w) = w"
  by (rule le_word_le_bytes_aux) (meson bit_imp_le_length less_le_trans)

lemma getUint_putUint [simp, go_simps]:
  "getUint16 (putUint16 a @ xs) = a"
  "getUint32 (putUint32 b @ xs) = b"
  "getUint64 (putUint64 c @ xs) = c"
  by (simp_all add: getUint16_def getUint32_def getUint64_def putUint16_def putUint32_def
      putUint64_def le_word_le_bytes)

lemma getUint_putUint_Nil [simp, go_simps]:
  "getUint16 (putUint16 a) = a" "getUint32 (putUint32 b) = b" "getUint64 (putUint64 c) = c"
  using getUint_putUint [of _ "[]"] by simp_all

lemma le_bytes_le_word:
  "length bs = n \<Longrightarrow> 8 * n \<le> LENGTH('a::len) \<Longrightarrow> le_bytes n (le_word bs :: 'a word) = bs"
proof (induction bs arbitrary: n)
  case Nil
  then show ?case by (simp add: le_bytes_def)
next
  case (Cons b bs)
  then obtain m where n: "n = Suc m" and m: "length bs = m" by (cases n) auto
  have len: "8 * m + 8 \<le> LENGTH('a)" using Cons.prems n by simp
  have low: "(ucast (ucast b OR push_bit 8 (le_word bs) :: 'a word) :: byte) = b"
    using len by (intro bit_word_eqI) (auto simp: bit_simps)
  have high: "bit (le_word bs :: 'a word) i \<Longrightarrow> i < 8 * m" for i
    using m
  proof (induction bs arbitrary: m i)
    case Nil
    then show ?case by simp
  next
    case (Cons x xs)
    then obtain l where l: "m = Suc l" "length xs = l" by (cases m) auto
    show ?case
    proof (cases "i < 8")
      case True
      then show ?thesis using l by simp
    next
      case False
      then have "bit (le_word xs :: 'a word) (i - 8)"
        using Cons.prems by (auto simp: bit_simps dest: bit_imp_le_length)
      then have "i - 8 < 8 * l" using Cons.IH l by blast
      then show ?thesis using l by simp
    qed
  qed
  have "drop_bit 8 (ucast b OR push_bit 8 (le_word bs) :: 'a word) = le_word bs"
  proof (rule bit_word_eqI)
    fix i assume "i < LENGTH('a)"
    show "bit (drop_bit 8 (ucast b OR push_bit 8 (le_word bs) :: 'a word)) i = bit (le_word bs :: 'a word) i"
      using high [of i] len by (auto simp: bit_simps dest: bit_imp_le_length)
  qed
  then show ?case
    using Cons.IH [OF m] len by (simp add: n le_bytes_Suc low)
qed

lemma putUint64_getUint64 [simp]: "length bs = 8 \<Longrightarrow> putUint64 (getUint64 bs) = bs"
  by (simp add: putUint64_def getUint64_def le_bytes_le_word)

lemma putUint32_getUint32 [simp]: "length bs = 4 \<Longrightarrow> putUint32 (getUint32 bs) = bs"
  by (simp add: putUint32_def getUint32_def le_bytes_le_word)

subsection \<open>Buffers\<close>

text \<open>
  \<open>make([]byte, n)\<close> panics when the length does not fit an \<open>int\<close> or exceeds the largest
  allocation of the runtime, \<open>1 << 48\<close> bytes on the 64-bit platforms.
\<close>

definition maxAlloc :: nat where "maxAlloc = 2 ^ 48"

definition go_make :: "nat \<Rightarrow> bytes result" where
  "go_make n = (if n \<le> maxAlloc then Inr (replicate n 0)
                else Inl (Panic ''makeslice: len out of range''))"

definition buf_put :: "bytes \<Rightarrow> nat \<Rightarrow> bytes \<Rightarrow> bytes" where
  "buf_put buf off bs = take off buf @ bs @ drop (off + length bs) buf"

lemma buf_put_append:
  assumes "off = length pre" and "length bs = length mid"
  shows "buf_put (pre @ mid @ post) off bs = pre @ bs @ post"
  using assms by (simp add: buf_put_def)

lemma length_buf_put: "off + length bs \<le> length buf \<Longrightarrow> length (buf_put buf off bs) = length buf"
  by (simp add: buf_put_def)

subsection \<open>Readers\<close>

text \<open>
  A reader is the bytes it has left and the error its underlying \<open>Read\<close> reports once they
  are used up (\<open>io.EOF\<close> for a well-behaved stream, an I/O error otherwise).
  \<open>io.ReadFull\<close> fills a buffer of a given length: it asks for nothing when the length is 0;
  when the stream ends early it returns the number of bytes read together with
  \<open>io.EOF\<close> (none read), \<open>io.ErrUnexpectedEOF\<close> (some read) or the stream's own error. The
  part of the buffer that was read is returned in every case.
\<close>

record reader =
  rd_data :: bytes
  rd_end :: go_err

definition readFull :: "reader \<Rightarrow> nat \<Rightarrow> bytes \<times> go_err option \<times> reader" where
  "readFull r n =
     (if n = 0 then ([], None, r)
      else if n \<le> length (rd_data r) then
        (take n (rd_data r), None, r\<lparr>rd_data := drop n (rd_data r)\<rparr>)
      else
        (rd_data r,
         Some (if rd_end r = ErrEOF \<and> rd_data r \<noteq> [] then ErrUnexpectedEOF else rd_end r),
         r\<lparr>rd_data := []\<rparr>))"

lemma readFull_ok [simp, go_simps]:
  "n = length xs \<Longrightarrow> readFull \<lparr>rd_data = xs @ ys, rd_end = e\<rparr> n = (xs, None, \<lparr>rd_data = ys, rd_end = e\<rparr>)"
  by (auto simp: readFull_def)

lemma readFull_exact [simp, go_simps]:
  "n = length xs \<Longrightarrow> readFull \<lparr>rd_data = xs, rd_end = e\<rparr> n = (xs, None, \<lparr>rd_data = [], rd_end = e\<rparr>)"
  using readFull_ok [of n xs "[]" e] by simp

lemma readFull_okD:
  "readFull r n = (bs, None, r') \<Longrightarrow>
     rd_data r = bs @ rd_data r' \<and> length bs = n \<and> rd_end r' = rd_end r"
  by (auto simp: readFull_def split: if_splits)

lemma readFull_length:
  "readFull r n = (bs, e, r') \<Longrightarrow> length (rd_data r') + length bs = length (rd_data r)"
  by (auto simp: readFull_def split: if_splits)

end
