(* ===== verification/Go_Md5.thy ===== *)
theory Go_Md5
  imports Go_Binary
begin

text \<open>
  Go's \<open>crypto/md5\<close>: \<open>md5.New()\<close>, one \<open>Write\<close> and \<open>Sum(nil)\<close> as the function \<open>md5_sum\<close>
  from a message to its 16-byte digest (RFC 1321).
\<close>

type_synonym md5_state = "u32 \<times> u32 \<times> u32 \<times> u32"

definition md5_k :: "u32 list" where
  "md5_k = [
      0xD76AA478, 0xE8C7B756, 0x242070DB, 0xC1BDCEEE,
      0xF57C0FAF, 0x4787C62A, 0xA8304613, 0xFD469501,
      0x698098D8, 0x8B44F7AF, 0xFFFF5BB1, 0x895CD7BE,
      0x6B901122, 0xFD987193, 0xA679438E, 0x49B40821,
      0xF61E2562, 0xC040B340, 0x265E5A51, 0xE9B6C7AA,
      0xD62F105D, 0x02441453, 0xD8A1E681, 0xE7D3FBC8,
      0x21E1CDE6, 0xC33707D6, 0xF4D50D87, 0x455A14ED,
      0xA9E3E905, 0xFCEFA3F8, 0x676F02D9, 0x8D2A4C8A,
      0xFFFA3942, 0x8771F681, 0x6D9D6122, 0xFDE5380C,
      0xA4BEEA44, 0x4BDECFA9, 0xF6BB4B60, 0xBEBFBC70,
      0x289B7EC6, 0xEAA127FA, 0xD4EF3085, 0x04881D05,
      0xD9D4D039, 0xE6DB99E5, 0x1FA27CF8, 0xC4AC5665,
      0xF4292244, 0x432AFF97, 0xAB9423A7, 0xFC93A039,
      0x655B59C3, 0x8F0CCC92, 0xFFEFF47D, 0x85845DD1,
      0x6FA87E4F, 0xFE2CE6E0, 0xA3014314, 0x4E0811A1,
      0xF7537E82, 0xBD3AF235, 0x2AD7D2BB, 0xEB86D391]"

definition md5_s :: "nat \<Rightarrow> nat" where
  "md5_s i =
     (if i < 16 then [7, 12, 17, 22] ! (i mod 4)
      else if i < 32 then [5, 9, 14, 20] ! (i mod 4)
      else if i < 48 then [4, 11, 16, 23] ! (i mod 4)
      else [6, 10, 15, 21] ! (i mod 4))"

definition rotl32 :: "nat \<Rightarrow> u32 \<Rightarrow> u32" where
  "rotl32 n x = push_bit n x OR drop_bit (32 - n) x"

definition md5_round :: "u32 list \<Rightarrow> nat \<Rightarrow> md5_state \<Rightarrow> md5_state" where
  "md5_round m i st =
     (case st of (a, b, c, d) \<Rightarrow>
        let (f, g) =
          (if i < 16 then ((b AND c) OR (NOT b AND d), i)
           else if i < 32 then ((d AND b) OR (NOT d AND c), (5 * i + 1) mod 16)
           else if i < 48 then (b XOR c XOR d, (3 * i + 5) mod 16)
           else (c XOR (b OR NOT d), (7 * i) mod 16))
        in (d, b + rotl32 (md5_s i) (a + f + md5_k ! i + m ! g), b, c))"

definition md5_block :: "bytes \<Rightarrow> md5_state \<Rightarrow> md5_state" where
  "md5_block blk st =
     (let m = map (\<lambda>j. getUint32 (drop (4 * j) blk)) [0..<16]
      in case (st, fold (md5_round m) [0..<64] st) of
           ((a, b, c, d), (a', b', c', d')) \<Rightarrow> (a + a', b + b', c + c', d + d'))"

fun md5_blocks :: "bytes \<Rightarrow> md5_state \<Rightarrow> md5_state" where
  "md5_blocks bs st =
     (if length bs < 64 then st else md5_blocks (drop 64 bs) (md5_block (take 64 bs) st))"

declare md5_blocks.simps [simp del]

definition md5_pad :: "bytes \<Rightarrow> bytes" where
  "md5_pad bs =
     bs @ [0x80] @ replicate ((119 - length bs mod 64) mod 64) 0
        @ putUint64 (of_nat (8 * length bs))"

definition md5_sum :: "bytes \<Rightarrow> bytes" where
  "md5_sum bs =
     (case md5_blocks (md5_pad bs) (0x67452301, 0xEFCDAB89, 0x98BADCFE, 0x10325476) of
        (a, b, c, d) \<Rightarrow> putUint32 a @ putUint32 b @ putUint32 c @ putUint32 d)"

lemma length_md5_sum [simp]: "length (md5_sum bs) = 16"
  by (simp add: md5_sum_def split: prod.split)

end
