(* ===== verification/Fsm_Utils.thy ===== *)
theory Fsm_Utils
  imports Os_FS Go_Md5
begin

text \<open>
  \<open>src/fsm/utils.go\<close>: which directory holds the current Pebble database. The name of the
  directory is kept in the file \<open>pebble.running\<close>, behind the first 8 bytes of its MD5; it is
  replaced by writing \<open>pebble.updating\<close> and renaming it. Every function takes the world and
  returns its result with the world after it; a returned Go \<open>error\<close> is \<open>go_err option\<close>.
\<close>

definition currentDBFilename :: string where "currentDBFilename = ''pebble.running''"
definition updatingDBFilename :: string where "updatingDBFilename = ''pebble.updating''"
definition cf_default :: string where "cf_default = ''default''"

definition pebbleCfMap :: "(string \<times> byte) list" where
  "pebbleCfMap = [(cf_default, 1)]"

definition err_of :: "'a result \<Rightarrow> go_err option" where
  "err_of r = (case r of Inl e \<Rightarrow> Some e | Inr _ \<Rightarrow> None)"

lemma err_of_simps [simp]: "err_of (Inl e) = Some e" "err_of (Inr x) = None"
  by (simp_all add: err_of_def)

subsection \<open>Directory bookkeeping\<close>

definition syncDir :: "string \<Rightarrow> 'db world \<Rightarrow> go_err option \<times> 'db world" where
  "syncDir dir w =
     (if w_windows w then (None, w)
      else case os_Stat dir w of
        (Inl e, w1) \<Rightarrow> (Some e, w1)
      | (Inr isDir, w1) \<Rightarrow>
          if \<not> isDir then (None, w1)
          else (case os_Open (filepath_Clean dir) w1 of
            (Inl e, w2) \<Rightarrow> (Some e, w2)
          | (Inr _, w2) \<Rightarrow>
              (let (s, w3) = os_Sync w2; (c, w4) = os_Close w3
               in (case err_of s of Some e \<Rightarrow> Some e | None \<Rightarrow> err_of c, w4))))"

definition isNewRun :: "string \<Rightarrow> 'db world \<Rightarrow> bool \<times> 'db world" where
  "isNewRun dir w =
     (case os_Stat (filepath_Join dir currentDBFilename) w of
        (Inl e, w1) \<Rightarrow> (os_IsNotExist e, w1)
      | (Inr _, w1) \<Rightarrow> (False, w1))"

definition getNewRandomDBDirName :: "string \<Rightarrow> u64 \<Rightarrow> int \<Rightarrow> string" where
  "getNewRandomDBDirName dir rn ct =
     filepath_Join dir (show_nat (unat rn) @ CHR ''_'' # show_int ct)"

definition replaceCurrentDBFile :: "string \<Rightarrow> 'db world \<Rightarrow> go_err option \<times> 'db world" where
  "replaceCurrentDBFile dir w =
     (let fp = filepath_Join dir currentDBFilename;
          tmpFp = filepath_Join dir updatingDBFilename
      in case os_Rename tmpFp fp w of
           (Inl e, w1) \<Rightarrow> (Some e, w1)
         | (Inr _, w1) \<Rightarrow> syncDir dir w1)"

definition dbdir_record :: "string \<Rightarrow> bytes" where
  "dbdir_record dbdir = take 8 (md5_sum (bytes_of dbdir)) @ bytes_of dbdir"

text \<open>The writes of \<open>saveCurrentDBDirName\<close>, then its deferred close and directory sync.\<close>

definition save_writes :: "string \<Rightarrow> string \<Rightarrow> 'db world \<Rightarrow> go_err option \<times> 'db world" where
  "save_writes fp dbdir w =
     (case os_Write fp (take 8 (md5_sum (bytes_of dbdir))) w of
        (Inl e, w1) \<Rightarrow> (Some e, w1)
      | (Inr _, w1) \<Rightarrow>
          (case os_Write fp (bytes_of dbdir) w1 of
             (Inl e, w2) \<Rightarrow> (Some e, w2)
           | (Inr _, w2) \<Rightarrow> (case os_Sync w2 of (r, w3) \<Rightarrow> (err_of r, w3))))"

definition saveCurrentDBDirName :: "string \<Rightarrow> string \<Rightarrow> 'db world \<Rightarrow> go_err option \<times> 'db world" where
  "saveCurrentDBDirName dir dbdir w =
     (let fp = filepath_Join dir updatingDBFilename
      in case os_Create fp w of
           (Inl e, w1) \<Rightarrow> (Some e, w1)
         | (Inr _, w1) \<Rightarrow>
             (case save_writes fp dbdir w1 of (r, w2) \<Rightarrow>
                (case os_Close w2 of
                   (Inl e, w3) \<Rightarrow> (Some (Panic ''close''), w3)
                 | (Inr _, w3) \<Rightarrow>
                     (case syncDir dir w3 of
                        (Some e, w4) \<Rightarrow> (Some (Panic ''syncDir''), w4)
                      | (None, w4) \<Rightarrow> (r, w4)))))"

definition check_dbdir_record :: "bytes \<Rightarrow> string result" where
  "check_dbdir_record data =
     (if length data \<le> 8 then Inl (ErrNew ''corrupted content'')
      else if take 8 data \<noteq> take 8 (md5_sum (drop 8 data))
        then Inl (ErrNew ''corrupted content with not matched crc'')
      else Inr (string_of (drop 8 data)))"

definition getCurrentDBDirName :: "string \<Rightarrow> 'db world \<Rightarrow> string result \<times> 'db world" where
  "getCurrentDBDirName dir w =
     (let fp = filepath_Join dir currentDBFilename
      in case os_Open fp w of
           (Inl e, w1) \<Rightarrow> (Inl e, w1)
         | (Inr _, w1) \<Rightarrow>
             (case io_ReadAll fp w1 of (r, w2) \<Rightarrow>
                (case os_Close w2 of (_, w3) \<Rightarrow>
                   (case r of Inl e \<Rightarrow> Inl e | Inr data \<Rightarrow> check_dbdir_record data, w3))))"

definition createNodeDataDir :: "string \<Rightarrow> 'db world \<Rightarrow> go_err option \<times> 'db world" where
  "createNodeDataDir dir w =
     (case os_MkdirAll dir w of
        (Inl e, w1) \<Rightarrow> (Some e, w1)
      | (Inr _, w1) \<Rightarrow> syncDir (filepath_Dir dir) w1)"

fun cleanup_loop :: "string \<Rightarrow> string \<Rightarrow> (string \<times> bool) list \<Rightarrow> 'db world \<Rightarrow> go_err option \<times> 'db world" where
  "cleanup_loop dir dbdir [] w = (None, w)"
| "cleanup_loop dir dbdir ((name, isDir) # fis) w =
     (if \<not> isDir then cleanup_loop dir dbdir fis w
      else let toDelete = filepath_Join dir name
           in if toDelete \<noteq> dbdir then
                (case os_RemoveAll toDelete w of
                   (Inl e, w1) \<Rightarrow> (Some e, w1)
                 | (Inr _, w1) \<Rightarrow> cleanup_loop dir dbdir fis w1)
              else cleanup_loop dir dbdir fis w)"

definition cleanupNodeDataDir :: "string \<Rightarrow> 'db world \<Rightarrow> go_err option \<times> 'db world" where
  "cleanupNodeDataDir dir w =
     (case os_RemoveAll (filepath_Join dir updatingDBFilename) w of (_, w1) \<Rightarrow>
        (case getCurrentDBDirName dir w1 of
           (Inl e, w2) \<Rightarrow> (Some e, w2)
         | (Inr dbdir, w2) \<Rightarrow>
             (case os_ReadDir dir w2 of
                (Inl e, w3) \<Rightarrow> (Some e, w3)
              | (Inr files, w3) \<Rightarrow> cleanup_loop dir dbdir files w3)))"

definition getPebbleDBDir :: "string \<Rightarrow> u64 \<Rightarrow> int \<Rightarrow> 'db world \<Rightarrow> string result \<times> 'db world" where
  "getPebbleDBDir dir rn ct w =
     (case isNewRun dir w of (newRunning, w1) \<Rightarrow>
        if newRunning then
          (let dbdir = getNewRandomDBDirName dir rn ct
           in case saveCurrentDBDirName dir dbdir w1 of
                (Some e, w2) \<Rightarrow> (Inl e, w2)
              | (None, w2) \<Rightarrow>
                  (case replaceCurrentDBFile dir w2 of
                     (Some e, w3) \<Rightarrow> (Inl e, w3)
                   | (None, w3) \<Rightarrow> (Inr dbdir, w3)))
        else
          (case cleanupNodeDataDir dir w1 of
             (Some e, w2) \<Rightarrow> (Inl e, w2)
           | (None, w2) \<Rightarrow>
               (case getCurrentDBDirName dir w2 of
                  (Inl e, w3) \<Rightarrow> (Inl e, w3)
                | (Inr dbdir, w3) \<Rightarrow>
                    (case os_Stat dbdir w3 of
                       (Inl e, w4) \<Rightarrow>
                         if os_IsNotExist e then (Inl (ErrNew ''db dir unexpectedly deleted''), w4)
                         else (Inr dbdir, w4)
                     | (Inr _, w4) \<Rightarrow> (Inr dbdir, w4)))))"

definition existFilePath :: "string \<Rightarrow> 'db world \<Rightarrow> bool \<times> 'db world" where
  "existFilePath path w =
     (case os_Stat path w of (Inl e, w1) \<Rightarrow> (os_IsExist e, w1) | (Inr _, w1) \<Rightarrow> (True, w1))"

subsection \<open>What the functions leave alone\<close>

lemma plain_filenames [simp]:
  "plain_name currentDBFilename" "plain_name updatingDBFilename"
  by (simp_all add: plain_name_def currentDBFilename_def updatingDBFilename_def)

lemma filenames_neq [simp]:
  "currentDBFilename \<noteq> updatingDBFilename" "updatingDBFilename \<noteq> currentDBFilename"
  by (simp_all add: currentDBFilename_def updatingDBFilename_def)

lemma resolve_random [simp]:
  "resolve cwd (getNewRandomDBDirName dir rn ct)
   = resolve cwd dir @ [show_nat (unat rn) @ CHR ''_'' # show_int ct]"
  by (simp add: getNewRandomDBDirName_def plain_name_show)

lemma syncDir_quiet: "syncDir dir w = (r, w') \<Longrightarrow> quiet w w'"
  by (auto simp: syncDir_def Let_def split: if_splits prod.splits sum.splits
      dest!: os_quietE intro: quiet_trans)

lemma isNewRun_quiet: "isNewRun dir w = (r, w') \<Longrightarrow> quiet w w'"
  by (auto simp: isNewRun_def split: prod.splits sum.splits dest!: os_quietE)

lemma getCurrentDBDirName_quiet: "getCurrentDBDirName dir w = (r, w') \<Longrightarrow> quiet w w'"
  by (auto simp: getCurrentDBDirName_def Let_def split: prod.splits sum.splits
      dest!: os_quietE intro: quiet_trans)

lemma save_writes_touches: "save_writes fp dbdir w = (r, w') \<Longrightarrow> touches {w_key w fp} w w'"
  unfolding save_writes_def
  by (auto split: prod.splits sum.splits
      dest!: os_touchesE os_quietE quiet_touches [where K = "{w_key w fp}"] simp: touches_key)
     (blast intro: touches_trans)+

lemma saveCurrentDBDirName_touches:
  assumes "saveCurrentDBDirName dir dbdir w = (r, w')"
  shows "touches {w_key w dir @ [updatingDBFilename]} w w'"
proof -
  let ?K = "{w_key w dir @ [updatingDBFilename]}"
  obtain c w1 where c: "os_Create (filepath_Join dir updatingDBFilename) w = (c, w1)" by fastforce
  have t1: "touches ?K w w1" using os_touchesE(1) [OF c] by simp
  show ?thesis
  proof (cases c)
    case (Inl e)
    with c t1 assms show ?thesis by (simp add: saveCurrentDBDirName_def)
  next
    case (Inr u)
    obtain s w2 where s: "save_writes (filepath_Join dir updatingDBFilename) dbdir w1 = (s, w2)"
      by fastforce
    have t2: "touches ?K w w2"
      using save_writes_touches [OF s] t1 by (auto simp: touches_key intro: touches_trans)
    have "quiet w2 w'"
      using assms c s Inr
      by (auto simp: saveCurrentDBDirName_def split: prod.splits sum.splits option.splits
          dest!: os_quietE syncDir_quiet intro: quiet_trans)
    with t2 show ?thesis by (blast intro: touches_trans quiet_touches)
  qed
qed

lemma replaceCurrentDBFile_touches:
  assumes "replaceCurrentDBFile dir w = (r, w')"
  shows "touches {w_key w dir @ [updatingDBFilename], w_key w dir @ [currentDBFilename]} w w'"
proof -
  let ?K = "{w_key w dir @ [updatingDBFilename], w_key w dir @ [currentDBFilename]}"
  obtain c w1 where
    c: "os_Rename (filepath_Join dir updatingDBFilename) (filepath_Join dir currentDBFilename) w = (c, w1)"
    by fastforce
  have "touches ?K w w1" using os_touchesE(3) [OF c] by simp
  moreover have "quiet w1 w'"
    using assms c
    by (auto simp: replaceCurrentDBFile_def split: sum.splits dest: syncDir_quiet)
  ultimately show ?thesis by (blast intro: touches_trans quiet_touches)
qed

subsection \<open>The record of the current directory\<close>

lemma check_dbdir_record_iff:
  "check_dbdir_record data = Inr s \<longleftrightarrow> data = dbdir_record s \<and> s \<noteq> []"
proof
  assume "check_dbdir_record data = Inr s"
  then have "8 < length data" "take 8 data = take 8 (md5_sum (drop 8 data))"
    "s = string_of (drop 8 data)"
    by (auto simp: check_dbdir_record_def split: if_splits)
  then show "data = dbdir_record s \<and> s \<noteq> []"
    by (metis append_take_drop_id bytes_of_string_of dbdir_record_def drop_eq_Nil bytes_of_Nil not_less)
next
  assume "data = dbdir_record s \<and> s \<noteq> []"
  moreover have "length (take 8 (md5_sum b)) = 8" for b by simp
  ultimately show "check_dbdir_record data = Inr s"
    by (cases s) (simp_all add: check_dbdir_record_def dbdir_record_def)
qed

text \<open>The directory name a file system records for a base directory.\<close>

definition recorded_dir :: "'db nodes \<Rightarrow> fskey \<Rightarrow> string option" where
  "recorded_dir ns base =
     (case map_of ns (base @ [currentDBFilename]) of
        Some (RegFile data) \<Rightarrow> (case check_dbdir_record data of Inr s \<Rightarrow> Some s | Inl _ \<Rightarrow> None)
      | _ \<Rightarrow> None)"

lemma getCurrentDBDirName_sound:
  assumes "getCurrentDBDirName dir w = (Inr s, w')"
  shows "recorded_dir (w_nodes w) (w_key w dir) = Some s"
proof -
  obtain u w1 where o1: "os_Open (filepath_Join dir currentDBFilename) w = (Inr u, w1)"
    using assms by (auto simp: getCurrentDBDirName_def Let_def split: prod.splits sum.splits)
  obtain data w2 where r: "io_ReadAll (filepath_Join dir currentDBFilename) w1 = (Inr data, w2)"
      and c: "check_dbdir_record data = Inr s"
    using assms o1 by (auto simp: getCurrentDBDirName_def Let_def split: prod.splits sum.splits)
  have q: "quiet w w1" using o1 by (rule os_quietE)
  have "map_of (w_nodes w1) (w_key w1 dir @ [currentDBFilename]) = Some (RegFile data)"
    using r by (auto simp: io_ReadAll_def os_call_def split: option.splits node.splits)
  with q c show ?thesis
    using quiet_key [OF q] by (simp add: recorded_dir_def quiet_def)
qed

lemma getCurrentDBDirName_healthy:
  assumes "healthy w" and "recorded_dir (w_nodes w) (w_key w dir) = Some s"
  shows "\<exists>w'. getCurrentDBDirName dir w = (Inr s, w') \<and> quiet w w'"
proof -
  obtain data where d: "map_of (w_nodes w) (w_key w dir @ [currentDBFilename]) = Some (RegFile data)"
      "check_dbdir_record data = Inr s"
    using assms(2) by (auto simp: recorded_dir_def split: option.splits node.splits sum.splits)
  have "fst (getCurrentDBDirName dir w) = Inr s"
    using assms(1) d by (simp add: getCurrentDBDirName_def os_defs fs_simps)
  then show ?thesis
    using getCurrentDBDirName_quiet by (metis prod.collapse)
qed

subsection \<open>Recording a new directory\<close>

lemma is_dir_map_set:
  "k \<noteq> [] \<Longrightarrow> is_dir (map_set k n ns) d =
     (if d = k then (case n of Directory _ \<Rightarrow> True | _ \<Rightarrow> False) else is_dir ns d)"
  by (auto simp: is_dir_def split: node.split)

lemma is_dir_map_del: "k \<noteq> [] \<Longrightarrow> is_dir (map_del k ns) d = (d \<noteq> k \<and> is_dir ns d)"
  by (auto simp: is_dir_def)

lemma syncDir_healthy:
  assumes "healthy w" and "is_dir (w_nodes w) (w_key w dir)"
  shows "\<exists>w'. syncDir dir w = (None, w') \<and> quiet w w'"
proof -
  have "fst (syncDir dir w) = None"
    using assms by (auto simp: syncDir_def os_defs fs_simps is_dir_def split: option.splits node.splits)
  then show ?thesis using syncDir_quiet by (metis prod.collapse)
qed

lemma saveCurrentDBDirName_healthy:
  assumes h: "healthy w" and d: "is_dir (w_nodes w) (w_key w dir)"
    and u: "\<not> is_dir (w_nodes w) (w_key w dir @ [updatingDBFilename])"
  shows "\<exists>w'. saveCurrentDBDirName dir dbdir w = (None, w') \<and>
    map_of (w_nodes w') = (map_of (w_nodes w))(w_key w dir @ [updatingDBFilename] \<mapsto> RegFile (dbdir_record dbdir))"
proof -
  let ?fp = "filepath_Join dir updatingDBFilename"
  let ?k = "w_key w dir @ [updatingDBFilename]"
  let ?set = "\<lambda>bs ns. map_set ?k (RegFile bs) ns"
  let ?w1 = "set_nodes (?set [] (w_nodes w)) (tick w)"
  have c: "os_Create ?fp w = (Inr (), ?w1)"
    using h d u by (simp add: os_Create_def fs_simps)
  define w2 where "w2 = snd (save_writes ?fp dbdir ?w1)"
  have "save_writes ?fp dbdir ?w1 = (None, w2)"
    using h by (simp add: save_writes_def os_Write_def os_Sync_def fs_simps w2_def)
  moreover have n2: "map_of (w_nodes w2) = (map_of (w_nodes w))(?k \<mapsto> RegFile (dbdir_record dbdir))"
    using h by (simp add: w2_def save_writes_def os_Write_def os_Sync_def fs_simps dbdir_record_def)
  moreover have "healthy w2" "w_cwd w2 = w_cwd w"
    using h by (simp_all add: w2_def save_writes_def os_Write_def os_Sync_def fs_simps)
  moreover have "is_dir (w_nodes w2) (w_key w dir)"
    using d n2 by (auto simp: is_dir_def)
  ultimately obtain w4 where "syncDir dir (tick w2) = (None, w4)" "quiet (tick w2) w4"
    using syncDir_healthy [of "tick w2" dir] by auto
  with c \<open>save_writes ?fp dbdir ?w1 = (None, w2)\<close> \<open>healthy w2\<close> n2 show ?thesis
    by (simp add: saveCurrentDBDirName_def os_Close_def fs_simps quiet_def)
qed

lemma replaceCurrentDBFile_healthy:
  assumes h: "healthy w" and d: "is_dir (w_nodes w) (w_key w dir)"
    and u: "map_of (w_nodes w) (w_key w dir @ [updatingDBFilename]) = Some (RegFile bs)"
    and r: "\<not> is_dir (w_nodes w) (w_key w dir @ [currentDBFilename])"
  shows "\<exists>w'. replaceCurrentDBFile dir w = (None, w') \<and>
    map_of (w_nodes w') = (map_of (w_nodes w))(w_key w dir @ [updatingDBFilename] := None,
      w_key w dir @ [currentDBFilename] \<mapsto> RegFile bs) \<and>
    w_hist w' = w_nodes w' # w_hist w"
proof -
  let ?uk = "w_key w dir @ [updatingDBFilename]"
  let ?rk = "w_key w dir @ [currentDBFilename]"
  let ?w1 = "set_nodes (map_set ?rk (RegFile bs) (map_del ?uk (w_nodes w))) (tick w)"
  have "os_Rename (filepath_Join dir updatingDBFilename) (filepath_Join dir currentDBFilename) w = (Inr (), ?w1)"
    using h d u r by (simp add: os_Rename_def fs_simps)
  moreover have "is_dir (w_nodes ?w1) (w_key ?w1 dir)"
    using d by (simp add: is_dir_map_set is_dir_map_del)
  then obtain w2 where "syncDir dir ?w1 = (None, w2)" "quiet ?w1 w2"
    using syncDir_healthy [of ?w1 dir] h by auto
  ultimately show ?thesis
    by (simp add: replaceCurrentDBFile_def quiet_def)
qed

subsection \<open>Cleaning up\<close>

lemma dir_entries_iff:
  "(n, b) \<in> set (dir_entries d ns) \<longleftrightarrow> d @ [n] \<in> fst ` set ns \<and> b = is_dir ns (d @ [n])"
proof -
  have "n \<in> (\<lambda>e. last (fst e)) ` {e \<in> set ns. fst e \<noteq> [] \<and> butlast (fst e) = d} \<longleftrightarrow> d @ [n] \<in> fst ` set ns"
    (is "?l = ?r")
  proof
    assume ?l
    then obtain e where e: "e \<in> set ns" "fst e \<noteq> []" "butlast (fst e) = d" "n = last (fst e)" by auto
    then have "fst e = d @ [n]" using append_butlast_last_id [of "fst e"] by simp
    with e(1) show ?r by (intro image_eqI [of _ _ e]) auto
  next
    assume ?r
    then obtain e where "e \<in> set ns" "fst e = d @ [n]" by auto
    then show ?l by (intro image_eqI [of _ _ e]) auto
  qed
  then show ?thesis by (simp add: dir_entries_def image_iff)
qed

lemma is_dir_in_keys: "is_dir ns (d @ [n]) \<Longrightarrow> d @ [n] \<in> fst ` set ns"
  by (auto simp: is_dir_def split: option.splits dest: map_of_SomeD intro: rev_image_eqI)

lemma dir_entries_dir: "(n, True) \<in> set (dir_entries d ns) \<longleftrightarrow> is_dir ns (d @ [n])"
  using is_dir_in_keys by (fastforce simp: dir_entries_iff)

lemma dir_entries_plain: "wf_nodes ns \<Longrightarrow> (n, b) \<in> set (dir_entries d ns) \<Longrightarrow> plain_name n"
  by (fastforce simp: dir_entries_iff wf_nodes_def list_all_iff)

lemma os_RemoveAll_ok:
  "os_RemoveAll p w = (Inr u, w') \<Longrightarrow> w' = set_nodes (remove_tree (w_key w p) (w_nodes w)) (tick w)"
  by (auto simp: os_RemoveAll_def os_call_def split: option.splits)

definition doomed :: "string \<Rightarrow> string \<Rightarrow> fskey \<Rightarrow> (string \<Rightarrow> bool) \<Rightarrow> fskey \<Rightarrow> bool" where
  "doomed dir dbdir base D k = (\<exists>n. D n \<and> filepath_Join dir n \<noteq> dbdir \<and> below (base @ [n]) k)"

lemma cleanup_loop_ok:
  "cleanup_loop dir dbdir fis w = (None, w') \<Longrightarrow> \<forall>(n, b) \<in> set fis. plain_name n \<Longrightarrow>
   same_env w w' \<and> map_of (w_nodes w') =
     (\<lambda>k. if doomed dir dbdir (w_key w dir) (\<lambda>n. (n, True) \<in> set fis) k then None else map_of (w_nodes w) k)"
proof (induction fis arbitrary: w)
  case Nil
  then show ?case by (simp add: doomed_def)
next
  case (Cons fi fis)
  obtain name isDir where fi: "fi = (name, isDir)" by fastforce
  have plain: "plain_name name" "\<forall>(n, b) \<in> set fis. plain_name n" using Cons.prems(2) fi by auto
  let ?D = "\<lambda>n. (n, True) \<in> set fis"
  show ?case
  proof (cases "isDir \<and> filepath_Join dir name \<noteq> dbdir")
    case True
    then obtain u w1 where r: "os_RemoveAll (filepath_Join dir name) w = (Inr u, w1)"
        and rest: "cleanup_loop dir dbdir fis w1 = (None, w')"
      using Cons.prems(1) fi by (auto split: prod.splits sum.splits)
    have w1: "w1 = set_nodes (remove_tree (w_key w dir @ [name]) (w_nodes w)) (tick w)"
      using os_RemoveAll_ok [OF r] plain(1) by simp
    have env: "same_env w w1" by (simp add: w1 same_env_def)
    have doom: "doomed dir dbdir b (\<lambda>n. (n, True) \<in> set (fi # fis)) k
      \<longleftrightarrow> below (b @ [name]) k \<or> doomed dir dbdir b ?D k" for b k
      using True fi by (auto simp: doomed_def)
    have "same_env w1 w'" and m: "map_of (w_nodes w') =
        (\<lambda>k. if doomed dir dbdir (w_key w dir) ?D k then None else map_of (w_nodes w1) k)"
      using Cons.IH [OF rest plain(2)] same_env_key [OF env] by simp_all
    moreover have "map_of (w_nodes w1) k = (if below (w_key w dir @ [name]) k then None else map_of (w_nodes w) k)" for k
      by (simp add: w1 map_of_remove_tree)
    ultimately show ?thesis
      using same_env_trans [OF env] by (simp only: m doom fun_eq_iff) auto
  next
    case False
    then have "cleanup_loop dir dbdir fis w = (None, w')"
      using Cons.prems(1) fi by (auto simp: Let_def split: if_splits)
    note IH = Cons.IH [OF this plain(2)]
    have "doomed dir dbdir b (\<lambda>n. (n, True) \<in> set (fi # fis)) = doomed dir dbdir b ?D" for b
      using False fi by (auto simp: doomed_def fun_eq_iff)
    then show ?thesis using IH by simp
  qed
qed

lemma recorded_dir_touches:
  "touches K w w' \<Longrightarrow> base @ [currentDBFilename] \<notin> K \<Longrightarrow>
   recorded_dir (w_nodes w') base = recorded_dir (w_nodes w) base"
  by (simp add: recorded_dir_def touches_lookup)

lemma updating_not_running: "\<not> below (base @ [updatingDBFilename]) (base @ [currentDBFilename])"
  by (simp add: below_snoc)

lemma not_below_child [simp]: "\<not> below (d @ [a]) d"
  by (simp add: below_def)

lemma is_dir_cong: "map_of ns k = map_of ns' k \<Longrightarrow> is_dir ns k = is_dir ns' k"
  by (simp add: is_dir_def)

lemma os_RemoveAll_nodes:
  "os_RemoveAll p w = (r, w') \<Longrightarrow>
   w_nodes w' = w_nodes w \<or> w_nodes w' = remove_tree (w_key w p) (w_nodes w)"
  by (auto simp: os_RemoveAll_def os_call_def split: option.splits)

text \<open>
  Cleaning up removes, beside \<open>pebble.updating\<close>, exactly the directories of the base directory
  whose path differs, as a string, from the recorded one.
\<close>

lemma cleanupNodeDataDir_ok:
  assumes "cleanupNodeDataDir dir w = (None, w')" and wf: "wf_nodes (w_nodes w)"
  shows "\<exists>dbdir. recorded_dir (w_nodes w) (w_key w dir) = Some dbdir \<and> same_env w w' \<and>
    (\<forall>k. \<not> below (w_key w dir @ [updatingDBFilename]) k \<longrightarrow> map_of (w_nodes w') k =
      (if doomed dir dbdir (w_key w dir) (\<lambda>n. is_dir (w_nodes w) (w_key w dir @ [n])) k
       then None else map_of (w_nodes w) k))"
proof -
  let ?b = "w_key w dir"
  let ?U = "{k. below (?b @ [updatingDBFilename]) k}"
  obtain r1 w1 where r1: "os_RemoveAll (filepath_Join dir updatingDBFilename) w = (r1, w1)" by fastforce
  obtain dbdir w2 where r2: "getCurrentDBDirName dir w1 = (Inr dbdir, w2)"
    using assms r1 by (auto simp: cleanupNodeDataDir_def split: prod.splits sum.splits)
  obtain fis w3 where r3: "os_ReadDir dir w2 = (Inr fis, w3)"
      and r4: "cleanup_loop dir dbdir fis w3 = (None, w')"
    using assms r1 r2 by (auto simp: cleanupNodeDataDir_def split: prod.splits sum.splits)
  have t1: "touches ?U w w1" using os_touchesE(4) [OF r1] by simp
  have q: "quiet w1 w3"
    using getCurrentDBDirName_quiet [OF r2] os_quietE(6) [OF r3] by (rule quiet_trans)
  have keys: "w_key w1 dir = ?b" "w_key w3 dir = ?b" "w_nodes w3 = w_nodes w1"
    using touches_key [OF t1] quiet_key [OF q] q by (simp_all add: quiet_def)
  have fis: "fis = dir_entries ?b (w_nodes w1)"
  proof -
    have q2: "quiet w1 w2" by (rule getCurrentDBDirName_quiet [OF r2])
    then have "w_key w2 dir = ?b" "w_nodes w2 = w_nodes w1"
      using keys quiet_key [OF q2] by (auto simp: quiet_def)
    then show ?thesis
      using r3 by (auto simp: os_ReadDir_def os_call_def split: option.splits if_splits)
  qed
  have wf1: "wf_nodes (w_nodes w1)"
    using os_RemoveAll_nodes [OF r1] wf by (auto simp: wf_nodes_remove_tree)
  have loop: "same_env w3 w' \<and> map_of (w_nodes w') =
     (\<lambda>k. if doomed dir dbdir (w_key w3 dir) (\<lambda>n. (n, True) \<in> set fis) k then None else map_of (w_nodes w3) k)"
    using r4 by (rule cleanup_loop_ok) (use dir_entries_plain [OF wf1] fis in auto)
  have rec: "recorded_dir (w_nodes w) ?b = Some dbdir"
    using getCurrentDBDirName_sound [OF r2] recorded_dir_touches [OF t1, of ?b] keys(1)
    by (simp add: updating_not_running)
  have dirs: "doomed dir dbdir ?b (\<lambda>n. (n, True) \<in> set fis) k
      = doomed dir dbdir ?b (\<lambda>n. is_dir (w_nodes w) (?b @ [n])) k"
    if "\<not> below (?b @ [updatingDBFilename]) k" for k
  proof -
    have same: "is_dir (w_nodes w1) (?b @ [n]) = is_dir (w_nodes w) (?b @ [n])" if "n \<noteq> updatingDBFilename" for n
      using that by (intro is_dir_cong touches_lookup [OF t1]) (simp add: below_snoc)
    have "n \<noteq> updatingDBFilename" if "below (?b @ [n]) k" for n
      using that \<open>\<not> below (?b @ [updatingDBFilename]) k\<close> by auto
    with same show ?thesis
      unfolding doomed_def fis dir_entries_dir by blast
  qed
  have "same_env w w'"
    using touches_same_env [OF t1] quiet_same_env [OF q] loop by (blast intro: same_env_trans)
  moreover have "\<forall>k. \<not> below (?b @ [updatingDBFilename]) k \<longrightarrow> map_of (w_nodes w') k =
      (if doomed dir dbdir ?b (\<lambda>n. is_dir (w_nodes w) (?b @ [n])) k then None else map_of (w_nodes w) k)"
    using loop dirs touches_lookup [OF t1] by (simp add: keys)
  ultimately show ?thesis using rec by blast
qed

lemma cleanup_loop_healthy:
  "healthy w \<Longrightarrow> \<exists>w'. cleanup_loop dir dbdir fis w = (None, w')"
proof (induction fis arbitrary: w)
  case (Cons fi fis)
  obtain name isDir where fi: "fi = (name, isDir)" by fastforce
  have "healthy (snd (os_RemoveAll (filepath_Join dir name) w))"
    using Cons.prems by (simp add: os_RemoveAll_def fs_simps)
  then obtain w1 where "cleanup_loop dir dbdir fis (snd (os_RemoveAll (filepath_Join dir name) w)) = (None, w1)"
    using Cons.IH by blast
  moreover obtain w2 where "cleanup_loop dir dbdir fis w = (None, w2)"
    using Cons by blast
  ultimately show ?case
    using Cons.prems by (simp add: fi Let_def os_RemoveAll_def fs_simps)
qed simp

lemma cleanup_loop_None:
  "cleanup_loop dir dbdir fis w = (r, w') \<Longrightarrow> map_of (w_nodes w) k = None \<Longrightarrow> map_of (w_nodes w') k = None"
proof (induction dir dbdir fis w rule: cleanup_loop.induct)
  case (2 dir dbdir name isDir fis w)
  obtain x w1 where x: "os_RemoveAll (filepath_Join dir name) w = (x, w1)" by fastforce
  have "map_of (w_nodes w1) k = None"
    using os_RemoveAll_nodes [OF x] 2(5) by (auto simp: map_of_remove_tree)
  with 2 x show ?case by (auto simp: Let_def split: if_splits sum.splits)
qed simp

lemma cleanupNodeDataDir_healthy:
  assumes h: "healthy w" and d: "is_dir (w_nodes w) (w_key w dir)"
    and r: "recorded_dir (w_nodes w) (w_key w dir) = Some dbdir"
  shows "\<exists>w'. cleanupNodeDataDir dir w = (None, w') \<and>
    map_of (w_nodes w') (w_key w dir @ [updatingDBFilename]) = None"
proof -
  let ?b = "w_key w dir"
  obtain w1 where r1: "os_RemoveAll (filepath_Join dir updatingDBFilename) w = (Inr (), w1)"
    and w1: "w1 = set_nodes (remove_tree (?b @ [updatingDBFilename]) (w_nodes w)) (tick w)"
    using h by (simp add: os_RemoveAll_def fs_simps)
  have "recorded_dir (w_nodes w1) (w_key w1 dir) = Some dbdir"
    using r by (simp add: w1 recorded_dir_def map_of_remove_tree updating_not_running)
  then obtain w2 where r2: "getCurrentDBDirName dir w1 = (Inr dbdir, w2)" and q: "quiet w1 w2"
    using getCurrentDBDirName_healthy [of w1 dir dbdir] h w1 by auto
  have "is_dir (w_nodes w2) (w_key w2 dir)"
    using d q quiet_key [OF q, of dir]
    by (auto simp: quiet_def w1 is_dir_def map_of_remove_tree)
  moreover have "healthy w2" using quiet_healthy [OF q] h w1 by simp
  ultimately obtain fis where "os_ReadDir dir w2 = (Inr fis, tick w2)"
    by (simp add: os_ReadDir_def fs_simps)
  moreover obtain w' where l: "cleanup_loop dir dbdir fis (tick w2) = (None, w')"
    using cleanup_loop_healthy [of "tick w2" dir dbdir fis] \<open>healthy w2\<close> by auto
  moreover have "map_of (w_nodes (tick w2)) (?b @ [updatingDBFilename]) = None"
    using q by (simp add: quiet_def w1 map_of_remove_tree)
  ultimately show ?thesis
    using r1 r2 cleanup_loop_None [OF l] by (simp add: cleanupNodeDataDir_def)
qed

subsection \<open>Restarting\<close>

text \<open>
  A restart on a base directory that records one of its own directories finds that directory
  with everything in it, and every other directory gone.
\<close>

lemma getPebbleDBDir_restart:
  assumes h: "healthy w" and wf: "wf_nodes (w_nodes w)"
    and d: "is_dir (w_nodes w) (w_key w dir)"
    and rec: "recorded_dir (w_nodes w) (w_key w dir) = Some (filepath_Join dir n)"
    and n: "plain_name n" "n \<noteq> updatingDBFilename"
    and nd: "is_dir (w_nodes w) (w_key w dir @ [n])"
  shows "\<exists>w'. getPebbleDBDir dir rn ct w = (Inr (filepath_Join dir n), w') \<and> same_env w w' \<and>
    map_of (w_nodes w') (w_key w dir @ [updatingDBFilename]) = None \<and>
    (\<forall>k. \<not> below (w_key w dir @ [updatingDBFilename]) k \<longrightarrow> map_of (w_nodes w') k =
       (if \<exists>m. m \<noteq> n \<and> is_dir (w_nodes w) (w_key w dir @ [m]) \<and> below (w_key w dir @ [m]) k
        then None else map_of (w_nodes w) k))"
proof -
  let ?b = "w_key w dir" and ?s = "filepath_Join dir n"
  have "map_of (w_nodes w) (?b @ [currentDBFilename]) \<noteq> None"
    using rec by (auto simp: recorded_dir_def split: option.splits)
  then have new: "fst (isNewRun dir w) = False"
    using h by (auto simp: isNewRun_def os_Stat_def fs_simps split: node.splits)
  then obtain w1 where i: "isNewRun dir w = (False, w1)" by (metis prod.collapse)
  have q1: "quiet w w1" by (rule isNewRun_quiet [OF i])
  have k1: "w_key w1 dir = ?b" "w_nodes w1 = w_nodes w" "healthy w1"
    using quiet_key [OF q1] quiet_healthy [OF q1 h] q1 by (auto simp: quiet_def)
  obtain w2 where c: "cleanupNodeDataDir dir w1 = (None, w2)"
      and upd: "map_of (w_nodes w2) (?b @ [updatingDBFilename]) = None"
    using cleanupNodeDataDir_healthy [of w1 dir ?s] k1 d rec by auto
  have ok: "same_env w1 w2" "\<forall>k. \<not> below (?b @ [updatingDBFilename]) k \<longrightarrow> map_of (w_nodes w2) k =
      (if doomed dir ?s ?b (\<lambda>m. is_dir (w_nodes w) (?b @ [m])) k then None else map_of (w_nodes w) k)"
    using cleanupNodeDataDir_ok [OF c] k1 wf rec by auto
  have plain: "plain_name m" if "is_dir (w_nodes w) (?b @ [m])" for m
    using dir_entries_plain [OF wf] that dir_entries_dir by blast
  have doom: "doomed dir ?s ?b (\<lambda>m. is_dir (w_nodes w) (?b @ [m])) k
      \<longleftrightarrow> (\<exists>m. m \<noteq> n \<and> is_dir (w_nodes w) (?b @ [m]) \<and> below (?b @ [m]) k)" for k
    unfolding doomed_def using plain n(1) filepath_Join_inj by blast
  have k2: "w_key w2 dir = ?b" "healthy w2"
    using same_env_key [OF ok(1)] same_env_healthy [OF ok(1)] k1 by auto
  have notdir: "\<not> is_dir (w_nodes w) (?b @ [currentDBFilename])"
    using rec by (auto simp: recorded_dir_def is_dir_def split: option.splits node.splits)
  have run: "map_of (w_nodes w2) (?b @ [currentDBFilename]) = map_of (w_nodes w) (?b @ [currentDBFilename])"
    using ok(2) notdir by (auto simp: doom below_snoc)
  then have "recorded_dir (w_nodes w2) (w_key w2 dir) = Some ?s"
    using rec k2 by (simp add: recorded_dir_def)
  then obtain w3 where g: "getCurrentDBDirName dir w2 = (Inr ?s, w3)" and q3: "quiet w2 w3"
    using getCurrentDBDirName_healthy k2(2) by blast
  have "map_of (w_nodes w3) (?b @ [n]) = map_of (w_nodes w) (?b @ [n])"
    using ok(2) n(2) q3 by (auto simp: doom below_snoc quiet_def)
  then have "is_dir (w_nodes w3) (w_key w3 ?s)"
    using nd n(1) quiet_key [OF q3] k2(1) is_dir_cong [of "w_nodes w3" "?b @ [n]" "w_nodes w"] by simp
  then have "os_Stat ?s w3 = (Inr True, tick w3)"
    using quiet_healthy [OF q3 k2(2)]
    by (auto simp: os_Stat_def fs_simps is_dir_def split: option.splits node.splits)
  with i c g have "getPebbleDBDir dir rn ct w = (Inr ?s, tick w3)"
    by (simp add: getPebbleDBDir_def)
  moreover have "same_env w (tick w3)"
    using q1 ok(1) q3 by (meson quiet_same_env quiet_tick same_env_trans)
  moreover have "map_of (w_nodes w3) = map_of (w_nodes w2)" using q3 by (simp add: quiet_def)
  ultimately show ?thesis using ok(2) doom upd by simp
qed

subsection \<open>Well-formedness is kept\<close>

lemma syncDir_wf: "syncDir dir w = (r, w') \<Longrightarrow> wf_world w \<Longrightarrow> wf_world w'"
  by (rule wf_world_quiet [OF syncDir_quiet])

lemma getCurrentDBDirName_wf: "getCurrentDBDirName dir w = (r, w') \<Longrightarrow> wf_world w \<Longrightarrow> wf_world w'"
  by (rule wf_world_quiet [OF getCurrentDBDirName_quiet])

lemma os_quiet_wf:
  "os_Stat p w = (a, w1) \<Longrightarrow> wf_world w \<Longrightarrow> wf_world w1" "os_Sync w = (b, w1) \<Longrightarrow> wf_world w \<Longrightarrow> wf_world w1"
  "os_Close w = (b, w1) \<Longrightarrow> wf_world w \<Longrightarrow> wf_world w1" "os_ReadDir p w = (c, w1) \<Longrightarrow> wf_world w \<Longrightarrow> wf_world w1"
  by (blast dest: os_quietE intro: wf_world_quiet)+

lemma save_writes_wf: "save_writes fp dbdir w = (r, w') \<Longrightarrow> wf_world w \<Longrightarrow> wf_world w'"
  by (auto simp: save_writes_def split: prod.splits sum.splits dest!: os_wfE os_quiet_wf)

lemma saveCurrentDBDirName_wf: "saveCurrentDBDirName dir dbdir w = (r, w') \<Longrightarrow> wf_world w \<Longrightarrow> wf_world w'"
  unfolding saveCurrentDBDirName_def Let_def
  by (auto split: prod.splits sum.splits option.splits dest!: os_wfE os_quiet_wf save_writes_wf syncDir_wf)

lemma replaceCurrentDBFile_wf: "replaceCurrentDBFile dir w = (r, w') \<Longrightarrow> wf_world w \<Longrightarrow> wf_world w'"
  by (auto simp: replaceCurrentDBFile_def Let_def split: prod.splits sum.splits dest!: os_wfE syncDir_wf)

lemma cleanup_loop_wf: "cleanup_loop dir dbdir fis w = (r, w') \<Longrightarrow> wf_world w \<Longrightarrow> wf_world w'"
  by (induction dir dbdir fis w rule: cleanup_loop.induct)
     (auto simp: Let_def split: prod.splits sum.splits if_splits dest: os_wfE)

lemma cleanupNodeDataDir_wf: "cleanupNodeDataDir dir w = (r, w') \<Longrightarrow> wf_world w \<Longrightarrow> wf_world w'"
  unfolding cleanupNodeDataDir_def
  by (auto split: prod.splits sum.splits
      dest!: os_wfE os_quiet_wf getCurrentDBDirName_wf cleanup_loop_wf)

lemma isNewRun_wf: "isNewRun dir w = (r, w') \<Longrightarrow> wf_world w \<Longrightarrow> wf_world w'"
  by (rule wf_world_quiet [OF isNewRun_quiet])

lemma getPebbleDBDir_wf: "getPebbleDBDir dir rn ct w = (r, w') \<Longrightarrow> wf_world w \<Longrightarrow> wf_world w'"
  unfolding getPebbleDBDir_def Let_def
  by (auto split: prod.splits sum.splits option.splits if_splits
      dest!: os_quiet_wf isNewRun_wf saveCurrentDBDirName_wf replaceCurrentDBFile_wf
        cleanupNodeDataDir_wf getCurrentDBDirName_wf)

end
