(* ===== verification/Fsm_Store.thy ===== *)
theory Fsm_Store
  imports Fsm_Utils
begin

text \<open>
  The store of \<open>src/fsm/store.go\<close> (opening, reading, batches, closing) and the write batch of
  \<open>src/fsm/wb.go\<close>. The store is a record of its base directory, the handle of its current
  database (the resolved directory, the \<open>atomic.Pointer\<close> of the source) and the closed flag;
  what the database holds is in the world. Snapshots are in \<open>Fsm_Snapshot\<close>.
\<close>

record store =
  st_baseDir :: string
  st_db :: fskey
  st_closed :: bool

definition newStore ::
  "('db, 'b) pebble \<Rightarrow> string \<Rightarrow> u64 \<Rightarrow> int \<Rightarrow> 'db world \<Rightarrow> store result \<times> 'db world" where
  "newStore P baseDir rn ct w =
     (case os_MkdirAll baseDir w of
        (Inl e, w1) \<Rightarrow> (Inl e, w1)
      | (Inr _, w1) \<Rightarrow>
          (case getPebbleDBDir baseDir rn ct w1 of
             (Inl e, w2) \<Rightarrow> (Inl e, w2)
           | (Inr dbdir, w2) \<Rightarrow>
               (case db_open P dbdir w2 of
                  (Inl e, w3) \<Rightarrow> (Inl e, w3)
                | (Inr db, w3) \<Rightarrow>
                    (Inr \<lparr>st_baseDir = baseDir, st_db = db, st_closed = False\<rparr>, w3))))"

definition getColumnFamily :: "string \<Rightarrow> byte" where
  "getColumnFamily cf = (case map_of pebbleCfMap cf of Some b \<Rightarrow> b | None \<Rightarrow> 0)"

definition isclosed :: "store \<Rightarrow> bool" where
  "isclosed s = st_closed s"

definition getBytes ::
  "('db, 'b) pebble \<Rightarrow> store \<Rightarrow> bytes \<Rightarrow> 'db world \<Rightarrow> bytes \<times> go_err option" where
  "getBytes P s key w =
     (if st_closed s then ([], Some ErrClosed)
      else case db_load (st_db s) w of
        None \<Rightarrow> ([], Some db_panic)
      | Some db \<Rightarrow>
          (case pb_get P db key of
             Inl e \<Rightarrow> if e = ErrNotFound then ([], None) else ([], Some e)
           | Inr val \<Rightarrow> (case pb_closer P db key of Some e \<Rightarrow> ([], Some e) | None \<Rightarrow> (val, None))))"

definition buildColumnFamilyKey :: "byte \<Rightarrow> bytes \<Rightarrow> bytes" where
  "buildColumnFamilyKey cf key = [cf] @ key"

definition store_batch :: "('db, 'b) pebble \<Rightarrow> store \<Rightarrow> 'db world \<Rightarrow> 'b option" where
  "store_batch P s w = map_option (pb_batch P) (db_load (st_db s) w)"

definition store_write ::
  "('db, 'b) pebble \<Rightarrow> store \<Rightarrow> 'b \<Rightarrow> 'db world \<Rightarrow> go_err option \<times> 'db world" where
  "store_write P s b w =
     (case db_load (st_db s) w of
        None \<Rightarrow> (Some db_panic, w)
      | Some db \<Rightarrow> (case pb_commit P b db of (e, db') \<Rightarrow> (e, db_store (st_db s) db' w)))"

definition getSnapshot :: "store \<Rightarrow> 'db world \<Rightarrow> 'db option" where
  "getSnapshot s w = db_load (st_db s) w"

definition store_close :: "store \<Rightarrow> 'db world \<Rightarrow> go_err option \<times> store \<times> 'db world" where
  "store_close s w = (None, s\<lparr>st_closed := True\<rparr>, db_close (st_db s) w)"

subsection \<open>Write batches\<close>

record 'b wbatch =
  wb_wb :: 'b
  wb_db :: fskey

definition newPebbleWriteBatch :: "('db, 'b) pebble \<Rightarrow> fskey \<Rightarrow> 'db \<Rightarrow> 'b wbatch" where
  "newPebbleWriteBatch P h db = \<lparr>wb_wb = pb_batch P db, wb_db = h\<rparr>"

definition wb_Put ::
  "('db, 'b) pebble \<Rightarrow> bytes \<Rightarrow> bytes \<Rightarrow> 'b wbatch \<Rightarrow> go_err option \<times> 'b wbatch" where
  "wb_Put P k v x = (case pb_set P (wb_wb x) k v of (e, b) \<Rightarrow> (e, x\<lparr>wb_wb := b\<rparr>))"

definition wb_Delete ::
  "('db, 'b) pebble \<Rightarrow> bytes \<Rightarrow> 'b wbatch \<Rightarrow> go_err option \<times> 'b wbatch" where
  "wb_Delete P k x = (case pb_delete P (wb_wb x) k of (e, b) \<Rightarrow> (e, x\<lparr>wb_wb := b\<rparr>))"

text \<open>\<open>Commit\<close> drops the error of the batch's commit and starts a new batch.\<close>

definition wb_Commit ::
  "('db, 'b) pebble \<Rightarrow> 'b wbatch \<Rightarrow> 'db world \<Rightarrow> 'b wbatch \<times> 'db world" where
  "wb_Commit P x w =
     (case db_load (wb_db x) w of
        None \<Rightarrow> (x, w)
      | Some db \<Rightarrow>
          (case pb_commit P (wb_wb x) db of (e, db') \<Rightarrow>
             (x\<lparr>wb_wb := pb_batch P db'\<rparr>, db_store (wb_db x) db' w)))"

subsection \<open>Contents and well-formedness\<close>

text \<open>
  The map a store presents: the keys of the default column family, without its prefix byte.
\<close>

definition store_ok :: "store \<Rightarrow> 'db world \<Rightarrow> bool" where
  "store_ok s w = (\<not> st_closed s \<longrightarrow> db_load (st_db s) w \<noteq> None)"

definition kv_of :: "('db \<Rightarrow> kvmap) \<Rightarrow> store \<Rightarrow> 'db world \<Rightarrow> kvmap" where
  "kv_of view s w =
     (\<lambda>k. case db_load (st_db s) w of
            None \<Rightarrow> None
          | Some db \<Rightarrow> view db (buildColumnFamilyKey (getColumnFamily cf_default) k))"

lemma getColumnFamily_default [simp]: "getColumnFamily cf_default = 1"
  by (simp add: getColumnFamily_def pebbleCfMap_def)

lemma buildColumnFamilyKey_inj [simp]:
  "buildColumnFamilyKey c k = buildColumnFamilyKey c' k' \<longleftrightarrow> c = c' \<and> k = k'"
  by (simp add: buildColumnFamilyKey_def)

lemma db_load_store [simp]:
  "k \<in> set (w_open w) \<Longrightarrow> db_load h (db_store k db w) = (if h = k then Some db else db_load h w)"
  by (simp add: db_load_def dir_db_def)

lemma db_load_open: "db_load k w = Some db \<Longrightarrow> k \<in> set (w_open w)"
  by (simp add: db_load_def split: if_splits)

lemma db_load_quiet: "quiet w w' \<Longrightarrow> db_load k w' = db_load k w"
  by (simp add: quiet_def same_env_def db_load_def)

end
