(* ===== verification/Go_Crc32.thy ===== *)
theory Go_Crc32
  imports Prelude
begin

text \<open>
  The IEEE CRC-32 of Go's \<open>hash/crc32\<close> as the streaming hasher the snapshot code uses:
  \<open>crc32.NewIEEE()\<close> is \<open>crc_new\<close>, \<open>hasher.Write(p)\<close> is \<open>crc_write\<close> and
  \<open>hasher.Sum32()\<close> is the state itself. The lemmas show that a stream may be written in
  any pieces and that a change of a single byte always changes the sum.
\<close>

definition crc_poly :: u32 where "crc_poly = 0xEDB88320"

definition crc_bit :: "u32 \<Rightarrow> u32" where
  "crc_bit c = (if bit c 0 then drop_bit 1 c XOR crc_poly else drop_bit 1 c)"

definition crc_byte :: "byte \<Rightarrow> u32 \<Rightarrow> u32" where
  "crc_byte b c =
     crc_bit (crc_bit (crc_bit (crc_bit (crc_bit (crc_bit (crc_bit (crc_bit (c XOR ucast b))))))))"

definition crc_new :: u32 where "crc_new = 0"

definition crc_write :: "u32 \<Rightarrow> bytes \<Rightarrow> u32" where
  "crc_write c p = NOT (fold crc_byte p (NOT c))"

lemma crc_write_Nil [simp]: "crc_write c [] = c"
  by (simp add: crc_write_def)

lemma crc_write_append [simp]: "crc_write c (xs @ ys) = crc_write (crc_write c xs) ys"
  by (simp add: crc_write_def)

subsection \<open>Error detection\<close>

lemma crc_poly_top: "bit crc_poly 31"
  by (simp add: crc_poly_def bit_numeral_rec)

lemma crc_bit_top: "bit (crc_bit c) 31 \<longleftrightarrow> bit c 0"
proof -
  have "\<not> bit c 32" using bit_imp_le_length [of c 32] by auto
  with crc_poly_top show ?thesis by (auto simp: crc_bit_def bit_simps)
qed

lemma xor_cancel_right [simp]: "(a::u32) XOR c = b XOR c \<longleftrightarrow> a = b"
proof
  assume "a XOR c = b XOR c"
  then have "(a XOR c) XOR c = (b XOR c) XOR c" by simp
  then show "a = b" by (simp add: xor.assoc)
qed simp

lemma inj_crc_bit: "inj crc_bit"
proof (rule injI)
  fix a b assume eq: "crc_bit a = crc_bit b"
  then have low: "bit a 0 \<longleftrightarrow> bit b 0" by (metis crc_bit_top)
  with eq have high: "drop_bit 1 a = drop_bit 1 b"
    by (auto simp: crc_bit_def split: if_splits)
  show "a = b"
  proof (rule bit_word_eqI)
    fix n assume "n < LENGTH(32)"
    show "bit a n \<longleftrightarrow> bit b n"
    proof (cases n)
      case 0
      with low show ?thesis by simp
    next
      case (Suc m)
      from high have "bit (drop_bit 1 a) m \<longleftrightarrow> bit (drop_bit 1 b) m" by simp
      then show ?thesis by (simp add: Suc bit_drop_bit_eq)
    qed
  qed
qed

lemma crc_bit_eq_iff [simp]: "crc_bit a = crc_bit b \<longleftrightarrow> a = b"
  using inj_crc_bit by (auto dest: injD)

lemma crc_byte_state_eq_iff [simp]: "crc_byte x a = crc_byte x b \<longleftrightarrow> a = b"
  by (simp add: crc_byte_def xor_cancel_right)

lemma ucast_back: "(ucast (ucast x :: u32) :: byte) = x"
  by (rule bit_word_eqI) (auto simp: bit_simps dest: bit_imp_le_length)

lemma crc_byte_data_eq_iff [simp]: "crc_byte x c = crc_byte y c \<longleftrightarrow> x = y"
proof -
  have "crc_byte x c = crc_byte y c \<longleftrightarrow> (ucast x :: u32) = ucast y"
    by (simp add: crc_byte_def xor.commute [of c] xor_cancel_right)
  also have "\<dots> \<longleftrightarrow> x = y"
    by (metis ucast_back)
  finally show ?thesis .
qed

lemma crc_fold_eq_iff: "fold crc_byte p a = fold crc_byte p b \<longleftrightarrow> a = b"
  by (induction p arbitrary: a b) simp_all

lemma not_word_eq_iff: "NOT u = NOT v \<longleftrightarrow> u = v" for u v :: u32
proof
  assume "NOT u = NOT v"
  then have "NOT (NOT u) = NOT (NOT v)" by simp
  then show "u = v" by simp
qed simp

lemma crc_write_state_eq_iff [simp]: "crc_write a p = crc_write b p \<longleftrightarrow> a = b"
  by (simp add: crc_write_def crc_fold_eq_iff not_word_eq_iff)

lemma crc_write_single_byte:
  "crc_write c (xs @ x # ys) = crc_write c (xs @ y # ys) \<longleftrightarrow> x = y"
  by (simp add: crc_write_def crc_fold_eq_iff not_word_eq_iff)

end
