(* ===== verification/Go_Gzip.thy ===== *)
theory Go_Gzip
  imports Go_Binary Go_Crc32
begin

text \<open>
  \<open>compress/gzip\<close> and the two helpers of \<open>src/fsm/utils.go\<close> that use it. Reading is a model of
  the package: the member header with its optional fields, DEFLATE with stored, fixed and dynamic
  blocks (RFC 1951, with the completeness check of Go's decoder), the CRC32 and size trailer, and
  several members in a row. How the writer splits its input into blocks and codes is not part of
  its documented behaviour, so the writer is a parameter; \<open>gzip_writer\<close> states that what it emits
  is read back. The interpretation is a writer that emits stored blocks, flushes with an empty
  block, and closes with a final one and the trailer.
\<close>

subsection \<open>Bits and Huffman codes\<close>

definition gz_corrupt :: go_err where "gz_corrupt = ErrNew ''flate: corrupt input''"
definition gz_ErrHeader :: go_err where "gz_ErrHeader = ErrNew ''gzip: invalid header''"
definition gz_ErrChecksum :: go_err where "gz_ErrChecksum = ErrNew ''gzip: invalid checksum''"

definition byte_bits :: "byte \<Rightarrow> bool list" where
  "byte_bits b = map (bit b) [0..<8]"

definition bits_of :: "bytes \<Rightarrow> bool list" where
  "bits_of bs = concat (map byte_bits bs)"

fun bits_nat :: "bool list \<Rightarrow> nat" where
  "bits_nat [] = 0"
| "bits_nat (b # bs) = of_bool b + 2 * bits_nat bs"

fun bits_bytes :: "bool list \<Rightarrow> bytes" where
  "bits_bytes (b0 # b1 # b2 # b3 # b4 # b5 # b6 # b7 # bs) =
     word_of_nat (bits_nat [b0, b1, b2, b3, b4, b5, b6, b7]) # bits_bytes bs"
| "bits_bytes bs = []"

definition get_bits :: "nat \<Rightarrow> bool list \<Rightarrow> (nat \<times> bool list) result" where
  "get_bits n bs = (if n \<le> length bs then Inr (bits_nat (take n bs), drop n bs) else Inl ErrUnexpectedEOF)"

definition max_len :: "nat list \<Rightarrow> nat" where
  "max_len ls = foldr max ls 0"

definition len_count :: "nat list \<Rightarrow> nat \<Rightarrow> nat" where
  "len_count ls n = length (filter (\<lambda>l. l = n) ls)"

text \<open>A code is accepted when it is empty, complete, or one symbol of one bit.\<close>

definition huff_ok :: "nat list \<Rightarrow> bool" where
  "huff_ok ls =
     (let code = foldl (\<lambda>code i. 2 * code + len_count ls i) 0 [1..<Suc (max_len ls)]
      in max_len ls = 0 \<or> code = 2 ^ max_len ls \<or> (code = 1 \<and> max_len ls = 1))"

fun huff_walk :: "nat list \<Rightarrow> nat \<Rightarrow> nat \<Rightarrow> nat \<Rightarrow> bool list \<Rightarrow> (nat \<times> bool list) result" where
  "huff_walk ls len code first [] = Inl ErrUnexpectedEOF"
| "huff_walk ls len code first (b # bs) =
     (let code' = code + of_bool b;
          syms = filter (\<lambda>i. ls ! i = len) [0..<length ls]
      in if code' < first + length syms then Inr (syms ! (code' - first), bs)
         else if max_len ls \<le> len then Inl gz_corrupt
         else huff_walk ls (Suc len) (2 * code') (2 * (first + length syms)) bs)"

definition huff_sym :: "nat list \<Rightarrow> bool list \<Rightarrow> (nat \<times> bool list) result" where
  "huff_sym ls bs = (if max_len ls = 0 then Inl gz_corrupt else huff_walk ls 1 0 0 bs)"

lemma huff_walk_shorter: "huff_walk ls len code first bs = Inr (s, r) \<Longrightarrow> length r < length bs"
proof (induction ls len code first bs rule: huff_walk.induct)
  case (2 ls len code first b bs)
  then show ?case by (auto simp: Let_def less_Suc_eq split: if_splits)
qed simp

lemma huff_sym_shorter: "huff_sym ls bs = Inr (s, r) \<Longrightarrow> length r < length bs"
  by (auto simp: huff_sym_def dest: huff_walk_shorter split: if_splits)

lemma get_bits_length: "get_bits n bs = Inr (v, r) \<Longrightarrow> length r \<le> length bs"
  by (auto simp: get_bits_def split: if_splits)

subsection \<open>Compressed blocks\<close>

definition length_base :: "nat \<Rightarrow> (nat \<times> nat) option" where
  "length_base v =
     (if v < 265 then Some (v - 254, 0)
      else if v < 269 then Some (v * 2 - 519, 1)
      else if v < 273 then Some (v * 4 - 1057, 2)
      else if v < 277 then Some (v * 8 - 2149, 3)
      else if v < 281 then Some (v * 16 - 4365, 4)
      else if v < 285 then Some (v * 32 - 8861, 5)
      else if v < 286 then Some (258, 0)
      else None)"

definition dist_base :: "nat \<Rightarrow> (nat \<times> nat) option" where
  "dist_base d =
     (if d < 4 then Some (d + 1, 0)
      else if d < 30 then (let nb = (d - 2) div 2 in Some (2 ^ (nb + 1) + 1 + (d mod 2) * 2 ^ nb, nb))
      else None)"

fun copy_match :: "nat \<Rightarrow> nat \<Rightarrow> bytes \<Rightarrow> bytes" where
  "copy_match 0 d out = out"
| "copy_match (Suc n) d out = copy_match n d (out @ [out ! (length out - d)])"

definition read_match :: "nat list \<Rightarrow> nat \<Rightarrow> bytes \<Rightarrow> bool list \<Rightarrow> (bytes \<times> bool list) result" where
  "read_match dists v out bs =
     (case length_base v of
        None \<Rightarrow> Inl gz_corrupt
      | Some (len, n) \<Rightarrow>
          (case get_bits n bs of
             Inl e \<Rightarrow> Inl e
           | Inr (x, bs1) \<Rightarrow>
               (case huff_sym dists bs1 of
                  Inl e \<Rightarrow> Inl e
                | Inr (d, bs2) \<Rightarrow>
                    (case dist_base d of
                       None \<Rightarrow> Inl gz_corrupt
                     | Some (dist, nb) \<Rightarrow>
                         (case get_bits nb bs2 of
                            Inl e \<Rightarrow> Inl e
                          | Inr (y, bs3) \<Rightarrow>
                              if length out < dist + y \<or> 32768 < dist + y then Inl gz_corrupt
                              else Inr (copy_match (len + x) (dist + y) out, bs3))))))"

lemma read_match_shorter: "read_match dists v out bs = Inr (out', r) \<Longrightarrow> length r \<le> length bs"
  unfolding read_match_def
  by (auto split: option.splits sum.splits if_splits dest!: get_bits_length huff_sym_shorter)

function huff_block :: "nat list \<Rightarrow> nat list \<Rightarrow> bytes \<Rightarrow> bool list \<Rightarrow> (bytes \<times> bool list) result" where
  "huff_block lits dists out bs =
     (case huff_sym lits bs of
        Inl e \<Rightarrow> Inl e
      | Inr (v, bs1) \<Rightarrow>
          if v < 256 then huff_block lits dists (out @ [word_of_nat v]) bs1
          else if v = 256 then Inr (out, bs1)
          else (case read_match dists v out bs1 of
                  Inl e \<Rightarrow> Inl e
                | Inr (out', bs2) \<Rightarrow> huff_block lits dists out' bs2))"
  by pat_completeness auto

termination
  by (relation "measure (\<lambda>(lits, dists, out, bs). length bs)")
     (auto dest!: huff_sym_shorter read_match_shorter)

definition fixed_lits :: "nat list" where
  "fixed_lits = replicate 144 8 @ replicate 112 9 @ replicate 24 7 @ replicate 8 8"

definition fixed_dists :: "nat list" where
  "fixed_dists = replicate 32 5"

text \<open>The header of a dynamic block: the code of code lengths, then the two codes, run-length coded.\<close>

definition code_order :: "nat list" where
  "code_order = [16, 17, 18, 0, 8, 7, 9, 6, 10, 5, 11, 4, 12, 3, 13, 2, 14, 1, 15]"

fun read_clens :: "nat list \<Rightarrow> nat list \<Rightarrow> bool list \<Rightarrow> (nat list \<times> bool list) result" where
  "read_clens [] ls bs = Inr (ls, bs)"
| "read_clens (i # is) ls bs =
     (case get_bits 3 bs of Inl e \<Rightarrow> Inl e | Inr (x, bs1) \<Rightarrow> read_clens is (ls[i := x]) bs1)"

definition clen_rep :: "nat \<Rightarrow> nat list \<Rightarrow> (nat \<times> nat \<times> nat) option" where
  "clen_rep x ls =
     (if x = 16 then (if ls = [] then None else Some (3, 2, last ls))
      else if x = 17 then Some (3, 3, 0)
      else if x = 18 then Some (11, 7, 0)
      else None)"

function read_lens :: "nat list \<Rightarrow> nat \<Rightarrow> nat list \<Rightarrow> bool list \<Rightarrow> (nat list \<times> bool list) result" where
  "read_lens cls n ls bs =
     (if n \<le> length ls then Inr (ls, bs)
      else case huff_sym cls bs of
        Inl e \<Rightarrow> Inl e
      | Inr (x, bs1) \<Rightarrow>
          if x < 16 then read_lens cls n (ls @ [x]) bs1
          else (case clen_rep x ls of
                  None \<Rightarrow> Inl gz_corrupt
                | Some (rep, nb, v) \<Rightarrow>
                    (case get_bits nb bs1 of
                       Inl e \<Rightarrow> Inl e
                     | Inr (y, bs2) \<Rightarrow>
                         if n < length ls + rep + y then Inl gz_corrupt
                         else read_lens cls n (ls @ replicate (rep + y) v) bs2)))"
  by pat_completeness auto

termination
  by (relation "measure (\<lambda>(cls, n, ls, bs). length bs)")
     (auto dest!: huff_sym_shorter get_bits_length)

definition read_dynamic :: "bool list \<Rightarrow> (nat list \<times> nat list \<times> bool list) result" where
  "read_dynamic bs =
     (case get_bits 5 bs of
        Inl e \<Rightarrow> Inl e
      | Inr (l, bs1) \<Rightarrow>
          if 286 < 257 + l then Inl gz_corrupt
          else case get_bits 5 bs1 of
            Inl e \<Rightarrow> Inl e
          | Inr (d, bs2) \<Rightarrow>
              if 30 < 1 + d then Inl gz_corrupt
              else case get_bits 4 bs2 of
                Inl e \<Rightarrow> Inl e
              | Inr (c, bs3) \<Rightarrow>
                  (case read_clens (take (4 + c) code_order) (replicate 19 0) bs3 of
                     Inl e \<Rightarrow> Inl e
                   | Inr (cls, bs4) \<Rightarrow>
                       if \<not> huff_ok cls then Inl gz_corrupt
                       else (case read_lens cls (258 + l + d) [] bs4 of
                               Inl e \<Rightarrow> Inl e
                             | Inr (ls, bs5) \<Rightarrow>
                                 let lits = take (257 + l) ls; dists = drop (257 + l) ls
                                 in if huff_ok lits \<and> huff_ok dists then Inr (lits, dists, bs5)
                                    else Inl gz_corrupt)))"

subsection \<open>Streams of blocks\<close>

text \<open>The bits left in the current byte are skipped before a stored block and after the last block.\<close>

definition align :: "bool list \<Rightarrow> bool list" where
  "align bs = drop (length bs mod 8) bs"

definition stored_block :: "bytes \<Rightarrow> bool list \<Rightarrow> (bytes \<times> bool list) result" where
  "stored_block out bs =
     (case get_bits 16 (align bs) of
        Inl e \<Rightarrow> Inl e
      | Inr (n, bs1) \<Rightarrow>
          (case get_bits 16 bs1 of
             Inl e \<Rightarrow> Inl e
           | Inr (nn, bs2) \<Rightarrow>
               if n + nn \<noteq> 65535 then Inl gz_corrupt
               else if 8 * n \<le> length bs2
                 then Inr (out @ bits_bytes (take (8 * n) bs2), drop (8 * n) bs2)
               else Inl ErrUnexpectedEOF))"

definition read_block :: "bytes \<Rightarrow> bool list \<Rightarrow> (bool \<times> bytes \<times> bool list) result" where
  "read_block out bs =
     (case get_bits 1 bs of
        Inl e \<Rightarrow> Inl e
      | Inr (final, bs1) \<Rightarrow>
          (case get_bits 2 bs1 of
             Inl e \<Rightarrow> Inl e
           | Inr (typ, bs2) \<Rightarrow>
               map_sum id (Pair (final = 1))
                 (if typ = 0 then stored_block out bs2
                  else if typ = 1 then huff_block fixed_lits fixed_dists out bs2
                  else if typ = 2 then
                    (case read_dynamic bs2 of
                       Inl e \<Rightarrow> Inl e
                     | Inr (lits, dists, bs3) \<Rightarrow> huff_block lits dists out bs3)
                  else Inl gz_corrupt)))"

text \<open>Every block takes at least its three header bits, so the bits are enough fuel.\<close>

fun inflate :: "nat \<Rightarrow> bytes \<Rightarrow> bool list \<Rightarrow> (bytes \<times> bytes) result" where
  "inflate 0 out bs = Inl ErrUnexpectedEOF"
| "inflate (Suc n) out bs =
     (case read_block out bs of
        Inl e \<Rightarrow> Inl e
      | Inr (final, out', bs') \<Rightarrow>
          if final then Inr (out', bits_bytes (align bs')) else inflate n out' bs')"

subsection \<open>Members\<close>

fun header_string :: "nat \<Rightarrow> bytes \<Rightarrow> (bytes \<times> bytes) result" where
  "header_string 0 bs = Inl gz_ErrHeader"
| "header_string (Suc n) [] = Inl ErrUnexpectedEOF"
| "header_string (Suc n) (b # bs) =
     (if b = 0 then Inr ([b], bs)
      else case header_string n bs of Inl e \<Rightarrow> Inl e | Inr (s, r) \<Rightarrow> Inr (b # s, r))"

text \<open>An optional field: the bytes it takes and what follows it.\<close>

definition opt_string :: "bool \<Rightarrow> bytes \<Rightarrow> (bytes \<times> bytes) result" where
  "opt_string p bs = (if p then header_string 512 bs else Inr ([], bs))"

definition opt_extra :: "bool \<Rightarrow> bytes \<Rightarrow> (bytes \<times> bytes) result" where
  "opt_extra p bs =
     (if \<not> p then Inr ([], bs)
      else if length bs < 2 then Inl ErrUnexpectedEOF
      else let n = unat (getUint16 bs)
           in if length bs < 2 + n then Inl ErrUnexpectedEOF
              else Inr (take (2 + n) bs, drop (2 + n) bs))"

definition gz_readHeader :: "bytes \<Rightarrow> bytes result" where
  "gz_readHeader bs =
     (if bs = [] then Inl ErrEOF
      else if length bs < 10 then Inl ErrUnexpectedEOF
      else if take 3 bs \<noteq> [0x1f, 0x8b, 8] then Inl gz_ErrHeader
      else let flg = bs ! 3 in
        case opt_extra (bit flg 2) (drop 10 bs) of
          Inl e \<Rightarrow> Inl e
        | Inr (x, bs1) \<Rightarrow>
            (case opt_string (bit flg 3) bs1 of
               Inl e \<Rightarrow> Inl e
             | Inr (nm, bs2) \<Rightarrow>
                 (case opt_string (bit flg 4) bs2 of
                    Inl e \<Rightarrow> Inl e
                  | Inr (cm, bs3) \<Rightarrow>
                      if \<not> bit flg 1 then Inr bs3
                      else if length bs3 < 2 then Inl ErrUnexpectedEOF
                      else if getUint16 bs3 = ucast (crc_write crc_new (take 10 bs @ x @ nm @ cm))
                        then Inr (drop 2 bs3)
                      else Inl gz_ErrHeader)))"

definition gz_member :: "bytes \<Rightarrow> (bytes \<times> bytes) result" where
  "gz_member bs =
     (case inflate (Suc (8 * length bs)) [] (bits_of bs) of
        Inl e \<Rightarrow> Inl e
      | Inr (out, tr) \<Rightarrow>
          if length tr < 8 then Inl ErrUnexpectedEOF
          else if getUint32 tr = crc_write crc_new out \<and> getUint32 (drop 4 tr) = word_of_nat (length out)
            then Inr (out, drop 8 tr)
          else Inl gz_ErrChecksum)"

text \<open>
  \<open>ReadAll\<close> on a reader whose first header was read: a member, and after it either the end of
  the input or the header of another one.
\<close>

fun gz_members :: "nat \<Rightarrow> bytes \<Rightarrow> bytes result" where
  "gz_members 0 bs = Inl ErrUnexpectedEOF"
| "gz_members (Suc n) bs =
     (case gz_member bs of
        Inl e \<Rightarrow> Inl e
      | Inr (out, rest) \<Rightarrow>
          (case gz_readHeader rest of
             Inl e \<Rightarrow> if e = ErrEOF then Inr out else Inl e
           | Inr bs' \<Rightarrow> (case gz_members n bs' of Inl e \<Rightarrow> Inl e | Inr out' \<Rightarrow> Inr (out @ out'))))"

definition gz_NewReader :: "bytes \<Rightarrow> bytes result" where
  "gz_NewReader = gz_readHeader"

definition gz_ReadAll :: "bytes \<Rightarrow> bytes result" where
  "gz_ReadAll bs = gz_members (Suc (length bs)) bs"

definition gzipDecode :: "bytes \<Rightarrow> bytes result" where
  "gzipDecode gzipMsg =
     (case gz_NewReader gzipMsg of
        Inl e \<Rightarrow> Inl e
      | Inr rd \<Rightarrow> gz_ReadAll rd)"

subsection \<open>The writer\<close>

record 'gw gzip_ops =
  gw_NewWriter :: 'gw
  gw_Write :: "bytes \<Rightarrow> 'gw \<Rightarrow> go_err option \<times> 'gw"
  gw_Flush :: "'gw \<Rightarrow> go_err option \<times> 'gw"
  gw_Close :: "'gw \<Rightarrow> go_err option \<times> 'gw"
  gw_Bytes :: "'gw \<Rightarrow> bytes"

definition gzipEncode :: "'gw gzip_ops \<Rightarrow> bytes \<Rightarrow> bytes result" where
  "gzipEncode Z content =
     (case gw_Write Z content (gw_NewWriter Z) of
        (Some e, _) \<Rightarrow> Inl e
      | (None, a) \<Rightarrow>
          (case gw_Flush Z a of
             (Some e, _) \<Rightarrow> Inl e
           | (None, b) \<Rightarrow>
               (case gw_Close Z b of
                  (Some e, _) \<Rightarrow> Inl e
                | (None, c) \<Rightarrow> Inr (gw_Bytes Z c))))"

locale gzip_codec =
  fixes Z :: "'gw gzip_ops"
  assumes writes: "\<exists>a b c. gw_Write Z v (gw_NewWriter Z) = (None, a) \<and> gw_Flush Z a = (None, b) \<and>
      gw_Close Z b = (None, c) \<and> gzipDecode (gw_Bytes Z c) = Inr v"
begin

lemma gzip_roundtrip: "\<exists>z. gzipEncode Z v = Inr z \<and> gzipDecode z = Inr v \<and> z \<noteq> []"
proof -
  have "gzipDecode [] = Inl ErrEOF" by (simp add: gzipDecode_def gz_NewReader_def gz_readHeader_def)
  with writes [of v] show ?thesis by (force simp: gzipEncode_def)
qed

end

text \<open>The writer that stores: blocks of at most 65535 bytes.\<close>

definition stored_bytes :: "byte \<Rightarrow> bytes \<Rightarrow> bytes" where
  "stored_bytes final d =
     [final] @ putUint16 (word_of_nat (length d)) @ putUint16 (word_of_nat (65535 - length d)) @ d"

fun stored_chunks :: "nat \<Rightarrow> bytes \<Rightarrow> bytes" where
  "stored_chunks 0 d = []"
| "stored_chunks (Suc n) d = (if d = [] then [] else stored_bytes 0 (take 65535 d) @ stored_chunks n (drop 65535 d))"

definition gz_header :: bytes where
  "gz_header = [0x1f, 0x8b, 8, 0, 0, 0, 0, 0, 0, 255]"

definition stored_gzip :: "(bytes \<times> bytes) gzip_ops" where
  "stored_gzip = \<lparr>
     gw_NewWriter = (gz_header, []),
     gw_Write = (\<lambda>d (out, c). (None, (out @ stored_chunks (length d) d, c @ d))),
     gw_Flush = (\<lambda>(out, c). (None, (out @ stored_bytes 0 [], c))),
     gw_Close = (\<lambda>(out, c). (None, (out @ stored_bytes 1 [] @ putUint32 (crc_write crc_new c) @
                                putUint32 (word_of_nat (length c)), c))),
     gw_Bytes = fst\<rparr>"

lemma length_byte_bits [simp]: "length (byte_bits b) = 8"
  by (simp add: byte_bits_def)

lemma bits_of_simps [simp]:
  "bits_of [] = []" "bits_of (b # bs) = byte_bits b @ bits_of bs" "bits_of (xs @ ys) = bits_of xs @ bits_of ys"
  by (simp_all add: bits_of_def)

lemma length_bits_of [simp]: "length (bits_of bs) = 8 * length bs"
  by (induction bs) simp_all

lemma bits_nat_horner: "bits_nat bs = horner_sum of_bool 2 bs"
  by (induction bs) simp_all

lemma bits_nat_append: "bits_nat (xs @ ys) = bits_nat xs + 2 ^ length xs * bits_nat ys"
  by (induction xs) simp_all

lemma bits_nat_byte [simp]: "bits_nat (byte_bits b) = unat b"
proof -
  have "byte_bits b = map (bit (unat b)) [0..<8]"
    unfolding byte_bits_def by (rule map_cong) (auto simp: bit_unsigned_iff)
  then have "bits_nat (byte_bits b) = take_bit 8 (unat b)"
    by (simp only: bits_nat_horner horner_sum_bit_eq_take_bit)
  also have "\<dots> = unat b" using unsigned_less [of b, where 'a = nat] by (simp add: take_bit_nat_eq_self)
  finally show ?thesis .
qed

lemma byte_bits_cases: "\<exists>b0 b1 b2 b3 b4 b5 b6 b7. byte_bits b = [b0, b1, b2, b3, b4, b5, b6, b7]"
  by (simp add: byte_bits_def upt_rec)

lemma bits_bytes_of [simp]: "bits_bytes (bits_of bs) = bs"
proof (induction bs)
  case (Cons b bs)
  obtain b0 b1 b2 b3 b4 b5 b6 b7 where b: "byte_bits b = [b0, b1, b2, b3, b4, b5, b6, b7]"
    using byte_bits_cases by blast
  have "word_of_nat (bits_nat [b0, b1, b2, b3, b4, b5, b6, b7]) = b"
    unfolding b [symmetric] by simp
  then show ?case using Cons by (simp add: b del: bits_nat.simps)
qed simp

lemma get_bits_append: "length xs = n \<Longrightarrow> get_bits n (xs @ ys) = Inr (bits_nat xs, ys)"
  by (simp add: get_bits_def)

lemma align_skip: "length pre < 8 \<Longrightarrow> align (pre @ bits_of bs) = bits_of bs"
  by (simp add: align_def)

lemma unat_ucast_byte: "unat (ucast w :: byte) = unat w mod 256"
  by (simp add: unsigned_ucast_eq take_bit_eq_mod)

lemma bits_nat_putUint16 [simp]: "bits_nat (bits_of (putUint16 x)) = unat x"
proof -
  have "putUint16 x = [ucast x, ucast (drop_bit 8 x)]"
    by (simp add: putUint16_def le_bytes_def upt_rec)
  moreover have "unat (drop_bit 8 x) = unat x div 256"
    by (simp add: drop_bit_eq_div unat_div)
  moreover have "unat x < 65536" using unsigned_less [of x, where 'a = nat] by simp
  ultimately show ?thesis
    by (simp add: bits_nat_append unat_ucast_byte)
qed

lemma read_stored:
  assumes "f = 0 \<or> f = 1" and "length d \<le> 65535"
  shows "read_block out (bits_of (stored_bytes f d @ rest)) = Inr (f = 1, out @ d, bits_of rest)"
proof -
  let ?n = "putUint16 (word_of_nat (length d))" and ?m = "putUint16 (word_of_nat (65535 - length d))"
  have f: "byte_bits f = [f = 1, False, False] @ replicate 5 False"
    using assms(1) by (auto simp: byte_bits_def upt_rec numeral_eq_Suc)
  have len: "unat (word_of_nat (length d) :: u16) = length d"
    "unat (word_of_nat (65535 - length d) :: u16) = 65535 - length d"
    using assms(2) by (simp_all add: unat_of_nat del: of_nat_diff)
  have "stored_block out (replicate 5 False @ bits_of (?n @ ?m @ d @ rest)) = Inr (out @ d, bits_of rest)"
    using assms(2) unfolding stored_block_def
    by (subst align_skip) (simp_all add: get_bits_append len del: of_nat_diff)
  then show ?thesis
    using assms(1) by (auto simp: read_block_def stored_bytes_def f get_bits_def)
qed

lemma inflate_stored_block:
  assumes "length d \<le> 65535"
  shows "inflate (Suc n) out (bits_of (stored_bytes 0 d @ rest)) = inflate n (out @ d) (bits_of rest)"
    and "inflate (Suc n) out (bits_of (stored_bytes 1 d @ rest)) = Inr (out @ d, rest)"
  using read_stored [of 0 d out rest] read_stored [of 1 d out rest] align_skip [of "[]" rest] assms
  by (simp_all del: bits_of_simps)

lemma inflate_stored_chunks:
  "length d \<le> n \<Longrightarrow> \<exists>k \<le> length (stored_chunks n d). \<forall>j out rest.
     inflate (k + j) out (bits_of (stored_chunks n d @ rest)) = inflate j (out @ d) (bits_of rest)"
proof (induction n arbitrary: d)
  case (Suc n)
  show ?case
  proof (cases "d = []")
    case False
    let ?d = "drop 65535 d"
    have "length ?d \<le> n" using Suc.prems False by (cases d) auto
    then obtain k where k: "k \<le> length (stored_chunks n ?d)" and
      step: "\<And>j out rest. inflate (k + j) out (bits_of (stored_chunks n ?d @ rest)) = inflate j (out @ ?d) (bits_of rest)"
      using Suc.IH by blast
    have "inflate (Suc k + j) out (bits_of (stored_chunks (Suc n) d @ rest)) = inflate j (out @ d) (bits_of rest)" for j out rest
      using inflate_stored_block(1) [of "take 65535 d" "k + j" out "stored_chunks n ?d @ rest"] step [of j "out @ take 65535 d"] False
      by (simp del: bits_of_simps inflate.simps)
    moreover have "Suc k \<le> length (stored_chunks (Suc n) d)"
      using k False by (simp add: stored_bytes_def)
    ultimately show ?thesis by blast
  qed (use exI [of _ 0] in simp)
qed (use exI [of _ 0] in simp)

lemma gz_member_stored:
  "gz_member (stored_chunks (length d) d @ stored_bytes 0 [] @ stored_bytes 1 [] @
     putUint32 (crc_write crc_new d) @ putUint32 (word_of_nat (length d))) = Inr (d, [])"
proof -
  let ?tr = "putUint32 (crc_write crc_new d) @ putUint32 (word_of_nat (length d))"
  let ?e = "stored_bytes 0 [] @ stored_bytes 1 [] @ ?tr"
  let ?bs = "stored_chunks (length d) d @ ?e"
  obtain k where k: "k \<le> length (stored_chunks (length d) d)" and
    step: "\<And>j out rest. inflate (k + j) out (bits_of (stored_chunks (length d) d @ rest)) = inflate j (out @ d) (bits_of rest)"
    using inflate_stored_chunks [of d "length d"] by blast
  obtain j where j: "Suc (8 * length ?bs) = k + Suc (Suc j)"
    using k by (intro that [of "Suc (8 * length ?bs) - k - 2"]) (simp add: stored_bytes_def)
  have "inflate (Suc (8 * length ?bs)) [] (bits_of ?bs) = Inr (d, ?tr)"
    unfolding j step using inflate_stored_block [of "[]"]
    by (simp del: bits_of_simps inflate.simps)
  then show ?thesis
    by (simp add: gz_member_def del: inflate.simps bits_of_simps stored_chunks.simps)
qed

interpretation stored: gzip_codec stored_gzip
proof unfold_locales
  fix v :: bytes
  let ?m = "stored_chunks (length v) v @ stored_bytes 0 [] @ stored_bytes 1 [] @
     putUint32 (crc_write crc_new v) @ putUint32 (word_of_nat (length v))"
  have "gz_readHeader (gz_header @ ?m) = Inr ?m"
    by (simp add: gz_readHeader_def gz_header_def opt_extra_def opt_string_def)
  moreover have "gz_ReadAll ?m = Inr v"
    unfolding gz_ReadAll_def gz_members.simps gz_member_stored by (simp add: gz_readHeader_def)
  ultimately have "gzipDecode (gz_header @ ?m) = Inr v"
    by (simp only: gzipDecode_def gz_NewReader_def sum.case)
  then show "\<exists>a b c. gw_Write stored_gzip v (gw_NewWriter stored_gzip) = (None, a) \<and>
      gw_Flush stored_gzip a = (None, b) \<and> gw_Close stored_gzip b = (None, c) \<and>
      gzipDecode (gw_Bytes stored_gzip c) = Inr v"
    by (simp add: stored_gzip_def)
qed

end
