(* ===== verification/Fsm_Snapshot.thy ===== *)
theory Fsm_Snapshot
  imports Fsm_Store Go_Gzip
begin

text \<open>
  Snapshots of the store, from \<open>src/fsm/store.go\<close>: the header, \<open>saveSnapShot\<close>, which writes a
  Pebble snapshot to a sink, and \<open>recoverSnapShot\<close>, which reads one into a fresh database and
  makes that the current one. The sink is Raft's (third-party) and so a parameter; \<open>sink_spec\<close>
  and \<open>sink_live\<close> state what the sources rely on. The reader is the byte stream of
  \<open>Go_Binary\<close>. Clock readings are arguments; log output is not modelled. The proofs about
  saving and restoring are in \<open>Fsm_Save\<close>, \<open>Fsm_Restore\<close> and \<open>Fsm_Recover\<close>.
\<close>

definition snapshotVersion :: u32 where "snapshotVersion = 1"
definition snapshotMagic :: u32 where "snapshotMagic = 0x52414654"

record SnapshotHeader =
  hd_Magic :: u32
  hd_Version :: u32
  hd_LastIndex :: u64
  hd_Timestamp :: u64
  hd_NodeId :: string
  hd_Checksum :: u32

record SnapshotResult =
  sr_Size :: u64
  sr_Records :: u64
  sr_Checksum :: u32
  sr_Duration :: int

subsection \<open>Sinks\<close>

record 's sink_ops =
  sk_Write :: "bytes \<Rightarrow> 's \<Rightarrow> go_err option \<times> 's"
  sk_Close :: "'s \<Rightarrow> go_err option \<times> 's"
  sk_Cancel :: "'s \<Rightarrow> 's"

locale sink_spec =
  fixes K :: "'s sink_ops" and written :: "'s \<Rightarrow> bytes"
  assumes sink_write_ok: "sk_Write K bs s = (None, s') \<Longrightarrow> written s' = written s @ bs"
    and sink_close_ok: "sk_Close K s = (None, s') \<Longrightarrow> written s' = written s"

locale sink_live = sink_spec +
  assumes sink_write_live: "fst (sk_Write K bs s) = None"
    and sink_close_live: "fst (sk_Close K s) = None"

text \<open>A sink in memory that fails when its schedule says so.\<close>

datatype sink_state = SinkOpen | SinkClosed | SinkCancelled

record buf_sink =
  bs_data :: bytes
  bs_state :: sink_state
  bs_calls :: nat
  bs_fault :: "nat \<Rightarrow> go_err option"

definition buf_sink_ops :: "buf_sink sink_ops" where
  "buf_sink_ops = \<lparr>
     sk_Write = (\<lambda>bs s. case bs_fault s (bs_calls s) of
        Some e \<Rightarrow> (Some e, s\<lparr>bs_calls := Suc (bs_calls s)\<rparr>)
      | None \<Rightarrow> (None, s\<lparr>bs_calls := Suc (bs_calls s), bs_data := bs_data s @ bs\<rparr>)),
     sk_Close = (\<lambda>s. case bs_fault s (bs_calls s) of
        Some e \<Rightarrow> (Some e, s\<lparr>bs_calls := Suc (bs_calls s)\<rparr>)
      | None \<Rightarrow> (None, s\<lparr>bs_calls := Suc (bs_calls s), bs_state := SinkClosed\<rparr>)),
     sk_Cancel = (\<lambda>s. s\<lparr>bs_state := SinkCancelled\<rparr>)\<rparr>"

interpretation buf: sink_spec buf_sink_ops bs_data
  by unfold_locales (auto simp: buf_sink_ops_def split: option.splits)

text \<open>The same without failures.\<close>

definition mem_sink_ops :: "(bytes \<times> sink_state) sink_ops" where
  "mem_sink_ops = \<lparr>
     sk_Write = (\<lambda>bs (d, st). (None, (d @ bs, st))),
     sk_Close = (\<lambda>(d, st). (None, (d, SinkClosed))),
     sk_Cancel = (\<lambda>(d, st). (d, SinkCancelled))\<rparr>"

interpretation mem: sink_live mem_sink_ops fst
  by unfold_locales (auto simp: mem_sink_ops_def)

subsection \<open>Saving\<close>

text \<open>
  The header is laid out in a zeroed buffer at the offsets of the source; the length of the node
  id goes into 16 bits, and the checksum field is left at zero.
\<close>

definition header_buf :: "string \<Rightarrow> u64 \<Rightarrow> int \<Rightarrow> bytes" where
  "header_buf nodeId lastIndex now =
     (let headerSize = 4 + 4 + 8 + 8 + 2 + length nodeId + 4;
          b0 = replicate headerSize 0;
          b1 = buf_put b0 0 (putUint32 snapshotMagic);
          b2 = buf_put b1 4 (putUint32 snapshotVersion);
          b3 = buf_put b2 8 (putUint64 lastIndex);
          b4 = buf_put b3 16 (putUint64 (word_of_int now));
          b5 = buf_put b4 24 (putUint16 (word_of_nat (length nodeId)))
      in buf_put b5 26 (bytes_of nodeId))"

record 's saver =
  sv_sink :: 's
  sv_hash :: u32
  sv_size :: u64
  sv_count :: u64

text \<open>A write that cancels the sink when it fails, and one that also feeds the checksum.\<close>

definition sink_put :: "'s sink_ops \<Rightarrow> bytes \<Rightarrow> 's saver \<Rightarrow> go_err option \<times> 's saver" where
  "sink_put K bs st =
     (case sk_Write K bs (sv_sink st) of
        (Some e, s) \<Rightarrow> (Some e, st\<lparr>sv_sink := sk_Cancel K s\<rparr>)
      | (None, s) \<Rightarrow> (None, st\<lparr>sv_sink := s, sv_size := sv_size st + word_of_nat (length bs)\<rparr>))"

definition sink_put_hashed :: "'s sink_ops \<Rightarrow> bytes \<Rightarrow> 's saver \<Rightarrow> go_err option \<times> 's saver" where
  "sink_put_hashed K bs st =
     (case sink_put K bs st of
        (Some e, st1) \<Rightarrow> (Some e, st1)
      | (None, st1) \<Rightarrow> (None, st1\<lparr>sv_hash := crc_write (sv_hash st1) bs\<rparr>))"

definition save_record ::
  "'gw gzip_ops \<Rightarrow> 's sink_ops \<Rightarrow> bytes \<Rightarrow> bytes \<Rightarrow> 's saver \<Rightarrow> go_err option \<times> 's saver" where
  "save_record Z K key val st =
     (case sink_put_hashed K (putUint64 (word_of_nat (length key))) (st\<lparr>sv_count := sv_count st + 1\<rparr>) of
        (Some e, st1) \<Rightarrow> (Some e, st1)
      | (None, st1) \<Rightarrow>
          (case sink_put_hashed K key st1 of
             (Some e, st2) \<Rightarrow> (Some e, st2)
           | (None, st2) \<Rightarrow>
               (case gzipEncode Z val of
                  Inl e \<Rightarrow> (Some e, st2\<lparr>sv_sink := sk_Cancel K (sv_sink st2)\<rparr>)
                | Inr gzipVal \<Rightarrow>
                    (case sink_put_hashed K (putUint64 (word_of_nat (length gzipVal))) st2 of
                       (Some e, st3) \<Rightarrow> (Some e, st3)
                     | (None, st3) \<Rightarrow> sink_put_hashed K gzipVal st3))))"

fun save_records ::
  "'gw gzip_ops \<Rightarrow> 's sink_ops \<Rightarrow> (bytes \<times> bytes) list \<Rightarrow> 's saver \<Rightarrow> go_err option \<times> 's saver" where
  "save_records Z K [] st = (None, st)"
| "save_records Z K ((key, val) # kvs) st =
     (case save_record Z K key val st of
        (Some e, st1) \<Rightarrow> (Some e, st1)
      | (None, st1) \<Rightarrow> save_records Z K kvs st1)"

definition saveSnapShot ::
  "('db, 'b) pebble \<Rightarrow> 'gw gzip_ops \<Rightarrow> 's sink_ops \<Rightarrow> string \<Rightarrow> u64 \<Rightarrow> int \<Rightarrow> int \<Rightarrow> 'db \<Rightarrow> 's
   \<Rightarrow> SnapshotResult result \<times> 's" where
  "saveSnapShot P Z K nodeId lastIndex now duration snapshot sink =
     (case pb_iter P snapshot of
        Inl e \<Rightarrow> (Inl e, sink)
      | Inr (kvs, iterErr) \<Rightarrow>
          (case sink_put K (header_buf nodeId lastIndex now)
                  \<lparr>sv_sink = sink, sv_hash = crc_new, sv_size = 0, sv_count = 0\<rparr> of
             (Some e, st1) \<Rightarrow> (Inl e, sv_sink st1)
           | (None, st1) \<Rightarrow>
               (case save_records Z K kvs st1 of
                  (Some e, st2) \<Rightarrow> (Inl e, sv_sink st2)
                | (None, st2) \<Rightarrow>
                    (case iterErr of
                       Some e \<Rightarrow> (Inl (Errorf ''iterator error during snapshot: %w'' [AErr e]),
                                  sk_Cancel K (sv_sink st2))
                     | None \<Rightarrow>
                         (case sink_put K (putUint32 (sv_hash st2)) st2 of
                            (Some e, st3) \<Rightarrow> (Inl e, sv_sink st3)
                          | (None, st3) \<Rightarrow>
                              (case sk_Close K (sv_sink st3) of
                                 (Some e, s) \<Rightarrow> (Inl e, s)
                               | (None, s) \<Rightarrow>
                                   (Inr \<lparr>sr_Size = sv_size st3, sr_Records = sv_count st3,
                                         sr_Checksum = sv_hash st3, sr_Duration = duration\<rparr>, s)))))))"

subsection \<open>Restoring\<close>

definition readSnapshotHeader :: "reader \<Rightarrow> SnapshotHeader result \<times> reader" where
  "readSnapshotHeader rd =
     (case readFull rd 26 of
        (_, Some e, rd1) \<Rightarrow> (Inl (Errorf ''failed to read header: %w'' [AErr e]), rd1)
      | (headerBuf, None, rd1) \<Rightarrow>
          (let magic = getUint32 headerBuf;
               version = getUint32 (drop 4 headerBuf);
               lastIndex = getUint64 (drop 8 headerBuf);
               timestamp = getUint64 (drop 16 headerBuf);
               nodeIdLen = getUint16 (drop 24 headerBuf)
           in if magic \<noteq> snapshotMagic then
                (Inl (Errorf ''invalid snapshot magic: expected 0x%08x, got 0x%08x''
                        [ANum (unat snapshotMagic), ANum (unat magic)]), rd1)
              else if snapshotVersion < version then
                (Inl (Errorf ''unsupported snapshot version: %d (max supported: %d)''
                        [ANum (unat version), ANum (unat snapshotVersion)]), rd1)
              else
                (case readFull rd1 (unat nodeIdLen) of
                   (_, Some e, rd2) \<Rightarrow> (Inl (Errorf ''failed to read nodeId: %w'' [AErr e]), rd2)
                 | (nodeIdBuf, None, rd2) \<Rightarrow>
                     (case readFull rd2 4 of
                        (_, Some e, rd3) \<Rightarrow> (Inl (Errorf ''failed to read header checksum: %w'' [AErr e]), rd3)
                      | (checksumBuf, None, rd3) \<Rightarrow>
                          (Inr \<lparr>hd_Magic = magic, hd_Version = version, hd_LastIndex = lastIndex,
                                hd_Timestamp = timestamp, hd_NodeId = string_of nodeIdBuf,
                                hd_Checksum = getUint32 checksumBuf\<rparr>, rd3)))))"

text \<open>
  One turn of the loop over the records: go on, leave the loop, or fail. The state is the reader,
  the running checksum, the batch, the number of puts since the last commit, the record count and
  the world. Reading nothing where a key, a length or a value is due leaves the loop, as the end
  of the stream does; four bytes where a length is due are the trailing checksum.
\<close>

record ('db, 'b) restorer =
  rs_reader :: reader
  rs_hash :: u32
  rs_wb :: "'b wbatch"
  rs_k :: nat
  rs_count :: u64
  rs_world :: "'db world"

datatype 'st turn = Next 'st | Break 'st | Fail go_err 'st

text \<open>Reading \<open>n\<close> bytes that count for the checksum, then going on with \<open>f\<close>.\<close>

definition read_hashed ::
  "nat \<Rightarrow> (bytes \<Rightarrow> ('db, 'b) restorer \<Rightarrow> ('db, 'b) restorer turn) \<Rightarrow> ('db, 'b) restorer
   \<Rightarrow> ('db, 'b) restorer turn" where
  "read_hashed n f st =
     (case readFull (rs_reader st) n of
        (_, Some e, rd) \<Rightarrow>
          if e = ErrEOF then Break (st\<lparr>rs_reader := rd\<rparr>) else Fail e (st\<lparr>rs_reader := rd\<rparr>)
      | (bs, None, rd) \<Rightarrow> f bs (st\<lparr>rs_reader := rd, rs_hash := crc_write (rs_hash st) bs\<rparr>))"

definition restore_put ::
  "('db, 'b) pebble \<Rightarrow> bytes \<Rightarrow> bytes \<Rightarrow> ('db, 'b) restorer \<Rightarrow> ('db, 'b) restorer turn" where
  "restore_put P kdata vdata st =
     (case gzipDecode vdata of
        Inl e \<Rightarrow> Fail (Errorf ''failed to decompress snapshot data: %w'' [AErr e]) st
      | Inr ungzipVData \<Rightarrow>
          (let st1 = st\<lparr>rs_wb := snd (wb_Put P kdata ungzipVData (rs_wb st)), rs_k := rs_k st + 1\<rparr>
           in if 100 \<le> rs_k st1
              then (case wb_Commit P (rs_wb st1) (rs_world st1) of
                      (wb, w) \<Rightarrow> Next (st1\<lparr>rs_k := 0, rs_wb := wb, rs_world := w\<rparr>))
              else Next st1))"

definition restore_val ::
  "('db, 'b) pebble \<Rightarrow> bytes \<Rightarrow> bytes \<Rightarrow> ('db, 'b) restorer \<Rightarrow> ('db, 'b) restorer turn" where
  "restore_val P kdata sz st =
     (case go_make (unat (getUint64 sz)) of
        Inl e \<Rightarrow> Fail e st
      | Inr _ \<Rightarrow> read_hashed (unat (getUint64 sz)) (restore_put P kdata) st)"

definition restore_turn ::
  "('db, 'b) pebble \<Rightarrow> ('db, 'b) restorer \<Rightarrow> ('db, 'b) restorer turn" where
  "restore_turn P st0 =
     (let st = st0\<lparr>rs_count := rs_count st0 + 1\<rparr>
      in case readFull (rs_reader st) 8 of
           (sz, Some e, rd) \<Rightarrow>
             (let st1 = st\<lparr>rs_reader := rd\<rparr>
              in if e = ErrEOF then Break st1
                 else if e = ErrUnexpectedEOF then
                   (if length sz = 4 then
                      (if getUint32 sz \<noteq> rs_hash st1
                       then Fail (Errorf ''snapshot checksum mismatch: expected 0x%08x, got 0x%08x''
                                    [ANum (unat (getUint32 sz)), ANum (unat (rs_hash st1))]) st1
                       else Break (st1\<lparr>rs_count := rs_count st1 - 1\<rparr>))
                    else Fail (Errorf ''unexpected partial read: got %d bytes, error: %w''
                                 [ANum (length sz), AErr e]) st1)
                 else Fail e st1)
         | (sz, None, rd) \<Rightarrow>
             (let keyLen = getUint64 sz; st1 = st\<lparr>rs_reader := rd\<rparr>
              in if push_bit 30 1 < keyLen
                 then Fail (Errorf ''invalid key length: %d bytes (max 1GB)'' [ANum (unat keyLen)]) st1
                 else read_hashed (unat keyLen)
                        (\<lambda>kdata. read_hashed 8 (restore_val P kdata))
                        (st1\<lparr>rs_hash := crc_write (rs_hash st1) sz\<rparr>)))"

lemma read_hashed_shorter:
  assumes "read_hashed n f st = Next st'"
    and "\<And>bs s s'. f bs s = Next s' \<Longrightarrow> length (rd_data (rs_reader s')) \<le> length (rd_data (rs_reader s))"
  shows "length (rd_data (rs_reader st')) \<le> length (rd_data (rs_reader st))"
  using assms(1)
  by (auto simp: read_hashed_def split: prod.splits option.splits if_splits
      dest!: assms(2) dest: readFull_length)

lemma restore_put_shorter:
  "restore_put P k v s = Next s' \<Longrightarrow> length (rd_data (rs_reader s')) \<le> length (rd_data (rs_reader s))"
  by (auto simp: restore_put_def Let_def split: sum.splits if_splits prod.splits)

lemma restore_val_shorter:
  "restore_val P k sz s = Next s' \<Longrightarrow> length (rd_data (rs_reader s')) \<le> length (rd_data (rs_reader s))"
  by (auto simp: restore_val_def split: sum.splits dest!: read_hashed_shorter restore_put_shorter)

lemma restore_turn_shorter:
  assumes "restore_turn P st = Next st'"
  shows "length (rd_data (rs_reader st')) < length (rd_data (rs_reader st))"
proof -
  obtain sz rd where r: "readFull (rs_reader st) 8 = (sz, None, rd)"
      and *: "read_hashed (unat (getUint64 sz)) (\<lambda>kdata. read_hashed 8 (restore_val P kdata))
        (st\<lparr>rs_count := rs_count st + 1, rs_reader := rd, rs_hash := crc_write (rs_hash st) sz\<rparr>) = Next st'"
    using assms by (auto simp: restore_turn_def Let_def split: prod.splits option.splits if_splits)
  have "length (rd_data (rs_reader st')) \<le> length (rd_data rd)"
    using read_hashed_shorter [OF *] read_hashed_shorter restore_val_shorter by fastforce
  moreover have "length (rd_data rd) < length (rd_data (rs_reader st))"
    using readFull_okD [OF r] readFull_length [OF r] by simp
  ultimately show ?thesis by simp
qed

function restore_loop ::
  "('db, 'b) pebble \<Rightarrow> ('db, 'b) restorer \<Rightarrow> go_err option \<times> ('db, 'b) restorer" where
  "restore_loop P st =
     (case restore_turn P st of
        Next st1 \<Rightarrow> restore_loop P st1
      | Break st1 \<Rightarrow> (None, st1)
      | Fail e st1 \<Rightarrow> (Some e, st1))"
  by pat_completeness auto

termination
  by (relation "measure (\<lambda>(P, st). length (rd_data (rs_reader st)))") (auto dest: restore_turn_shorter)

definition cleanupNewDB :: "fskey \<Rightarrow> string \<Rightarrow> 'db world \<Rightarrow> 'db world" where
  "cleanupNewDB h dbdir w = snd (os_RemoveAll dbdir (db_close h w))"

text \<open>After the loop: make the new database the current one and remove the old one.\<close>

definition restore_swap ::
  "store \<Rightarrow> fskey \<Rightarrow> string \<Rightarrow> SnapshotHeader \<Rightarrow> 'db world \<Rightarrow> SnapshotHeader result \<times> store \<times> 'db world" where
  "restore_swap s h oldDirName header w =
     (let s1 = s\<lparr>st_db := h\<rparr>
      in case os_RemoveAll oldDirName (db_close (st_db s) w) of
           (Inl e, w1) \<Rightarrow> (Inl e, s1, w1)
         | (Inr _, w1) \<Rightarrow>
             (case syncDir (filepath_Dir oldDirName) w1 of
                (Some e, w2) \<Rightarrow> (Inl e, s1, w2)
              | (None, w2) \<Rightarrow> (Inr header, s1, w2)))"

definition restore_publish ::
  "store \<Rightarrow> fskey \<Rightarrow> string \<Rightarrow> string \<Rightarrow> SnapshotHeader \<Rightarrow> 'db world
   \<Rightarrow> SnapshotHeader result \<times> store \<times> 'db world" where
  "restore_publish s h dbdir oldDirName header w =
     (case saveCurrentDBDirName (st_baseDir s) dbdir w of
        (Some e, w1) \<Rightarrow> (Inl e, s, if is_panic e then w1 else cleanupNewDB h dbdir w1)
      | (None, w1) \<Rightarrow>
          (case replaceCurrentDBFile (st_baseDir s) w1 of
             (Some e, w2) \<Rightarrow> (Inl e, s, cleanupNewDB h dbdir w2)
           | (None, w2) \<Rightarrow> restore_swap s h oldDirName header w2))"

definition restore_into ::
  "('db, 'b) pebble \<Rightarrow> fskey \<Rightarrow> reader \<Rightarrow> 'db world \<Rightarrow> go_err option \<times> ('db, 'b) restorer" where
  "restore_into P h rd w =
     restore_loop P \<lparr>rs_reader = rd, rs_hash = crc_new,
       rs_wb = newPebbleWriteBatch P h (the (db_load h w)), rs_k = 0, rs_count = 0, rs_world = w\<rparr>"

definition restore_commit :: "('db, 'b) pebble \<Rightarrow> ('db, 'b) restorer \<Rightarrow> 'db world" where
  "restore_commit P st =
     (if 0 < rs_k st then snd (wb_Commit P (rs_wb st) (rs_world st)) else rs_world st)"

definition recoverSnapShot ::
  "('db, 'b) pebble \<Rightarrow> store \<Rightarrow> reader \<Rightarrow> u64 \<Rightarrow> int \<Rightarrow> 'db world
   \<Rightarrow> SnapshotHeader result \<times> store \<times> 'db world" where
  "recoverSnapShot P s rd rn ct w =
     (case readSnapshotHeader rd of
        (Inl e, _) \<Rightarrow> (Inl (Errorf ''failed to read snapshot header: %w'' [AErr e]), s, w)
      | (Inr header, rd1) \<Rightarrow>
          (let dbdir = getNewRandomDBDirName (st_baseDir s) rn ct
           in case getCurrentDBDirName (st_baseDir s) w of
                (Inl e, w1) \<Rightarrow> (Inl e, s, w1)
              | (Inr oldDirName, w1) \<Rightarrow>
                  (case db_open P dbdir w1 of
                     (Inl e, w2) \<Rightarrow> (Inl e, s, w2)
                   | (Inr h, w2) \<Rightarrow>
                       (case restore_into P h rd1 w2 of
                          (Some e, st) \<Rightarrow>
                            (Inl e, s, if is_panic e then rs_world st else cleanupNewDB h dbdir (rs_world st))
                        | (None, st) \<Rightarrow>
                            restore_publish s h dbdir oldDirName header (restore_commit P st)))))"

end
