(* ===== verification/Fsm_Save.thy ===== *)
theory Fsm_Save
  imports Fsm_Snapshot
begin

text \<open>
  What \<open>saveSnapShot\<close> writes: the bytes of a snapshot as a function of the pairs it holds, that a
  successful save wrote exactly those, that a save without failing parts succeeds, that every
  failure on the way cancels the sink, and that \<open>readSnapshotHeader\<close> inverts the header.
\<close>

subsection \<open>The header\<close>

lemma buf_put_end:
  "off = length pre \<Longrightarrow> length bs \<le> n \<Longrightarrow>
   buf_put (pre @ replicate n 0) off bs = (pre @ bs) @ replicate (n - length bs) 0"
  by (simp add: buf_put_def)

lemma header_buf_layout:
  "header_buf nodeId lastIndex now =
     putUint32 snapshotMagic @ putUint32 snapshotVersion @ putUint64 lastIndex @
     putUint64 (word_of_int now) @ putUint16 (word_of_nat (length nodeId)) @ bytes_of nodeId @ replicate 4 0"
proof -
  let ?n = "length nodeId"
  have "buf_put (replicate (30 + ?n) 0) 0 (putUint32 snapshotMagic) = putUint32 snapshotMagic @ replicate (26 + ?n) 0"
    using buf_put_end [of 0 "[]" "putUint32 snapshotMagic" "30 + ?n"] by simp
  then show ?thesis
    by (simp add: header_buf_def Let_def add.commute [of ?n] buf_put_end flip: append_assoc)
qed

lemma readSnapshotHeader_buf:
  assumes "length nodeId < 2 ^ 16"
  shows "readSnapshotHeader \<lparr>rd_data = header_buf nodeId lastIndex now @ rest, rd_end = e\<rparr> =
    (Inr \<lparr>hd_Magic = snapshotMagic, hd_Version = snapshotVersion, hd_LastIndex = lastIndex,
          hd_Timestamp = word_of_int now, hd_NodeId = nodeId, hd_Checksum = 0\<rparr>,
     \<lparr>rd_data = rest, rd_end = e\<rparr>)"
proof -
  let ?fix = "putUint32 snapshotMagic @ putUint32 snapshotVersion @ putUint64 lastIndex @
     putUint64 (word_of_int now) @ putUint16 (word_of_nat (length nodeId))"
  have "readFull \<lparr>rd_data = header_buf nodeId lastIndex now @ rest, rd_end = e\<rparr> 26
      = (?fix, None, \<lparr>rd_data = bytes_of nodeId @ replicate 4 0 @ rest, rd_end = e\<rparr>)"
    using readFull_ok [of 26 ?fix "bytes_of nodeId @ replicate 4 0 @ rest" e] by (simp add: header_buf_layout)
  moreover have "unat (word_of_nat (length nodeId) :: u16) = length nodeId"
    using assms by (simp add: unat_of_nat)
  moreover have "getUint32 (replicate 4 0) = 0"
    by (simp add: getUint32_def numeral_eq_Suc)
  ultimately show ?thesis
    by (simp add: readSnapshotHeader_def drop_append)
qed

subsection \<open>The records\<close>

definition gz_val :: "'gw gzip_ops \<Rightarrow> bytes \<Rightarrow> bytes" where
  "gz_val Z v = (case gzipEncode Z v of Inr z \<Rightarrow> z | Inl _ \<Rightarrow> [])"

definition enc_record :: "'gw gzip_ops \<Rightarrow> bytes \<times> bytes \<Rightarrow> bytes" where
  "enc_record Z kv =
     putUint64 (word_of_nat (length (fst kv))) @ fst kv @
     putUint64 (word_of_nat (length (gz_val Z (snd kv)))) @ gz_val Z (snd kv)"

definition enc_records :: "'gw gzip_ops \<Rightarrow> (bytes \<times> bytes) list \<Rightarrow> bytes" where
  "enc_records Z kvs = concat (map (enc_record Z) kvs)"

definition snapshot_bytes :: "'gw gzip_ops \<Rightarrow> string \<Rightarrow> u64 \<Rightarrow> int \<Rightarrow> (bytes \<times> bytes) list \<Rightarrow> bytes" where
  "snapshot_bytes Z nodeId lastIndex now kvs =
     header_buf nodeId lastIndex now @ enc_records Z kvs @ putUint32 (crc_write crc_new (enc_records Z kvs))"

lemma enc_records_simps [simp]:
  "enc_records Z [] = []" "enc_records Z (kv # kvs) = enc_record Z kv @ enc_records Z kvs"
  "enc_records Z (xs @ ys) = enc_records Z xs @ enc_records Z ys"
  by (simp_all add: enc_records_def)

context gzip_codec
begin

lemma gz_val_ok:
  "gzipEncode Z v = Inr (gz_val Z v)" "gzipDecode (gz_val Z v) = Inr v" "gz_val Z v \<noteq> []"
  using gzip_roundtrip [of v] by (auto simp: gz_val_def)

end

subsection \<open>A successful save\<close>

text \<open>The saver after it wrote \<open>bs\<close>, of which \<open>hs\<close> count for the checksum.\<close>

definition wrote :: "('s \<Rightarrow> bytes) \<Rightarrow> bytes \<Rightarrow> bytes \<Rightarrow> nat \<Rightarrow> 's saver \<Rightarrow> 's saver \<Rightarrow> bool" where
  "wrote written bs hs n st st' \<longleftrightarrow>
     written (sv_sink st') = written (sv_sink st) @ bs \<and>
     sv_hash st' = crc_write (sv_hash st) hs \<and>
     sv_size st' = sv_size st + word_of_nat (length bs) \<and>
     sv_count st' = sv_count st + word_of_nat n"

lemma wrote_trans:
  "wrote f bs hs n a b \<Longrightarrow> wrote f bs' hs' m b c \<Longrightarrow> wrote f (bs @ bs') (hs @ hs') (n + m) a c"
  by (simp add: wrote_def)

context sink_spec
begin

lemma sink_put_ok: "sink_put K bs st = (None, st') \<Longrightarrow> wrote written bs [] 0 st st'"
  by (auto simp: sink_put_def wrote_def sink_write_ok split: prod.splits option.splits)

lemma sink_put_hashed_ok: "sink_put_hashed K bs st = (None, st') \<Longrightarrow> wrote written bs bs 0 st st'"
  by (auto simp: sink_put_hashed_def wrote_def dest!: sink_put_ok split: prod.splits option.splits)

lemma save_record_ok:
  assumes "save_record Z K key val st = (None, st')"
  shows "wrote written (enc_record Z (key, val)) (enc_record Z (key, val)) 1 st st'"
proof -
  let ?st = "st\<lparr>sv_count := sv_count st + 1\<rparr>"
  obtain z st1 st2 st3 where
    "sink_put_hashed K (putUint64 (word_of_nat (length key))) ?st = (None, st1)"
    "sink_put_hashed K key st1 = (None, st2)" and z: "gzipEncode Z val = Inr z" and
    "sink_put_hashed K (putUint64 (word_of_nat (length z))) st2 = (None, st3)"
    "sink_put_hashed K z st3 = (None, st')"
    using assms by (auto simp: save_record_def split: prod.splits option.splits sum.splits)
  note w = this(1,2,4,5) [THEN sink_put_hashed_ok]
  have "wrote written (enc_record Z (key, val)) (enc_record Z (key, val)) 0 ?st st'"
    using wrote_trans [OF w(1) wrote_trans [OF w(2) wrote_trans [OF w(3,4)]]] z
    by (simp add: enc_record_def gz_val_def)
  then show ?thesis by (simp add: wrote_def)
qed

lemma save_records_ok:
  "save_records Z K kvs st = (None, st') \<Longrightarrow>
   wrote written (enc_records Z kvs) (enc_records Z kvs) (length kvs) st st'"
proof (induction kvs arbitrary: st)
  case Nil
  then show ?case by (simp add: wrote_def)
next
  case (Cons kv kvs)
  obtain key val where kv: "kv = (key, val)" by fastforce
  obtain st1 where "save_record Z K key val st = (None, st1)" and r: "save_records Z K kvs st1 = (None, st')"
    using Cons.prems kv by (auto split: prod.splits option.splits)
  then show ?case
    using wrote_trans [OF save_record_ok Cons.IH [OF r]] kv by simp
qed

lemma saveSnapShot_ok:
  assumes "saveSnapShot P Z K nodeId lastIndex now duration snap sink = (Inr res, sink')"
  shows "\<exists>kvs. pb_iter P snap = Inr (kvs, None) \<and>
    written sink' = written sink @ snapshot_bytes Z nodeId lastIndex now kvs \<and>
    res = \<lparr>sr_Size = word_of_nat (length (snapshot_bytes Z nodeId lastIndex now kvs)),
           sr_Records = word_of_nat (length kvs),
           sr_Checksum = crc_write crc_new (enc_records Z kvs), sr_Duration = duration\<rparr>"
proof -
  let ?st = "\<lparr>sv_sink = sink, sv_hash = crc_new, sv_size = 0, sv_count = 0\<rparr>"
  obtain kvs st1 st2 st3 where i: "pb_iter P snap = Inr (kvs, None)"
    and 1: "sink_put K (header_buf nodeId lastIndex now) ?st = (None, st1)"
    and 2: "save_records Z K kvs st1 = (None, st2)"
    and 3: "sink_put K (putUint32 (sv_hash st2)) st2 = (None, st3)"
    and c: "sk_Close K (sv_sink st3) = (None, sink')"
    and r: "res = \<lparr>sr_Size = sv_size st3, sr_Records = sv_count st3, sr_Checksum = sv_hash st3, sr_Duration = duration\<rparr>"
    using assms by (auto simp: saveSnapShot_def split: prod.splits option.splits sum.splits)
  have h: "sv_hash st2 = crc_write crc_new (enc_records Z kvs)"
    using sink_put_ok [OF 1] save_records_ok [OF 2] by (simp add: wrote_def)
  have "wrote written (snapshot_bytes Z nodeId lastIndex now kvs) (enc_records Z kvs) (length kvs) ?st st3"
    using wrote_trans [OF sink_put_ok [OF 1] wrote_trans [OF save_records_ok [OF 2] sink_put_ok [OF 3]]]
    by (simp add: snapshot_bytes_def h)
  then show ?thesis
    using i r sink_close_ok [OF c] by (simp add: wrote_def)
qed

end

subsection \<open>A save succeeds when nothing fails\<close>

context sink_live
begin

lemma sink_put_live: "\<exists>st'. sink_put K bs st = (None, st')"
  using sink_write_live [of bs "sv_sink st"] by (cases "sk_Write K bs (sv_sink st)") (simp add: sink_put_def)

lemma sink_put_hashed_live: "\<exists>st'. sink_put_hashed K bs st = (None, st')"
  using sink_put_live [of bs st] by (auto simp: sink_put_hashed_def)

lemma save_record_live:
  assumes "gzip_codec Z"
  shows "\<exists>st'. save_record Z K key val st = (None, st')"
proof -
  let ?st = "st\<lparr>sv_count := sv_count st + 1\<rparr>" and ?z = "gz_val Z val"
  obtain st1 where 1: "sink_put_hashed K (putUint64 (word_of_nat (length key))) ?st = (None, st1)"
    using sink_put_hashed_live by blast
  obtain st2 where 2: "sink_put_hashed K key st1 = (None, st2)" using sink_put_hashed_live by blast
  obtain st3 where 3: "sink_put_hashed K (putUint64 (word_of_nat (length ?z))) st2 = (None, st3)"
    using sink_put_hashed_live by blast
  show ?thesis
    using 1 2 3 sink_put_hashed_live [of ?z st3] gzip_codec.gz_val_ok(1) [OF assms, of val]
    by (simp add: save_record_def)
qed

lemma save_records_live:
  assumes "gzip_codec Z"
  shows "\<exists>st'. save_records Z K kvs st = (None, st')"
proof (induction kvs arbitrary: st)
  case (Cons kv kvs)
  obtain key val where kv: "kv = (key, val)" by fastforce
  then show ?case using save_record_live [OF assms, of key val st] Cons.IH by auto
qed simp

lemma saveSnapShot_live:
  assumes "gzip_codec Z" and "pb_iter P snap = Inr (kvs, None)"
  shows "\<exists>res sink'. saveSnapShot P Z K nodeId lastIndex now duration snap sink = (Inr res, sink')"
proof -
  let ?st = "\<lparr>sv_sink = sink, sv_hash = crc_new, sv_size = 0, sv_count = 0\<rparr>"
  obtain st1 where 1: "sink_put K (header_buf nodeId lastIndex now) ?st = (None, st1)"
    using sink_put_live by blast
  obtain st2 where 2: "save_records Z K kvs st1 = (None, st2)" using save_records_live [OF assms(1)] by blast
  obtain st3 where 3: "sink_put K (putUint32 (sv_hash st2)) st2 = (None, st3)" using sink_put_live by blast
  obtain s where "sk_Close K (sv_sink st3) = (None, s)"
    using sink_close_live [of "sv_sink st3"] by (metis prod.collapse)
  with 1 2 3 assms(2) show ?thesis by (simp add: saveSnapShot_def)
qed

end

subsection \<open>A failed save\<close>

lemma sink_put_cancels:
  "sink_put K bs st = (Some e, st') \<Longrightarrow> \<exists>s. sv_sink st' = sk_Cancel K s"
  by (auto simp: sink_put_def split: prod.splits option.splits)

lemma sink_put_hashed_cancels:
  "sink_put_hashed K bs st = (Some e, st') \<Longrightarrow> \<exists>s. sv_sink st' = sk_Cancel K s"
  by (auto simp: sink_put_hashed_def dest: sink_put_cancels split: prod.splits option.splits)

lemma save_record_cancels:
  "save_record Z K key val st = (Some e, st') \<Longrightarrow> \<exists>s. sv_sink st' = sk_Cancel K s"
  by (auto simp: save_record_def dest: sink_put_hashed_cancels split: prod.splits option.splits sum.splits)

lemma save_records_cancels:
  "save_records Z K kvs st = (Some e, st') \<Longrightarrow> \<exists>s. sv_sink st' = sk_Cancel K s"
  by (induction Z K kvs st rule: save_records.induct)
     (auto dest: save_record_cancels split: prod.splits option.splits)

lemma saveSnapShot_cancels:
  assumes "saveSnapShot P Z K nodeId lastIndex now duration snap sink = (Inl e, sink')"
  shows "(pb_iter P snap = Inl e \<and> sink' = sink) \<or> (\<exists>s. sink' = sk_Cancel K s) \<or>
    (\<exists>s. sk_Close K s = (Some e, sink'))"
  using assms
  by (auto simp: saveSnapShot_def dest: sink_put_cancels save_records_cancels
      split: prod.splits option.splits sum.splits)

end
