(* ===== verification/Go_Base64.thy ===== *)
theory Go_Base64
  imports Prelude
begin

text \<open>
  Go's \<open>base64.StdEncoding\<close>, the form in which \<open>encoding/json\<close> writes a byte slice:
  \<open>b64_encode\<close> with padding, and \<open>b64_decode\<close>, which skips carriage returns and newlines
  and refuses everything else that is not a sequence of full quanta with at most one padded
  quantum at the end (bits below the padding are ignored, as in Go's non-strict mode).
\<close>

definition b64_char :: "nat \<Rightarrow> byte" where
  "b64_char i =
     (if i < 26 then of_nat (65 + i)
      else if i < 52 then of_nat (71 + i)
      else if i < 62 then of_nat (i - 4)
      else if i = 62 then 43 else 47)"

definition b64_val :: "byte \<Rightarrow> nat option" where
  "b64_val c =
     (let n = unat c in
      if 65 \<le> n \<and> n \<le> 90 then Some (n - 65)
      else if 97 \<le> n \<and> n \<le> 122 then Some (n - 71)
      else if 48 \<le> n \<and> n \<le> 57 then Some (n + 4)
      else if n = 43 then Some 62
      else if n = 47 then Some 63
      else None)"

abbreviation b64_pad :: byte where "b64_pad \<equiv> 61"

fun b64_encode :: "bytes \<Rightarrow> bytes" where
  "b64_encode [] = []"
| "b64_encode [a] =
     (let x = unat a in [b64_char (x div 4), b64_char (x mod 4 * 16), b64_pad, b64_pad])"
| "b64_encode [a, b] =
     (let x = unat a; y = unat b in
      [b64_char (x div 4), b64_char (x mod 4 * 16 + y div 16), b64_char (y mod 16 * 4), b64_pad])"
| "b64_encode (a # b # c # bs) =
     (let x = unat a; y = unat b; z = unat c in
      [b64_char (x div 4), b64_char (x mod 4 * 16 + y div 16),
       b64_char (y mod 16 * 4 + z div 64), b64_char (z mod 64)] @ b64_encode bs)"

fun b64_quanta :: "bytes \<Rightarrow> bytes option" where
  "b64_quanta [] = Some []"
| "b64_quanta (a # b # c # d # bs) =
     (case (b64_val a, b64_val b) of
        (Some x, Some y) \<Rightarrow>
          (case (b64_val c, b64_val d) of
             (Some z, Some w) \<Rightarrow>
               map_option (\<lambda>r. [of_nat (x * 4 + y div 16), of_nat (y mod 16 * 16 + z div 4),
                                of_nat (z mod 4 * 64 + w)] @ r) (b64_quanta bs)
           | (Some z, None) \<Rightarrow>
               (if d = b64_pad \<and> bs = []
                then Some [of_nat (x * 4 + y div 16), of_nat (y mod 16 * 16 + z div 4)] else None)
           | (None, _) \<Rightarrow>
               (if c = b64_pad \<and> d = b64_pad \<and> bs = []
                then Some [of_nat (x * 4 + y div 16)] else None))
      | _ \<Rightarrow> None)"
| "b64_quanta _ = None"

definition b64_decode :: "bytes \<Rightarrow> bytes option" where
  "b64_decode s = b64_quanta (filter (\<lambda>c. c \<noteq> 13 \<and> c \<noteq> 10) s)"

subsection \<open>Round trip\<close>

lemma unat_b64_char:
  "i < 64 \<Longrightarrow> unat (b64_char i) =
     (if i < 26 then 65 + i else if i < 52 then 71 + i else if i < 62 then i - 4
      else if i = 62 then 43 else 47)"
  by (simp add: b64_char_def unat_of_nat del: of_nat_add of_nat_diff)

lemma b64_val_char [simp]: "i < 64 \<Longrightarrow> b64_val (b64_char i) = Some i"
  by (auto simp: b64_val_def Let_def unat_b64_char)

lemma b64_val_pad [simp]: "b64_val b64_pad = None"
  by (simp add: b64_val_def)

lemma byte_lt_256: "unat (b::byte) < 256"
  using unsigned_less [of b, where 'a=nat] by simp

lemma byte_of_parts: "n = unat (b::byte) \<Longrightarrow> of_nat n = b"
  by simp

lemma b64_quanta_encode: "b64_quanta (b64_encode bs) = Some bs"
proof (induction bs rule: b64_encode.induct)
  case (2 a)
  have "unat a div 4 < 64" using byte_lt_256 [of a] by simp
  moreover have "unat a mod 4 * 16 < 64" by simp
  moreover have "unat a div 4 * 4 + unat a mod 4 * 16 div 16 = unat a" by simp
  ultimately show ?case by (simp add: Let_def)
next
  case (3 a b)
  have "unat a div 4 < 64" "unat b div 16 < 16" using byte_lt_256 [of a] byte_lt_256 [of b] by auto
  moreover from this have "unat a mod 4 * 16 + unat b div 16 < 64" by simp
  moreover have "unat b mod 16 * 4 < 64" by simp
  moreover have "unat a div 4 * 4 + (unat a mod 4 * 16 + unat b div 16) div 16 = unat a"
    using \<open>unat b div 16 < 16\<close> by simp
  moreover have "(unat a mod 4 * 16 + unat b div 16) mod 16 * 16 + unat b mod 16 * 4 div 4 = unat b"
    using \<open>unat b div 16 < 16\<close> by simp
  ultimately show ?case by (simp add: Let_def del: of_nat_add of_nat_mult)
next
  case (4 a b c bs)
  have lt: "unat a div 4 < 64" "unat b div 16 < 16" "unat c div 64 < 4"
    using byte_lt_256 [of a] byte_lt_256 [of b] byte_lt_256 [of c] by auto
  moreover from this have "unat a mod 4 * 16 + unat b div 16 < 64" by simp
  moreover from lt have "unat b mod 16 * 4 + unat c div 64 < 64" by simp
  moreover have "unat a div 4 * 4 + (unat a mod 4 * 16 + unat b div 16) div 16 = unat a"
    using lt by simp
  moreover have "(unat a mod 4 * 16 + unat b div 16) mod 16 * 16
      + (unat b mod 16 * 4 + unat c div 64) div 4 = unat b"
    using lt by simp
  moreover have "(unat b mod 16 * 4 + unat c div 64) mod 4 * 64 + unat c mod 64 = unat c"
    using lt by simp
  ultimately show ?case using 4 by (simp add: Let_def del: of_nat_add of_nat_mult)
qed simp

text \<open>The characters of an encoding: letters, digits, \<open>+\<close>, \<open>/\<close> and \<open>=\<close>.\<close>

definition b64_safe :: "byte \<Rightarrow> bool" where
  "b64_safe c = (b64_val c \<noteq> None \<or> c = b64_pad)"

lemma b64_char_safe [simp]: "i < 64 \<Longrightarrow> b64_safe (b64_char i)"
  by (simp add: b64_safe_def)

lemma b64_encode_safe: "c \<in> set (b64_encode bs) \<Longrightarrow> b64_safe c"
proof (induction bs rule: b64_encode.induct)
  case (2 a)
  then show ?case using byte_lt_256 [of a] by (auto simp: Let_def b64_safe_def)
next
  case (3 a b)
  have "unat a mod 4 * 16 + unat b div 16 < 64" "unat b mod 16 * 4 < 64" "unat a div 4 < 64"
    using byte_lt_256 [of a] byte_lt_256 [of b] by auto
  then show ?case using 3 by (auto simp: Let_def b64_safe_def)
next
  case (4 a b c bs)
  have lt: "unat b div 16 < 16" "unat c div 64 < 4"
    using byte_lt_256 [of b] byte_lt_256 [of c] by auto
  have "unat a mod 4 * 16 + unat b div 16 < 64" "unat b mod 16 * 4 + unat c div 64 < 64"
    "unat a div 4 < 64" "unat c mod 64 < 64"
    using lt byte_lt_256 [of a] by auto
  then show ?case using 4 by (auto simp: Let_def)
qed simp

lemma b64_safe_range: "b64_safe c \<Longrightarrow> c \<noteq> 13 \<and> c \<noteq> 10 \<and> c \<noteq> 34 \<and> c \<noteq> 92 \<and> 32 \<le> c \<and> c < 128"
  by (auto simp: b64_safe_def b64_val_def Let_def word_le_nat_alt word_less_nat_alt split: if_splits)

lemma b64_roundtrip [simp, go_simps]: "b64_decode (b64_encode bs) = Some bs"
proof -
  have "filter (\<lambda>c. c \<noteq> 13 \<and> c \<noteq> 10) (b64_encode bs) = b64_encode bs"
    by (rule filter_True) (use b64_encode_safe b64_safe_range in blast)
  then show ?thesis by (simp add: b64_decode_def b64_quanta_encode)
qed

end
