(* ===== verification/Go_Json.thy ===== *)
theory Go_Json
  imports Go_Base64 Go_Path
begin

text \<open>
  Go's \<open>encoding/json\<close> as far as the sources use it: \<open>Unmarshal\<close> parses any JSON text
  (\<open>parse_json\<close>) and stores object members into struct fields, matched by name and then
  case-insensitively; \<open>Marshal\<close> writes the struct's fields in order. The decoders for the
  field kinds the sources have (integers, byte slices) are here, the structs themselves are
  in the theories of the packages that declare them. Go's limit of 10000 nested values is
  not modelled. A decoding error of a field is recorded, the decoding goes on, and the
  first recorded error is returned.
\<close>

datatype json =
    JNull
  | JBool bool
  | JNum bytes
  | JStr bytes
  | JArr "json list"
  | JObj "(bytes \<times> json) list"

subsection \<open>Lexing\<close>

definition is_ws :: "byte \<Rightarrow> bool" where
  "is_ws b = (b = 32 \<or> b = 9 \<or> b = 10 \<or> b = 13)"

definition skip_ws :: "bytes \<Rightarrow> bytes" where
  "skip_ws s = dropWhile is_ws s"

definition is_digit :: "byte \<Rightarrow> bool" where
  "is_digit b = (48 \<le> b \<and> b \<le> 57)"

definition hex_val :: "byte \<Rightarrow> nat option" where
  "hex_val b =
     (if 48 \<le> b \<and> b \<le> 57 then Some (unat b - 48)
      else if 97 \<le> b \<and> b \<le> 102 then Some (unat b - 87)
      else if 65 \<le> b \<and> b \<le> 70 then Some (unat b - 55)
      else None)"

definition is_hex :: "byte \<Rightarrow> bool" where
  "is_hex b = (hex_val b \<noteq> None)"

text \<open>A string literal after its opening quote: its raw text and what follows it.\<close>

fun lex_str :: "bytes \<Rightarrow> (bytes \<times> bytes) option" where
  "lex_str [] = None"
| "lex_str (b # bs) =
     (if b = 34 then Some ([], bs)
      else if b < 32 then None
      else if b = 92 then
        (case bs of
           [] \<Rightarrow> None
         | e # bs1 \<Rightarrow>
             if e \<in> set [34, 92, 47, 98, 102, 110, 114, 116] then
               map_option (\<lambda>(r, rest). (b # e # r, rest)) (lex_str bs1)
             else if e = 117 then
               (case bs1 of
                  h1 # h2 # h3 # h4 # bs2 \<Rightarrow>
                    if is_hex h1 \<and> is_hex h2 \<and> is_hex h3 \<and> is_hex h4 then
                      map_option (\<lambda>(r, rest). (b # e # h1 # h2 # h3 # h4 # r, rest)) (lex_str bs2)
                    else None
                | _ \<Rightarrow> None)
             else None)
      else map_option (\<lambda>(r, rest). (b # r, rest)) (lex_str bs))"

definition take_digits :: "bytes \<Rightarrow> bytes \<times> bytes" where
  "take_digits s = (takeWhile is_digit s, dropWhile is_digit s)"

definition lex_int_part :: "bytes \<Rightarrow> (bytes \<times> bytes) option" where
  "lex_int_part s =
     (case s of
        [] \<Rightarrow> None
      | d # ds \<Rightarrow> if d = 48 then Some ([d], ds)
                  else if is_digit d then Some (take_digits s) else None)"

definition lex_frac :: "bytes \<Rightarrow> (bytes \<times> bytes) option" where
  "lex_frac s =
     (case s of
        b # d # ds \<Rightarrow> if b = 46 then
                        (if is_digit d then Some (b # fst (take_digits (d # ds)), snd (take_digits (d # ds)))
                         else None)
                      else Some ([], s)
      | [b] \<Rightarrow> if b = 46 then None else Some ([], s)
      | [] \<Rightarrow> Some ([], s))"

definition lex_exp :: "bytes \<Rightarrow> (bytes \<times> bytes) option" where
  "lex_exp s =
     (case s of
        [] \<Rightarrow> Some ([], s)
      | e # r \<Rightarrow>
          if e = 101 \<or> e = 69 then
            (let (sg, r1) = (case r of
                               c # cs \<Rightarrow> if c = 43 \<or> c = 45 then ([c], cs) else ([], r)
                             | [] \<Rightarrow> ([], r));
                 (ds, r2) = take_digits r1
             in if ds = [] then None else Some (e # sg @ ds, r2))
          else Some ([], s))"

definition lex_num :: "bytes \<Rightarrow> (bytes \<times> bytes) option" where
  "lex_num s =
     (let (sg, s1) = (case s of
                        b # bs \<Rightarrow> if b = 45 then ([b], bs) else ([], s)
                      | [] \<Rightarrow> ([], s))
      in case lex_int_part s1 of
           None \<Rightarrow> None
         | Some (ip, s2) \<Rightarrow>
             (case lex_frac s2 of
                None \<Rightarrow> None
              | Some (fp, s3) \<Rightarrow>
                  (case lex_exp s3 of
                     None \<Rightarrow> None
                   | Some (ep, s4) \<Rightarrow> Some (sg @ ip @ fp @ ep, s4))))"

subsection \<open>Unquoting\<close>

text \<open>The length of the UTF-8 encoded rune at the head of the input, 0 if there is none.\<close>

definition cont :: "byte \<Rightarrow> bool" where
  "cont b = (128 \<le> b \<and> b \<le> 191)"

fun utf8_len :: "bytes \<Rightarrow> nat" where
  "utf8_len [] = 0"
| "utf8_len (a # bs) =
     (if a < 128 then 1
      else (case bs of
        [] \<Rightarrow> 0
      | b # bs1 \<Rightarrow>
          if 194 \<le> a \<and> a \<le> 223 then (if cont b then 2 else 0)
          else (case bs1 of
            [] \<Rightarrow> 0
          | c # bs2 \<Rightarrow>
              if 224 \<le> a \<and> a \<le> 239 then
                (if cont b \<and> cont c \<and> (a = 224 \<longrightarrow> 160 \<le> b) \<and> (a = 237 \<longrightarrow> b \<le> 159) then 3 else 0)
              else (case bs2 of
                [] \<Rightarrow> 0
              | d # _ \<Rightarrow>
                  if 240 \<le> a \<and> a \<le> 244 then
                    (if cont b \<and> cont c \<and> cont d \<and> (a = 240 \<longrightarrow> 144 \<le> b) \<and> (a = 244 \<longrightarrow> b \<le> 143)
                     then 4 else 0)
                  else 0))))"

definition utf8_enc :: "nat \<Rightarrow> bytes" where
  "utf8_enc r =
     (if r < 128 then [of_nat r]
      else if r < 2048 then [of_nat (192 + r div 64), of_nat (128 + r mod 64)]
      else if r < 65536 then
        [of_nat (224 + r div 4096), of_nat (128 + r div 64 mod 64), of_nat (128 + r mod 64)]
      else [of_nat (240 + r div 262144), of_nat (128 + r div 4096 mod 64),
            of_nat (128 + r div 64 mod 64), of_nat (128 + r mod 64)])"

definition rune_error :: bytes where "rune_error = [239, 191, 189]"

definition hex4 :: "byte \<Rightarrow> byte \<Rightarrow> byte \<Rightarrow> byte \<Rightarrow> nat option" where
  "hex4 a b c d =
     (case (hex_val a, hex_val b, hex_val c, hex_val d) of
        (Some w, Some x, Some y, Some z) \<Rightarrow> Some (w * 4096 + x * 256 + y * 16 + z)
      | _ \<Rightarrow> None)"

definition is_surrogate :: "nat \<Rightarrow> bool" where
  "is_surrogate r = (0xD800 \<le> r \<and> r < 0xE000)"

definition surrogate_pair :: "nat \<Rightarrow> nat \<Rightarrow> nat option" where
  "surrogate_pair r1 r2 =
     (if 0xD800 \<le> r1 \<and> r1 < 0xDC00 \<and> 0xDC00 \<le> r2 \<and> r2 < 0xE000
      then Some ((r1 - 0xD800) * 1024 + (r2 - 0xDC00) + 0x10000) else None)"

definition next_u4 :: "bytes \<Rightarrow> (nat \<times> bytes) option" where
  "next_u4 s =
     (case s of
        p # u # a # b # c # d # rest \<Rightarrow>
          if p = 92 \<and> u = 117 then map_option (\<lambda>r. (r, rest)) (hex4 a b c d) else None
      | _ \<Rightarrow> None)"

definition esc_byte :: "byte \<Rightarrow> byte" where
  "esc_byte e = (if e = 98 then 8 else if e = 102 then 12 else if e = 110 then 10
                 else if e = 114 then 13 else if e = 116 then 9 else e)"

lemma next_u4_length: "next_u4 s = Some (r, rest) \<Longrightarrow> length rest < length s"
  by (auto simp: next_u4_def split: list.splits if_splits)

function unquote :: "bytes \<Rightarrow> bytes" where
  "unquote [] = []"
| "unquote (b # bs) =
     (if b = 92 then
        (case next_u4 (b # bs) of
           Some (rr, rest) \<Rightarrow>
             if is_surrogate rr then
               (case next_u4 rest of
                  Some (rr1, rest1) \<Rightarrow>
                    (case surrogate_pair rr rr1 of
                       Some r \<Rightarrow> utf8_enc r @ unquote rest1
                     | None \<Rightarrow> rune_error @ unquote rest)
                | None \<Rightarrow> rune_error @ unquote rest)
             else utf8_enc rr @ unquote rest
         | None \<Rightarrow> (case bs of [] \<Rightarrow> [] | e # bs1 \<Rightarrow> esc_byte e # unquote bs1))
      else if b < 128 then b # unquote bs
      else if utf8_len (b # bs) = 0 then rune_error @ unquote bs
      else take (utf8_len (b # bs)) (b # bs) @ unquote (drop (utf8_len (b # bs) - 1) bs))"
  by pat_completeness auto
termination
  by (relation "measure length") (auto dest!: next_u4_length)

declare unquote.simps(2) [simp del]

subsection \<open>The parser\<close>

text \<open>
  A value is parsed from a shorter input than the list or object it stands in, so fuel beyond
  twice the length of the text is enough: \<open>p_val_fuel\<close> below shows that more fuel does not
  change the result.
\<close>

fun p_val :: "nat \<Rightarrow> bytes \<Rightarrow> (json \<times> bytes) option"
and p_elems :: "nat \<Rightarrow> bytes \<Rightarrow> (json list \<times> bytes) option"
and p_members :: "nat \<Rightarrow> bytes \<Rightarrow> ((bytes \<times> json) list \<times> bytes) option" where
  "p_val 0 s = None"
| "p_val (Suc n) s =
     (case skip_ws s of
        [] \<Rightarrow> None
      | b # bs \<Rightarrow>
          if b = 123 then
            (case skip_ws bs of
               [] \<Rightarrow> None
             | c # cs \<Rightarrow> if c = 125 then Some (JObj [], cs)
                         else map_option (map_prod JObj id) (p_members n bs))
          else if b = 91 then
            (case skip_ws bs of
               [] \<Rightarrow> None
             | c # cs \<Rightarrow> if c = 93 then Some (JArr [], cs)
                         else map_option (map_prod JArr id) (p_elems n bs))
          else if b = 34 then map_option (map_prod (\<lambda>r. JStr (unquote r)) id) (lex_str bs)
          else if b = 116 \<and> take 3 bs = [114, 117, 101] then Some (JBool True, drop 3 bs)
          else if b = 102 \<and> take 4 bs = [97, 108, 115, 101] then Some (JBool False, drop 4 bs)
          else if b = 110 \<and> take 3 bs = [117, 108, 108] then Some (JNull, drop 3 bs)
          else map_option (map_prod JNum id) (lex_num (b # bs)))"
| "p_elems 0 s = None"
| "p_elems (Suc n) s =
     (case p_val n s of
        None \<Rightarrow> None
      | Some (v, r) \<Rightarrow>
          (case skip_ws r of
             [] \<Rightarrow> None
           | c # cs \<Rightarrow> if c = 44 then map_option (map_prod (\<lambda>vs. v # vs) id) (p_elems n cs)
                       else if c = 93 then Some ([v], cs) else None))"
| "p_members 0 s = None"
| "p_members (Suc n) s =
     (case skip_ws s of
        [] \<Rightarrow> None
      | q # bs \<Rightarrow>
          if q \<noteq> 34 then None
          else (case lex_str bs of
             None \<Rightarrow> None
           | Some (k, r) \<Rightarrow>
               (case skip_ws r of
                  [] \<Rightarrow> None
                | c # r1 \<Rightarrow>
                    if c \<noteq> 58 then None
                    else (case p_val n r1 of
                       None \<Rightarrow> None
                     | Some (v, r2) \<Rightarrow>
                         (case skip_ws r2 of
                            [] \<Rightarrow> None
                          | d # r3 \<Rightarrow>
                              if d = 44 then
                                map_option (map_prod (\<lambda>ms. (unquote k, v) # ms) id) (p_members n r3)
                              else if d = 125 then Some ([(unquote k, v)], r3) else None)))))"

definition parse_json :: "bytes \<Rightarrow> json option" where
  "parse_json s =
     (case p_val (Suc (2 * length s)) s of
        Some (v, r) \<Rightarrow> if skip_ws r = [] then Some v else None
      | None \<Rightarrow> None)"

subsubsection \<open>Enough fuel\<close>

lemma lex_str_length: "lex_str s = Some (r, rest) \<Longrightarrow> length rest < length s"
  by (induction s arbitrary: r rest rule: lex_str.induct)
     (fastforce split: if_splits list.splits)+

lemma skip_ws_length [simp]: "length (skip_ws s) \<le> length s"
  by (simp add: skip_ws_def length_dropWhile_le)

lemma skip_ws_Cons_length: "skip_ws s = b # bs \<Longrightarrow> length bs < length s"
  using skip_ws_length [of s] by simp

lemma take_digits_length: "length (snd (take_digits s)) \<le> length s"
  by (simp add: take_digits_def length_dropWhile_le)

lemma lex_int_part_length: "lex_int_part s = Some (a, r) \<Longrightarrow> length r < length s"
  by (auto simp: lex_int_part_def take_digits_def length_dropWhile_le le_imp_less_Suc
      split: list.splits if_splits)

lemma lex_frac_length: "lex_frac s = Some (a, r) \<Longrightarrow> length r \<le> length s"
  by (auto simp: lex_frac_def take_digits_def length_dropWhile_le le_SucI
      split: list.splits if_splits)

lemma lex_exp_length: "lex_exp s = Some (a, r) \<Longrightarrow> length r \<le> length s"
  by (auto simp: lex_exp_def take_digits_def Let_def length_dropWhile_le le_SucI
      split: list.splits if_splits)

lemma lex_num_length: "lex_num s = Some (a, r) \<Longrightarrow> length r < length s"
  by (fastforce simp: lex_num_def Let_def
      dest!: lex_int_part_length lex_frac_length lex_exp_length
      split: list.splits if_splits option.splits)

lemma p_length:
  shows "p_val n s = Some (v, r) \<Longrightarrow> length r < length s"
    and "p_elems n s = Some (vs, r) \<Longrightarrow> length r < length s"
    and "p_members n s = Some (ms, r) \<Longrightarrow> length r < length s"
proof (induction n arbitrary: s v vs ms r)
  case (Suc n)
  { case 1
    then show ?case
      by (fastforce dest!: skip_ws_Cons_length lex_str_length lex_num_length Suc.IH
          split: list.splits if_splits)
  next
    case 2
    then show ?case
      by (fastforce dest!: skip_ws_Cons_length Suc.IH split: list.splits if_splits option.splits)
  next
    case 3
    then show ?case
      by (fastforce dest!: skip_ws_Cons_length lex_str_length Suc.IH
          split: list.splits if_splits option.splits)
  }
qed simp_all

lemma p_fuel:
  shows "2 * length s < n \<Longrightarrow> 2 * length s < m \<Longrightarrow> p_val n s = p_val m s"
    and "2 * length s + 1 < n \<Longrightarrow> 2 * length s + 1 < m \<Longrightarrow> p_elems n s = p_elems m s"
    and "2 * length s + 1 < n \<Longrightarrow> 2 * length s + 1 < m \<Longrightarrow> p_members n s = p_members m s"
proof (induction n arbitrary: m s)
  case (Suc n)
  { case 1
    then obtain k where m: "m = Suc k" by (cases m) auto
    have "p_members n bs = p_members k bs \<and> p_elems n bs = p_elems k bs"
      if "skip_ws s = b # bs" for b bs
      using skip_ws_Cons_length [OF that] 1 m by (intro conjI Suc.IH) auto
    then show ?case by (auto simp: m split: list.split)
  next
    case 2
    then obtain k where m: "m = Suc k" by (cases m) auto
    have "p_val n s = p_val k s" using 2 m by (intro Suc.IH) auto
    moreover have "p_elems n cs = p_elems k cs"
      if "p_val k s = Some (v, r)" and "skip_ws r = c # cs" for v r c cs
      using p_length(1) [OF that(1)] skip_ws_Cons_length [OF that(2)] 2 m
      by (intro Suc.IH) auto
    ultimately show ?case by (auto simp: m split: list.split option.split)
  next
    case 3
    then obtain k where m: "m = Suc k" by (cases m) auto
    have val: "p_val n r1 = p_val k r1"
      if "skip_ws s = q # bs" and "lex_str bs = Some (x, r)" and "skip_ws r = c # r1" for q bs x r c r1
      using skip_ws_Cons_length [OF that(1)] lex_str_length [OF that(2)]
        skip_ws_Cons_length [OF that(3)] 3 m
      by (intro Suc.IH) auto
    have mem: "p_members n r3 = p_members k r3"
      if "skip_ws s = q # bs" and "lex_str bs = Some (x, r)" and "skip_ws r = c # r1"
        and "p_val k r1 = Some (v, r2)" and "skip_ws r2 = d # r3" for q bs x r c r1 v r2 d r3
      using skip_ws_Cons_length [OF that(1)] lex_str_length [OF that(2)]
        skip_ws_Cons_length [OF that(3)] p_length(1) [OF that(4)] skip_ws_Cons_length [OF that(5)]
        3 m
      by (intro Suc.IH) auto
    show ?case by (auto simp: m val mem split: list.split option.split)
  }
qed simp_all

lemmas p_val_fuel = p_fuel(1)

subsection \<open>Decoding into fields\<close>

definition json_syntax_err :: go_err where "json_syntax_err = ErrNew ''json: syntax error''"
definition json_type_err :: go_err where "json_type_err = ErrNew ''json: cannot unmarshal''"
definition b64_err :: go_err where "b64_err = ErrNew ''illegal base64 data''"

definition digits_val :: "bytes \<Rightarrow> nat option" where
  "digits_val s =
     (if s \<noteq> [] \<and> list_all is_digit s then Some (foldl (\<lambda>n d. n * 10 + (unat d - 48)) 0 s) else None)"

definition json_int :: "bytes \<Rightarrow> int option" where
  "json_int raw =
     (case raw of
        [] \<Rightarrow> None
      | b # bs \<Rightarrow> if b = 45 then map_option (\<lambda>n. - int n) (digits_val bs)
                  else map_option int (digits_val raw))"

definition int64_range :: "int \<Rightarrow> bool" where
  "int64_range i = (- (2 ^ 63) \<le> i \<and> i < 2 ^ 63)"

definition dec_int :: "json \<Rightarrow> int \<Rightarrow> go_err option \<times> int" where
  "dec_int v old =
     (case v of
        JNull \<Rightarrow> (None, old)
      | JNum raw \<Rightarrow>
          (case json_int raw of
             Some i \<Rightarrow> if int64_range i then (None, i) else (Some json_type_err, old)
           | None \<Rightarrow> (Some json_type_err, old))
      | _ \<Rightarrow> (Some json_type_err, old))"

definition dec_u8 :: "json \<Rightarrow> go_err option \<times> byte" where
  "dec_u8 v =
     (case v of
        JNull \<Rightarrow> (None, 0)
      | JNum raw \<Rightarrow>
          (case digits_val raw of
             Some n \<Rightarrow> if n < 256 then (None, of_nat n) else (Some json_type_err, 0)
           | None \<Rightarrow> (Some json_type_err, 0))
      | _ \<Rightarrow> (Some json_type_err, 0))"

definition first_err :: "go_err option \<Rightarrow> go_err option \<Rightarrow> go_err option" where
  "first_err a b = (case a of Some e \<Rightarrow> Some e | None \<Rightarrow> b)"

definition dec_bytes :: "json \<Rightarrow> bytes \<Rightarrow> go_err option \<times> bytes" where
  "dec_bytes v old =
     (case v of
        JNull \<Rightarrow> (None, [])
      | JStr s \<Rightarrow> (case b64_decode s of Some b \<Rightarrow> (None, b) | None \<Rightarrow> (Some b64_err, old))
      | JArr vs \<Rightarrow> (foldr (\<lambda>x e. first_err (fst (dec_u8 x)) e) vs None, map (\<lambda>x. snd (dec_u8 x)) vs)
      | _ \<Rightarrow> (Some json_type_err, old))"

text \<open>
  Field names match case-insensitively under Unicode simple folding, where the long s
  (U+017F) folds to \<open>S\<close> and the Kelvin sign (U+212A) to \<open>K\<close>.
\<close>

fun fold_name :: "bytes \<Rightarrow> bytes" where
  "fold_name (a # b # c # bs) =
     (if a = 226 \<and> b = 132 \<and> c = 170 then 75 # fold_name bs
      else if a = 197 \<and> b = 191 then 83 # fold_name (c # bs)
      else (if 97 \<le> a \<and> a \<le> 122 then a - 32 else a) # fold_name (b # c # bs))"
| "fold_name [a, b] =
     (if a = 197 \<and> b = 191 then [83]
      else [if 97 \<le> a \<and> a \<le> 122 then a - 32 else a, if 97 \<le> b \<and> b \<le> 122 then b - 32 else b])"
| "fold_name [a] = [if 97 \<le> a \<and> a \<le> 122 then a - 32 else a]"
| "fold_name [] = []"

definition field_is :: "string \<Rightarrow> bytes \<Rightarrow> bool" where
  "field_is name key = (fold_name key = fold_name (bytes_of name))"

text \<open>
  \<open>json.Unmarshal\<close> into a struct: \<open>setf\<close> stores one member and reports its error.
\<close>

definition dec_members ::
  "(bytes \<Rightarrow> json \<Rightarrow> 's \<Rightarrow> go_err option \<times> 's) \<Rightarrow> (bytes \<times> json) list \<Rightarrow>
   go_err option \<times> 's \<Rightarrow> go_err option \<times> 's" where
  "dec_members setf ms =
     fold (\<lambda>(k, v) (e, s). let (e', s') = setf k v s in (first_err e e', s')) ms"

definition unmarshal ::
  "(bytes \<Rightarrow> json \<Rightarrow> 's \<Rightarrow> go_err option \<times> 's) \<Rightarrow> 's \<Rightarrow> bytes \<Rightarrow> 's result" where
  "unmarshal setf s0 data =
     (case parse_json data of
        None \<Rightarrow> Inl json_syntax_err
      | Some JNull \<Rightarrow> Inr s0
      | Some (JObj ms) \<Rightarrow>
          (case dec_members setf ms (None, s0) of (None, s) \<Rightarrow> Inr s | (Some e, _) \<Rightarrow> Inl e)
      | Some _ \<Rightarrow> Inl json_type_err)"

subsection \<open>Marshalled text parses back\<close>

text \<open>
  The texts \<open>Marshal\<close> writes here are objects of plain strings (no quote, backslash, control
  or non-ASCII byte) and integers.
\<close>

definition plain_str :: "bytes \<Rightarrow> bool" where
  "plain_str s = (\<forall>b \<in> set s. 32 \<le> b \<and> b < 128 \<and> b \<noteq> 34 \<and> b \<noteq> 92)"

definition quoted :: "bytes \<Rightarrow> bytes" where
  "quoted s = 34 # s @ [34]"

lemma plain_str_Cons [simp]:
  "plain_str (b # s) \<longleftrightarrow> 32 \<le> b \<and> b < 128 \<and> b \<noteq> 34 \<and> b \<noteq> 92 \<and> plain_str s"
  by (auto simp: plain_str_def)

lemma plain_str_Nil [simp]: "plain_str []"
  by (simp add: plain_str_def)

lemma plain_str_b64 [simp]: "plain_str (b64_encode bs)"
  unfolding plain_str_def using b64_encode_safe b64_safe_range by blast

lemma lex_str_plain: "plain_str s \<Longrightarrow> lex_str (s @ 34 # rest) = Some (s, rest)"
proof (induction s)
  case (Cons b s)
  then have "\<not> b < 32" by (simp add: not_less)
  with Cons show ?case by simp
qed simp

lemma unquote_plain: "plain_str s \<Longrightarrow> unquote s = s"
  by (induction s) (auto simp: unquote.simps(2))

lemma skip_ws_Cons [simp]: "skip_ws (b # bs) = (if is_ws b then skip_ws bs else b # bs)"
  by (simp add: skip_ws_def)

lemma skip_ws_Nil [simp]: "skip_ws [] = []"
  by (simp add: skip_ws_def)

lemma not_ws [simp]:
  "\<not> is_ws 34" "\<not> is_ws 123" "\<not> is_ws 125" "\<not> is_ws 58" "\<not> is_ws 44" "\<not> is_ws 91" "\<not> is_ws 93"
  by (simp_all add: is_ws_def)

lemma p_val_quoted: "plain_str s \<Longrightarrow> p_val (Suc n) (quoted s @ rest) = Some (JStr s, rest)"
  by (simp add: quoted_def lex_str_plain unquote_plain)

lemma p_members_last:
  assumes "plain_str k" and "p_val n (v @ 125 # rest) = Some (j, 125 # rest)"
  shows "p_members (Suc n) (quoted k @ 58 # v @ 125 # rest) = Some ([(k, j)], rest)"
  using assms by (simp add: quoted_def lex_str_plain unquote_plain)

lemma p_members_more:
  assumes "plain_str k" and "p_val n (v @ 44 # rest) = Some (j, 44 # rest)"
  shows "p_members (Suc n) (quoted k @ 58 # v @ 44 # rest)
    = map_option (map_prod (\<lambda>ms. (k, j) # ms) id) (p_members n rest)"
  using assms by (simp add: quoted_def lex_str_plain unquote_plain)

lemma p_val_object:
  assumes "p_members n (34 # s) = Some (ms, rest)"
  shows "p_val (Suc n) (123 # 34 # s) = Some (JObj ms, rest)"
  using assms by simp

subsubsection \<open>Integers\<close>

lemma digit_byte: "d < 10 \<Longrightarrow> is_digit (byte_of (char_of (48 + d))) \<and> unat (byte_of (char_of (48 + d))) = 48 + d"
  by (simp add: is_digit_def byte_of_def word_le_nat_alt unat_of_nat del: of_nat_add)

lemma show_nat_digits: "list_all is_digit (bytes_of (show_nat n))"
proof (induction n rule: show_nat.induct)
  case (1 n)
  then show ?case
    by (subst show_nat.simps) (auto simp: bytes_of_def digit_byte)
qed

lemma show_nat_val: "foldl (\<lambda>n d. n * 10 + (unat d - 48)) 0 (bytes_of (show_nat n)) = n"
proof (induction n rule: show_nat.induct)
  case (1 n)
  then show ?case
    by (subst show_nat.simps) (auto simp: bytes_of_def digit_byte)
qed

lemma digits_val_show_nat: "digits_val (bytes_of (show_nat n)) = Some n"
  using show_nat_digits show_nat_val by (simp add: digits_val_def bytes_of_def)

lemma show_nat_head: "0 < n \<Longrightarrow> hd (bytes_of (show_nat n)) \<noteq> 48"
proof (induction n rule: show_nat.induct)
  case (1 n)
  show ?case
  proof (cases "n < 10")
    case True
    then have "unat (byte_of (char_of (48 + n))) = 48 + n" using digit_byte by blast
    with True 1 show ?thesis by (subst show_nat.simps) (auto simp: bytes_of_def)
  next
    case False
    with 1 have "hd (bytes_of (show_nat (n div 10))) \<noteq> 48" by auto
    with False show ?thesis
      by (subst show_nat.simps) (auto simp: bytes_of_def hd_append)
  qed
qed

lemma json_int_show_int: "json_int (bytes_of (show_int i)) = Some i"
proof (cases "i < 0")
  case True
  have "byte_of CHR ''-'' = 45" by (simp add: byte_of_def)
  with True show ?thesis
    by (simp add: json_int_def show_int_def digits_val_show_nat [unfolded bytes_of_def] bytes_of_def)
next
  case False
  obtain b bs where b: "bytes_of (show_nat (nat i)) = b # bs"
    by (cases "bytes_of (show_nat (nat i))") (auto simp: bytes_of_def)
  have "is_digit b" using show_nat_digits [of "nat i"] b by simp
  then have "b \<noteq> 45" by (auto simp: is_digit_def)
  with False b show ?thesis
    using digits_val_show_nat [of "nat i"] by (simp add: json_int_def show_int_def)
qed

definition num_end :: "byte \<Rightarrow> bool" where
  "num_end c = (\<not> is_digit c \<and> c \<noteq> 46 \<and> c \<noteq> 101 \<and> c \<noteq> 69)"

lemma lex_frac_exp_end: "num_end c \<Longrightarrow> lex_frac (c # r) = Some ([], c # r) \<and> lex_exp (c # r) = Some ([], c # r)"
  by (auto simp: num_end_def lex_frac_def lex_exp_def split: list.split)

lemma lex_int_part_show:
  assumes "num_end c"
  shows "lex_int_part (bytes_of (show_nat n) @ c # r) = Some (bytes_of (show_nat n), c # r)"
proof (cases "n = 0")
  case True
  have "bytes_of (show_nat 0) = [48]" by (simp add: show_nat.simps bytes_of_def byte_of_def)
  with True show ?thesis by (simp add: lex_int_part_def)
next
  case False
  obtain b bs where b: "bytes_of (show_nat n) = b # bs"
    by (cases "bytes_of (show_nat n)") (auto simp: bytes_of_def)
  have "b \<noteq> 48" using False show_nat_head [of n] b by simp
  moreover have dig: "list_all is_digit (b # bs)" using show_nat_digits [of n] b by simp
  moreover have "take_digits (b # bs @ c # r) = (b # bs, c # r)"
  proof -
    have "takeWhile is_digit ((b # bs) @ c # r) = b # bs"
      using dig assms by (subst takeWhile_append2) (auto simp: list_all_iff num_end_def)
    moreover have "dropWhile is_digit ((b # bs) @ c # r) = c # r"
      using dig assms by (subst dropWhile_append2) (auto simp: list_all_iff num_end_def)
    ultimately show ?thesis by (simp add: take_digits_def)
  qed
  ultimately show ?thesis by (simp add: lex_int_part_def b)
qed

lemma lex_num_show_int:
  assumes "num_end c"
  shows "lex_num (bytes_of (show_int i) @ c # r) = Some (bytes_of (show_int i), c # r)"
proof (cases "i < 0")
  case True
  have "byte_of CHR ''-'' = 45" by (simp add: byte_of_def)
  with True show ?thesis
    using lex_int_part_show [OF assms, of "nat (- i)" r] lex_frac_exp_end [OF assms, of r]
    by (simp add: lex_num_def show_int_def bytes_of_def)
next
  case False
  obtain b bs where b: "bytes_of (show_nat (nat i)) = b # bs"
    by (cases "bytes_of (show_nat (nat i))") (auto simp: bytes_of_def)
  have "is_digit b" using show_nat_digits [of "nat i"] b by simp
  then have "b \<noteq> 45" by (auto simp: is_digit_def)
  with False b show ?thesis
    using lex_int_part_show [OF assms, of "nat i" r] lex_frac_exp_end [OF assms, of r]
    by (simp add: lex_num_def show_int_def)
qed

lemma show_int_head:
  obtains b bs where "bytes_of (show_int i) = b # bs" and "b = 45 \<or> is_digit b"
proof (cases "i < 0")
  case True
  have "byte_of CHR ''-'' = 45" by (simp add: byte_of_def)
  with True that show ?thesis by (simp add: show_int_def bytes_of_def)
next
  case False
  obtain b bs where b: "bytes_of (show_nat (nat i)) = b # bs"
    by (cases "bytes_of (show_nat (nat i))") (auto simp: bytes_of_def)
  with show_nat_digits [of "nat i"] have "is_digit b" by simp
  with False b that show ?thesis by (simp add: show_int_def)
qed

lemma p_val_int:
  assumes "num_end c"
  shows "p_val (Suc n) (bytes_of (show_int i) @ c # r) = Some (JNum (bytes_of (show_int i)), c # r)"
proof -
  obtain b bs where b: "bytes_of (show_int i) = b # bs" and h: "b = 45 \<or> is_digit b"
    by (rule show_int_head)
  from h have "\<not> is_ws b" "b \<notin> set [123, 91, 34, 116, 102, 110]"
    by (auto simp: is_ws_def is_digit_def)
  then show ?thesis using lex_num_show_int [OF assms, of i r] by (simp add: b)
qed

lemma dec_int_show_int: "int64_range i \<Longrightarrow> dec_int (JNum (bytes_of (show_int i))) old = (None, i)"
  by (simp add: dec_int_def json_int_show_int)

lemma dec_bytes_b64: "dec_bytes (JStr (b64_encode b)) old = (None, b)"
  by (simp add: dec_bytes_def)

declare p_val.simps(2) [simp del] p_elems.simps(2) [simp del] p_members.simps(2) [simp del] utf8_len.simps(2) [simp del]

end
