(* ===== verification/Fsm_Apply.thy ===== *)
theory Fsm_Apply
  imports Fsm_Store Go_Json
begin

text \<open>
  \<open>src/fsm/apply.go\<close>: the commands of the replicated log and their execution on the store,
  and the marshalling of those commands that \<open>src/engine/kv.go\<close> does before it hands them to
  Raft. The lemmas give the meaning of every branch of \<open>applyCommand\<close> on the map the store
  presents, for any JSON text.
\<close>

subsection \<open>Commands\<close>

definition Query :: int where "Query = 0"
definition Insert :: int where "Insert = 1"

record Command =
  cmd_Type :: int
  cmd_Payload :: bytes

record SetPayload =
  sp_Key :: bytes
  sp_Value :: bytes

record CommandResponse =
  resp_Val :: bytes
  resp_Error :: "go_err option"

definition set_Command_field :: "bytes \<Rightarrow> json \<Rightarrow> Command \<Rightarrow> go_err option \<times> Command" where
  "set_Command_field k v c =
     (if field_is ''type'' k then map_prod id (\<lambda>x. c\<lparr>cmd_Type := x\<rparr>) (dec_int v (cmd_Type c))
      else if field_is ''payload'' k then map_prod id (\<lambda>x. c\<lparr>cmd_Payload := x\<rparr>) (dec_bytes v (cmd_Payload c))
      else (None, c))"

definition set_SetPayload_field :: "bytes \<Rightarrow> json \<Rightarrow> SetPayload \<Rightarrow> go_err option \<times> SetPayload" where
  "set_SetPayload_field k v p =
     (if field_is ''key'' k then map_prod id (\<lambda>x. p\<lparr>sp_Key := x\<rparr>) (dec_bytes v (sp_Key p))
      else if field_is ''val'' k then map_prod id (\<lambda>x. p\<lparr>sp_Value := x\<rparr>) (dec_bytes v (sp_Value p))
      else (None, p))"

definition unmarshal_Command :: "bytes \<Rightarrow> Command result" where
  "unmarshal_Command = unmarshal set_Command_field \<lparr>cmd_Type = 0, cmd_Payload = []\<rparr>"

definition unmarshal_SetPayload :: "bytes \<Rightarrow> SetPayload result" where
  "unmarshal_SetPayload = unmarshal set_SetPayload_field \<lparr>sp_Key = [], sp_Value = []\<rparr>"

definition marshal_Command :: "Command \<Rightarrow> bytes" where
  "marshal_Command c =
     123 # quoted (bytes_of ''type'') @ 58 # bytes_of (show_int (cmd_Type c)) @
     44 # quoted (bytes_of ''payload'') @ 58 # quoted (b64_encode (cmd_Payload c)) @ [125]"

definition marshal_SetPayload :: "SetPayload \<Rightarrow> bytes" where
  "marshal_SetPayload p =
     123 # quoted (bytes_of ''key'') @ 58 # quoted (b64_encode (sp_Key p)) @
     44 # quoted (bytes_of ''val'') @ 58 # quoted (b64_encode (sp_Value p)) @ [125]"

subsection \<open>Execution\<close>

definition store_query ::
  "('db, 'b) pebble \<Rightarrow> store \<Rightarrow> bytes \<Rightarrow> 'db world \<Rightarrow> bytes \<times> go_err option" where
  "store_query P s key w =
     (if isclosed s then ([], Some ErrClosed)
      else case getBytes P s (buildColumnFamilyKey (getColumnFamily cf_default) key) w of
             (d, Some e) \<Rightarrow> ([], Some e)
           | (d, None) \<Rightarrow> (d, None))"

text \<open>\<open>insert\<close> ignores the error of \<open>batch.Set\<close> and returns that of the commit.\<close>

definition store_insert ::
  "('db, 'b) pebble \<Rightarrow> store \<Rightarrow> bytes \<Rightarrow> 'db world \<Rightarrow> go_err option \<times> 'db world" where
  "store_insert P s data w =
     (case unmarshal_SetPayload data of
        Inl e \<Rightarrow> (Some (Errorf ''Could not parse payload: %s'' [AErr e]), w)
      | Inr sp \<Rightarrow>
          (case store_batch P s w of
             None \<Rightarrow> (Some db_panic, w)
           | Some b \<Rightarrow>
               (case pb_set P b (buildColumnFamilyKey (getColumnFamily cf_default) (sp_Key sp)) (sp_Value sp) of
                  (_, b') \<Rightarrow> store_write P s b' w)))"

definition applyCommand ::
  "('db, 'b) pebble \<Rightarrow> store \<Rightarrow> bytes \<Rightarrow> 'db world \<Rightarrow> CommandResponse \<times> 'db world" where
  "applyCommand P s data w =
     (case unmarshal_Command data of
        Inl e \<Rightarrow> (\<lparr>resp_Val = [], resp_Error = Some e\<rparr>, w)
      | Inr c \<Rightarrow>
          if cmd_Type c = Query then
            (case store_query P s (cmd_Payload c) w of
               (val, e) \<Rightarrow> (\<lparr>resp_Val = val, resp_Error = e\<rparr>, w))
          else if cmd_Type c = Insert then
            (case store_insert P s (cmd_Payload c) w of
               (e, w1) \<Rightarrow> (\<lparr>resp_Val = [], resp_Error = e\<rparr>, w1))
          else (\<lparr>resp_Val = [], resp_Error = Some (ErrNew ''command is undefined'')\<rparr>, w))"

subsection \<open>Marshalled commands are read back\<close>

lemma num_end_comma: "num_end 44"
  by (simp add: num_end_def is_digit_def)

lemma plain_field_names [simp]:
  "plain_str (bytes_of ''type'')" "plain_str (bytes_of ''payload'')"
  "plain_str (bytes_of ''key'')" "plain_str (bytes_of ''val'')"
  by (simp_all add: bytes_of_def byte_of_def)

lemma field_is_same [simp]: "field_is s (bytes_of s)"
  by (simp add: field_is_def)

lemma field_is_other [simp]:
  "\<not> field_is ''type'' (bytes_of ''payload'')" "\<not> field_is ''key'' (bytes_of ''val'')"
  by (simp_all add: field_is_def bytes_of_def byte_of_def)

lemma parse_object2:
  assumes k1: "plain_str k1" and k2: "plain_str k2"
    and v1: "\<And>n r. p_val (Suc n) (v1 @ 44 # r) = Some (j1, 44 # r)"
    and v2: "\<And>n r. p_val (Suc n) (v2 @ 125 # r) = Some (j2, 125 # r)"
  shows "parse_json (123 # quoted k1 @ 58 # v1 @ 44 # quoted k2 @ 58 # v2 @ [125])
    = Some (JObj [(k1, j1), (k2, j2)])"
proof -
  let ?s = "123 # quoted k1 @ 58 # v1 @ 44 # quoted k2 @ 58 # v2 @ [125]"
  obtain m where m: "2 * length ?s = Suc (Suc (Suc m))"
    by (auto simp: quoted_def numeral_eq_Suc)
  have "p_members (Suc (Suc m)) (quoted k2 @ 58 # v2 @ 125 # []) = Some ([(k2, j2)], [])"
    by (rule p_members_last [OF k2 v2])
  then have "p_members (Suc (Suc (Suc m))) (quoted k1 @ 58 # v1 @ 44 # quoted k2 @ 58 # v2 @ [125])
      = Some ([(k1, j1), (k2, j2)], [])"
    by (subst p_members_more [OF k1 v1]) simp
  then have "p_val (Suc (2 * length ?s)) ?s = Some (JObj [(k1, j1), (k2, j2)], [])"
    unfolding m by (simp add: quoted_def p_val.simps(2))
  then show ?thesis by (simp add: parse_json_def)
qed

lemma p_val_quoted_end:
  "plain_str s \<Longrightarrow> p_val (Suc n) (quoted s @ c # r) = Some (JStr s, c # r)"
  by (rule p_val_quoted)

lemma unmarshal_marshal_Command [go_simps]:
  assumes "int64_range (cmd_Type c)"
  shows "unmarshal_Command (marshal_Command c) = Inr c"
proof -
  have "parse_json (marshal_Command c) =
      Some (JObj [(bytes_of ''type'', JNum (bytes_of (show_int (cmd_Type c)))),
                  (bytes_of ''payload'', JStr (b64_encode (cmd_Payload c)))])"
    unfolding marshal_Command_def
    by (rule parse_object2) (simp_all add: p_val_int num_end_comma p_val_quoted_end)
  then show ?thesis
    using assms
    by (simp add: unmarshal_Command_def unmarshal_def dec_members_def set_Command_field_def
        dec_int_show_int dec_bytes_b64 first_err_def)
qed

lemma unmarshal_marshal_SetPayload [go_simps]:
  "unmarshal_SetPayload (marshal_SetPayload p) = Inr p"
proof -
  have "parse_json (marshal_SetPayload p) =
      Some (JObj [(bytes_of ''key'', JStr (b64_encode (sp_Key p))),
                  (bytes_of ''val'', JStr (b64_encode (sp_Value p)))])"
    unfolding marshal_SetPayload_def
    by (rule parse_object2) (simp_all add: p_val_quoted_end)
  then show ?thesis
    by (simp add: unmarshal_SetPayload_def unmarshal_def dec_members_def set_SetPayload_field_def
        dec_bytes_b64 first_err_def)
qed

text \<open>The command \<open>raftServer.Apply\<close> proposes for a key and a value.\<close>

definition insert_command :: "string \<Rightarrow> string \<Rightarrow> bytes" where
  "insert_command key val =
     marshal_Command \<lparr>cmd_Type = Insert,
       cmd_Payload = marshal_SetPayload \<lparr>sp_Key = bytes_of key, sp_Value = bytes_of val\<rparr>\<rparr>"

lemma unmarshal_insert_command [go_simps]:
  "unmarshal_Command (insert_command key val) =
     Inr \<lparr>cmd_Type = Insert,
          cmd_Payload = marshal_SetPayload \<lparr>sp_Key = bytes_of key, sp_Value = bytes_of val\<rparr>\<rparr>"
  by (simp add: insert_command_def go_simps Insert_def int64_range_def)

subsection \<open>Commands on a map\<close>

text \<open>
  What a command promises, without a store: the response and the map afterwards. A query of a key
  that is absent and of one that holds the empty value answer alike.
\<close>

definition spec_apply :: "bytes \<Rightarrow> kvmap \<Rightarrow> CommandResponse \<times> kvmap" where
  "spec_apply data m =
     (case unmarshal_Command data of
        Inl e \<Rightarrow> (\<lparr>resp_Val = [], resp_Error = Some e\<rparr>, m)
      | Inr c \<Rightarrow>
          if cmd_Type c = Query then
            (\<lparr>resp_Val = (case m (cmd_Payload c) of Some v \<Rightarrow> v | None \<Rightarrow> []), resp_Error = None\<rparr>, m)
          else if cmd_Type c = Insert then
            (case unmarshal_SetPayload (cmd_Payload c) of
               Inl e \<Rightarrow> (\<lparr>resp_Val = [], resp_Error = Some (Errorf ''Could not parse payload: %s'' [AErr e])\<rparr>, m)
             | Inr sp \<Rightarrow> (\<lparr>resp_Val = [], resp_Error = None\<rparr>, m(sp_Key sp \<mapsto> sp_Value sp)))
          else (\<lparr>resp_Val = [], resp_Error = Some (ErrNew ''command is undefined'')\<rparr>, m))"

lemma spec_apply_insert_command [go_simps]:
  "spec_apply (insert_command key val) m =
     (\<lparr>resp_Val = [], resp_Error = None\<rparr>, m(bytes_of key \<mapsto> bytes_of val))"
  by (simp add: spec_apply_def go_simps Insert_def Query_def)

text \<open>What a write to the open database of a store leaves alone.\<close>

lemma db_store_touches: "touches {k} w (db_store k db w)"
  unfolding db_store_def by (rule touches_set_nodes) simp

lemma store_write_touches: "store_write P s b w = (e, w') \<Longrightarrow> touches {st_db s} w w'"
  by (auto simp: store_write_def db_store_touches split: option.splits prod.splits)

lemma store_insert_touches: "store_insert P s d w = (e, w') \<Longrightarrow> touches {st_db s} w w'"
  by (auto simp: store_insert_def dest: store_write_touches split: sum.splits option.splits prod.splits)

lemma applyCommand_touches: "applyCommand P s d w = (r, w') \<Longrightarrow> touches {st_db s} w w'"
  by (auto simp: applyCommand_def dest: store_insert_touches split: sum.splits if_splits prod.splits)

lemma kv_of_store:
  "st_db s \<in> set (w_open w) \<Longrightarrow>
   kv_of view s (db_store (st_db s) db w) = (\<lambda>k. view db (buildColumnFamilyKey 1 k))"
  by (simp add: kv_of_def)

context pebble_live
begin

lemma getBytes_live:
  assumes "\<not> st_closed s" and "db_load (st_db s) w = Some db"
  shows "getBytes P s key w = (case view db key of Some v \<Rightarrow> v | None \<Rightarrow> [], None)"
  using assms by (auto simp: getBytes_def get_none_live get_some_live closer_live split: option.split)

lemma store_query_live:
  assumes "\<not> st_closed s" and "store_ok s w"
  shows "store_query P s key w = (case kv_of view s w key of Some v \<Rightarrow> v | None \<Rightarrow> [], None)"
  using assms by (auto simp: store_query_def isclosed_def store_ok_def getBytes_live kv_of_def)

lemma store_insert_live:
  assumes "\<not> st_closed s" and "store_ok s w" and "unmarshal_SetPayload d = Inr sp"
  shows "\<exists>w'. store_insert P s d w = (None, w') \<and> store_ok s w' \<and>
    kv_of view s w' = (kv_of view s w)(sp_Key sp \<mapsto> sp_Value sp)"
proof -
  obtain db where db: "db_load (st_db s) w = Some db" using assms by (auto simp: store_ok_def)
  let ?k = "buildColumnFamilyKey 1 (sp_Key sp)"
  obtain b where b: "pb_set P (pb_batch P db) ?k (sp_Value sp) = (None, b)" "pend b = [(?k, Some (sp_Value sp))]"
    using set_eq [of "pb_batch P db" ?k "sp_Value sp"] batch_new by auto
  obtain db' where db': "pb_commit P b db = (None, db')" "view db' = (view db)(?k \<mapsto> sp_Value sp)"
    using commit_eq [of b db] b(2) by auto
  have "st_db s \<in> set (w_open w)" by (rule db_load_open [OF db])
  then show ?thesis
    using db b db' assms(3)
    by (auto simp: store_insert_def store_batch_def store_write_def store_ok_def kv_of_store kv_of_def
        buildColumnFamilyKey_def)
qed

lemma applyCommand_refines:
  assumes "\<not> st_closed s" and "store_ok s w" and "applyCommand P s data w = (r, w')"
  shows "store_ok s w' \<and> spec_apply data (kv_of view s w) = (r, kv_of view s w')"
proof (cases "unmarshal_Command data")
  case (Inl e)
  then show ?thesis using assms by (auto simp: applyCommand_def spec_apply_def)
next
  case (Inr c)
  consider "cmd_Type c = Query" | "cmd_Type c = Insert" "cmd_Type c \<noteq> Query"
    | "cmd_Type c \<noteq> Insert" "cmd_Type c \<noteq> Query" by blast
  then show ?thesis
  proof cases
    case 1
    then show ?thesis using assms Inr by (auto simp: applyCommand_def spec_apply_def store_query_live)
  next
    case 2
    show ?thesis
    proof (cases "unmarshal_SetPayload (cmd_Payload c)")
      case (Inl e)
      then show ?thesis using assms Inr 2 by (auto simp: applyCommand_def spec_apply_def store_insert_def)
    next
      case (Inr sp)
      then show ?thesis
        using assms \<open>unmarshal_Command data = Inr c\<close> 2 store_insert_live [OF assms(1,2) Inr]
        by (auto simp: applyCommand_def spec_apply_def)
    qed
  next
    case 3
    then show ?thesis using assms Inr by (auto simp: applyCommand_def spec_apply_def)
  qed
qed

end

lemma applyCommand_closed:
  assumes "st_closed s" and "unmarshal_Command data = Inr c" and "cmd_Type c = Query"
  shows "applyCommand P s data w = (\<lparr>resp_Val = [], resp_Error = Some ErrClosed\<rparr>, w)"
  using assms by (simp add: applyCommand_def store_query_def isclosed_def)

end
