(* ===== verification/Fsm_Restore.thy ===== *)
theory Fsm_Restore
  imports Fsm_Save Fsm_Apply
begin

text \<open>
  What \<open>recoverSnapShot\<close> does: the loop over the records of a snapshot, publishing the new
  database, and the file-system states on the way.
\<close>

declare restore_loop.simps [simp del]

subsection \<open>The loop leaves everything but the new database alone\<close>

lemma wb_Commit_touches:
  "wb_Commit P x w = (x', w') \<Longrightarrow> touches {wb_db x} w w' \<and> wb_db x' = wb_db x \<and>
     (list_all plain_name (wb_db x) \<and> wf_world w \<longrightarrow> wf_world w')"
  by (auto simp: wb_Commit_def db_store_touches db_store_wf split: option.splits prod.splits)

lemma wb_Put_db [simp]: "wb_db (snd (wb_Put P k v x)) = wb_db x"
  by (simp add: wb_Put_def split: prod.split)

definition only_new :: "('db, 'b) restorer \<Rightarrow> ('db, 'b) restorer \<Rightarrow> bool" where
  "only_new st st' \<longleftrightarrow> wb_db (rs_wb st') = wb_db (rs_wb st) \<and>
     touches {wb_db (rs_wb st)} (rs_world st) (rs_world st') \<and>
     (list_all plain_name (wb_db (rs_wb st)) \<and> wf_world (rs_world st) \<longrightarrow> wf_world (rs_world st'))"

lemma only_new_refl [simp]: "only_new st st"
  by (simp add: only_new_def)

lemma only_new_trans: "only_new a b \<Longrightarrow> only_new b c \<Longrightarrow> only_new a c"
  by (auto simp: only_new_def intro: touches_trans)

lemma only_new_update [simp]:
  "only_new (st\<lparr>rs_reader := rd\<rparr>) st' = only_new st st'"
  "only_new (st\<lparr>rs_hash := h\<rparr>) st' = only_new st st'"
  "only_new (st\<lparr>rs_count := c\<rparr>) st' = only_new st st'"
  "only_new st (st'\<lparr>rs_reader := rd\<rparr>) = only_new st st'"
  "only_new st (st'\<lparr>rs_hash := h\<rparr>) = only_new st st'"
  "only_new st (st'\<lparr>rs_count := c\<rparr>) = only_new st st'"
  by (simp_all add: only_new_def)

fun turn_state :: "'st turn \<Rightarrow> 'st" where
  "turn_state (Next st) = st"
| "turn_state (Break st) = st"
| "turn_state (Fail e st) = st"

lemma restore_put_only_new: "only_new st (turn_state (restore_put P k v st))"
  by (auto simp: restore_put_def Let_def only_new_def split: sum.split prod.split dest: wb_Commit_touches)

lemma read_hashed_only_new:
  "(\<And>bs s. only_new s (turn_state (f bs s))) \<Longrightarrow> only_new st (turn_state (read_hashed n f st))"
  unfolding read_hashed_def
  by (auto split: prod.split option.split) (metis only_new_update(1,2))

lemma restore_val_only_new: "only_new st (turn_state (restore_val P k sz st))"
  by (simp add: restore_val_def read_hashed_only_new restore_put_only_new split: sum.split)

lemma restore_turn_only_new: "only_new st (turn_state (restore_turn P st))"
proof -
  have *: "only_new st (turn_state (read_hashed n (\<lambda>k. read_hashed m (restore_val P k)) st))" for n m st
    by (intro read_hashed_only_new restore_val_only_new)
  show ?thesis
    unfolding restore_turn_def Let_def
    using * [where st = "st\<lparr>rs_count := _, rs_reader := _, rs_hash := _\<rparr>"]
    by (auto split: prod.split option.split)
qed

lemma restore_loop_only_new: "restore_loop P st = (r, st') \<Longrightarrow> only_new st st'"
proof (induction P st arbitrary: r rule: restore_loop.induct)
  case (1 P st)
  show ?case
  proof (cases "restore_turn P st")
    case (Next st1)
    then have "only_new st st1" using restore_turn_only_new [of st P] by simp
    moreover have "only_new st1 st'"
      using 1 Next by (simp add: restore_loop.simps [of P st])
    ultimately show ?thesis by (rule only_new_trans)
  qed (use 1(2) restore_turn_only_new [of st P] in \<open>auto simp: restore_loop.simps [of P st]\<close>)
qed

subsection \<open>The loop on whole records\<close>

text \<open>A record on the wire: a key and a compressed value, each behind its length.\<close>

definition raw_record :: "bytes \<times> bytes \<Rightarrow> bytes" where
  "raw_record kz = putUint64 (word_of_nat (length (fst kz))) @ fst kz @
     putUint64 (word_of_nat (length (snd kz))) @ snd kz"

definition raw_records :: "(bytes \<times> bytes) list \<Rightarrow> bytes" where
  "raw_records kzs = concat (map raw_record kzs)"

definition sizes_ok :: "bytes \<times> bytes \<Rightarrow> bool" where
  "sizes_ok kz = (length (fst kz) \<le> 2 ^ 30 \<and> length (snd kz) \<le> maxAlloc)"

lemma raw_records_simps [simp]:
  "raw_records [] = []" "raw_records (kz # kzs) = raw_record kz @ raw_records kzs"
  "raw_records (xs @ ys) = raw_records xs @ raw_records ys"
  by (simp_all add: raw_records_def)

lemma enc_records_raw: "enc_records Z kvs = raw_records (map (\<lambda>(k, v). (k, gz_val Z v)) kvs)"
  by (induction kvs) (auto simp: enc_record_def raw_record_def)

lemma read_hashed_ok:
  assumes "rs_reader st = \<lparr>rd_data = bs @ rest, rd_end = e\<rparr>" and "n = length bs"
  shows "read_hashed n f st =
    f bs (st\<lparr>rs_reader := \<lparr>rd_data = rest, rd_end = e\<rparr>, rs_hash := crc_write (rs_hash st) bs\<rparr>)"
  using assms by (simp add: read_hashed_def)

lemma restore_turn_raw:
  assumes rd: "rs_reader st = \<lparr>rd_data = raw_record (k, z) @ rest, rd_end = e\<rparr>" and sz: "sizes_ok (k, z)"
  shows "restore_turn P st = restore_put P k z
    (st\<lparr>rs_count := rs_count st + 1, rs_reader := \<lparr>rd_data = rest, rd_end = e\<rparr>,
        rs_hash := crc_write (rs_hash st) (raw_record (k, z))\<rparr>)"
proof -
  have lk: "unat (word_of_nat (length k) :: u64) = length k"
    and lz: "unat (word_of_nat (length z) :: u64) = length z"
    using sz by (simp_all add: sizes_ok_def maxAlloc_def unat_of_nat)
  have key: "\<not> push_bit 30 1 < (word_of_nat (length k) :: u64)"
    using sz lk by (simp add: word_less_nat_alt sizes_ok_def)
  have make: "go_make (length z) = Inr (replicate (length z) 0)"
    using sz by (simp add: go_make_def sizes_ok_def)
  show ?thesis
    using rd key make
    by (simp add: restore_turn_def raw_record_def read_hashed_ok [where e = e] lk lz restore_val_def)
qed

text \<open>
  The contents the new database will have once the pending batch is committed. Nothing is pending
  right after a commit.
\<close>

definition restoring ::
  "('db \<Rightarrow> kvmap) \<Rightarrow> ('b \<Rightarrow> batch_op list) \<Rightarrow> kvmap \<Rightarrow> ('db, 'b) restorer \<Rightarrow> bool" where
  "restoring view pend m st \<longleftrightarrow>
     (\<exists>db. db_load (wb_db (rs_wb st)) (rs_world st) = Some db \<and>
        apply_ops (pend (wb_wb (rs_wb st))) (view db) = m) \<and>
     (rs_k st = 0 \<longrightarrow> pend (wb_wb (rs_wb st)) = [])"

lemma restoring_update [simp]:
  "restoring view pend m (st\<lparr>rs_reader := rd\<rparr>) = restoring view pend m st"
  "restoring view pend m (st\<lparr>rs_hash := h\<rparr>) = restoring view pend m st"
  "restoring view pend m (st\<lparr>rs_count := c\<rparr>) = restoring view pend m st"
  by (simp_all add: restoring_def)

context pebble_live
begin

lemma wb_Commit_live:
  assumes "db_load (wb_db x) w = Some db" and "wb_Commit P x w = (x', w')"
  shows "\<exists>db'. db_load (wb_db x) w' = Some db' \<and> view db' = apply_ops (pend (wb_wb x)) (view db) \<and>
    wb_db x' = wb_db x \<and> pend (wb_wb x') = []"
proof -
  obtain db' where "pb_commit P (wb_wb x) db = (None, db')" "view db' = apply_ops (pend (wb_wb x)) (view db)"
    using commit_eq by blast
  with assms show ?thesis
    using db_load_open [OF assms(1)] by (auto simp: wb_Commit_def batch_new)
qed

lemma restore_put_live:
  assumes "restoring view pend m st" and "gzipDecode z = Inr v"
  shows "\<exists>st'. restore_put P k z st = Next st' \<and> restoring view pend (m(k \<mapsto> v)) st' \<and>
    rs_reader st' = rs_reader st \<and> rs_hash st' = rs_hash st \<and> rs_count st' = rs_count st"
proof -
  obtain db where db: "db_load (wb_db (rs_wb st)) (rs_world st) = Some db"
      "apply_ops (pend (wb_wb (rs_wb st))) (view db) = m"
    using assms(1) by (auto simp: restoring_def)
  obtain b where b: "pb_set P (wb_wb (rs_wb st)) k v = (None, b)" "pend b = pend (wb_wb (rs_wb st)) @ [(k, Some v)]"
    using set_eq by blast
  let ?wb = "(rs_wb st)\<lparr>wb_wb := b\<rparr>"
  have put: "snd (wb_Put P k v (rs_wb st)) = ?wb" using b by (simp add: wb_Put_def)
  show ?thesis
  proof (cases "100 \<le> rs_k st + 1")
    case True
    obtain wb w where c: "wb_Commit P ?wb (rs_world st) = (wb, w)" by fastforce
    with db wb_Commit_live [of ?wb "rs_world st" db wb w] True assms(2) put b show ?thesis
      by (auto simp: restore_put_def Let_def restoring_def)
  next
    case False
    with db assms(2) put b show ?thesis
      by (auto simp: restore_put_def Let_def restoring_def)
  qed
qed

lemma restore_loop_records:
  "\<lbrakk>restoring view pend m st; rs_reader st = \<lparr>rd_data = raw_records kzs @ rest, rd_end = e\<rparr>;
    \<forall>kz \<in> set kzs. sizes_ok kz; list_all2 (\<lambda>kz kv. fst kv = fst kz \<and> gzipDecode (snd kz) = Inr (snd kv)) kzs kvs\<rbrakk> \<Longrightarrow>
   \<exists>st'. restore_loop P st = restore_loop P st' \<and> restoring view pend (apply_ops (puts kvs) m) st' \<and>
     rs_reader st' = \<lparr>rd_data = rest, rd_end = e\<rparr> \<and> rs_hash st' = crc_write (rs_hash st) (raw_records kzs) \<and>
     rs_count st' = rs_count st + word_of_nat (length kzs)"
proof (induction kzs arbitrary: kvs st m)
  case Nil
  then show ?case by auto
next
  case (Cons kz kzs)
  obtain k z where kz: "kz = (k, z)" by fastforce
  obtain v kvs' where kvs: "kvs = (k, v) # kvs'" and v: "gzipDecode z = Inr v"
      and rest: "list_all2 (\<lambda>kz kv. fst kv = fst kz \<and> gzipDecode (snd kz) = Inr (snd kv)) kzs kvs'"
    using Cons.prems(4) kz by (cases kvs) auto
  let ?st = "st\<lparr>rs_count := rs_count st + 1, rs_reader := \<lparr>rd_data = raw_records kzs @ rest, rd_end = e\<rparr>,
        rs_hash := crc_write (rs_hash st) (raw_record (k, z))\<rparr>"
  have turn: "restore_turn P st = restore_put P k z ?st"
    using Cons.prems(2,3) kz by (intro restore_turn_raw) simp_all
  obtain st1 where st1: "restore_put P k z ?st = Next st1" "restoring view pend (m(k \<mapsto> v)) st1"
      "rs_reader st1 = rs_reader ?st" "rs_hash st1 = rs_hash ?st" "rs_count st1 = rs_count ?st"
    using restore_put_live [of m ?st z v k] Cons.prems(1) v by auto
  have "restore_loop P st = restore_loop P st1" by (simp add: restore_loop.simps [of P st] turn st1(1))
  moreover have "\<exists>st'. restore_loop P st1 = restore_loop P st' \<and>
     restoring view pend (apply_ops (puts kvs') (m(k \<mapsto> v))) st' \<and>
     rs_reader st' = \<lparr>rd_data = rest, rd_end = e\<rparr> \<and> rs_hash st' = crc_write (rs_hash st1) (raw_records kzs) \<and>
     rs_count st' = rs_count st1 + word_of_nat (length kzs)"
    by (rule Cons.IH [OF st1(2) _ _ rest]) (use st1(3) Cons.prems(3) in simp_all)
  ultimately show ?case using st1 kvs by (auto simp: kz add.assoc)
qed

end

subsection \<open>How the loop ends\<close>

lemma restore_loop_checksum:
  assumes "rs_reader st = \<lparr>rd_data = putUint32 c, rd_end = ErrEOF\<rparr>"
  shows "restore_loop P st =
    (if c = rs_hash st then (None, st\<lparr>rs_reader := \<lparr>rd_data = [], rd_end = ErrEOF\<rparr>\<rparr>)
     else (Some (Errorf ''snapshot checksum mismatch: expected 0x%08x, got 0x%08x'' [ANum (unat c), ANum (unat (rs_hash st))]),
           st\<lparr>rs_count := rs_count st + 1, rs_reader := \<lparr>rd_data = [], rd_end = ErrEOF\<rparr>\<rparr>))"
proof -
  have "putUint32 c \<noteq> []" by (metis length_putUint(2) list.size(3) zero_neq_numeral)
  then have "readFull \<lparr>rd_data = putUint32 c, rd_end = ErrEOF\<rparr> 8 =
      (putUint32 c, Some ErrUnexpectedEOF, \<lparr>rd_data = [], rd_end = ErrEOF\<rparr>)"
    by (simp add: readFull_def)
  then show ?thesis
    by (simp add: restore_loop.simps [of P st] restore_turn_def assms)
qed

lemma restore_loop_end:
  assumes "rs_reader st = \<lparr>rd_data = [], rd_end = ErrEOF\<rparr>"
  shows "restore_loop P st = (None, st\<lparr>rs_count := rs_count st + 1\<rparr>)"
  using assms by (simp add: restore_loop.simps [of P st] restore_turn_def readFull_def)

lemma restore_loop_bad_value:
  assumes "rs_reader st = \<lparr>rd_data = raw_record (k, z) @ rest, rd_end = e\<rparr>" and "sizes_ok (k, z)"
    and "gzipDecode z = Inl e'"
  shows "\<exists>st'. restore_loop P st = (Some (Errorf ''failed to decompress snapshot data: %w'' [AErr e']), st')"
  using assms(3) by (simp add: restore_loop.simps [of P st] restore_turn_raw [OF assms(1,2)] restore_put_def)

text \<open>A record whose key takes the rest of the stream, a checksum included, ends the loop without an error.\<close>

lemma restore_loop_swallowed:
  assumes "rs_reader st = \<lparr>rd_data = putUint64 n @ ks, rd_end = ErrEOF\<rparr>" and "unat n = length ks" and "n \<le> push_bit 30 1"
  shows "\<exists>st'. restore_loop P st = (None, st') \<and> rs_wb st' = rs_wb st \<and> rs_k st' = rs_k st \<and> rs_world st' = rs_world st"
proof -
  have a: "readFull \<lparr>rd_data = putUint64 n @ ks, rd_end = ErrEOF\<rparr> 8 = (putUint64 n, None, \<lparr>rd_data = ks, rd_end = ErrEOF\<rparr>)"
    by (rule readFull_ok) simp
  have b: "readFull \<lparr>rd_data = ks, rd_end = ErrEOF\<rparr> (length ks) = (ks, None, \<lparr>rd_data = [], rd_end = ErrEOF\<rparr>)"
    using readFull_ok [of "length ks" ks "[]" ErrEOF] by simp
  have c: "readFull \<lparr>rd_data = [], rd_end = ErrEOF\<rparr> 8 = ([], Some ErrEOF, \<lparr>rd_data = [], rd_end = ErrEOF\<rparr>)"
    by (simp add: readFull_def)
  show ?thesis
    using assms(2,3) by (simp add: restore_loop.simps [of P st] restore_turn_def assms(1) a b c read_hashed_def not_less Let_def)
qed

subsection \<open>Publishing the new database\<close>

definition dbdir_name :: "string \<Rightarrow> bool" where
  "dbdir_name n = (plain_name n \<and> n \<noteq> currentDBFilename \<and> n \<noteq> updatingDBFilename)"

lemma filepath_Join_not_Nil: "plain_name n \<Longrightarrow> filepath_Join dir n \<noteq> []"
proof
  assume "plain_name n" "filepath_Join dir n = []"
  then have "resolve [] [] = resolve [] dir @ [n]" using resolve_Join [of n "[]" dir] by simp
  then show False by (simp add: resolve_def rooted_def path_step_def)
qed

lemma dbdir_name_random: "dbdir_name (show_nat a @ CHR ''_'' # show_int b)"
proof -
  have "CHR ''_'' \<notin> set currentDBFilename" "CHR ''_'' \<notin> set updatingDBFilename"
    by (simp_all add: currentDBFilename_def updatingDBFilename_def)
  moreover have "CHR ''_'' \<in> set (show_nat a @ CHR ''_'' # show_int b)" by simp
  ultimately show ?thesis by (metis dbdir_name_def plain_name_show)
qed

lemma recorded_dir_record:
  "map_of ns (base @ [currentDBFilename]) = Some (RegFile (dbdir_record d)) \<Longrightarrow> d \<noteq> [] \<Longrightarrow>
   recorded_dir ns base = Some d"
  using check_dbdir_record_iff [of "dbdir_record d" d] by (simp add: recorded_dir_def)

lemma recorded_not_dir:
  "recorded_dir ns base = Some d \<Longrightarrow> \<not> is_dir ns (base @ [currentDBFilename])"
  by (auto simp: recorded_dir_def is_dir_def split: option.splits node.splits)

text \<open>The file system after a restore: the new directory is recorded, the old one is gone.\<close>

definition published :: "fskey \<Rightarrow> string \<Rightarrow> fskey \<Rightarrow> (fskey \<rightharpoonup> 'db node) \<Rightarrow> fskey \<rightharpoonup> 'db node" where
  "published base dbdir old m = (\<lambda>k. if below old k then None
     else (m(base @ [updatingDBFilename] := None,
             base @ [currentDBFilename] \<mapsto> RegFile (dbdir_record dbdir))) k)"

lemma restore_swap_healthy:
  assumes h: "healthy w" and d: "is_dir (w_nodes w) (w_key w (st_baseDir s))"
    and n: "plain_name n" "w_key w (st_baseDir s) @ [n] = old"
  shows "\<exists>w'. restore_swap s k (filepath_Join (st_baseDir s) n) header w = (Inr header, s\<lparr>st_db := k\<rparr>, w') \<and>
    w_nodes w' = remove_tree old (w_nodes w) \<and> w_hist w' = w_nodes w' # w_hist w \<and>
    same_env (db_close (st_db s) w) w'"
proof -
  let ?w0 = "db_close (st_db s) w"
  let ?w1 = "set_nodes (remove_tree old (w_nodes w)) (tick ?w0)"
  have r: "os_RemoveAll (filepath_Join (st_baseDir s) n) ?w0 = (Inr (), ?w1)"
    using h n by (simp add: os_RemoveAll_def fs_simps)
  have "is_dir (w_nodes ?w1) (w_key ?w1 (filepath_Dir (filepath_Join (st_baseDir s) n)))"
    using d n by (auto simp: is_dir_def map_of_remove_tree)
  then obtain w' where s': "syncDir (filepath_Dir (filepath_Join (st_baseDir s) n)) ?w1 = (None, w')" "quiet ?w1 w'"
    using syncDir_healthy [of ?w1 "filepath_Dir (filepath_Join (st_baseDir s) n)"] h by auto
  have "same_env ?w0 ?w1" by (simp add: same_env_def)
  then have "same_env ?w0 w'" using quiet_same_env [OF s'(2)] by (rule same_env_trans)
  with r s' show ?thesis by (auto simp: restore_swap_def quiet_def)
qed

text \<open>
  The states a crash can leave while publishing: until the rename only \<open>pebble.updating\<close> differs;
  from the rename on the new directory is recorded and everything but the old one is there.
\<close>

definition before_rename :: "fskey \<Rightarrow> 'db nodes \<Rightarrow> 'db nodes \<Rightarrow> bool" where
  "before_rename base ns0 ns = (\<forall>k. k \<noteq> base @ [updatingDBFilename] \<longrightarrow> map_of ns k = map_of ns0 k)"

definition after_rename :: "fskey \<Rightarrow> string \<Rightarrow> fskey \<Rightarrow> 'db nodes \<Rightarrow> 'db nodes \<Rightarrow> bool" where
  "after_rename base dbdir old ns0 ns \<longleftrightarrow> recorded_dir ns base = Some dbdir \<and>
     (\<forall>k. k \<noteq> base @ [updatingDBFilename] \<and> k \<noteq> base @ [currentDBFilename] \<and> \<not> below old k \<longrightarrow>
        map_of ns k = map_of ns0 k)"

lemma below_sibling: "below (b @ [m]) (b @ [n]) \<longleftrightarrow> m = n"
  by (rule below_snoc)

lemma same_env_close: "same_env w w' \<Longrightarrow> same_env (db_close k w) (db_close k w')"
  by (simp add: same_env_def)

lemma restore_publish_healthy:
  assumes h: "healthy w" and base: "w_key w (st_baseDir s) = base" and d: "is_dir (w_nodes w) base"
    and u: "\<not> is_dir (w_nodes w) (base @ [updatingDBFilename])"
    and r: "\<not> is_dir (w_nodes w) (base @ [currentDBFilename])"
    and dbdir: "dbdir \<noteq> []" and n: "dbdir_name n" and old: "base @ [n] = old"
  shows "\<exists>w' new. restore_publish s k dbdir (filepath_Join (st_baseDir s) n) header w
      = (Inr header, s\<lparr>st_db := k\<rparr>, w') \<and>
    map_of (w_nodes w') = published base dbdir old (map_of (w_nodes w)) \<and>
    same_env (db_close (st_db s) w) w' \<and> w_hist w' = new @ w_hist w \<and>
    (\<forall>ns \<in> set new. before_rename base (w_nodes w) ns \<or> after_rename base dbdir old (w_nodes w) ns)"
proof -
  let ?u = "base @ [updatingDBFilename]" and ?r = "base @ [currentDBFilename]"
  let ?rec = "RegFile (dbdir_record dbdir)"
  obtain w1 where s1: "saveCurrentDBDirName (st_baseDir s) dbdir w = (None, w1)"
      and m1: "map_of (w_nodes w1) = (map_of (w_nodes w))(?u \<mapsto> ?rec)"
    using saveCurrentDBDirName_healthy [OF h, of "st_baseDir s" dbdir] d u base by auto
  have t1: "touches {?u} w w1" using saveCurrentDBDirName_touches [OF s1] base by simp
  note e1 = touches_same_env [OF t1]
  have k1: "w_key w1 (st_baseDir s) = base" using same_env_key [OF e1] base by simp
  have dirs: "is_dir (w_nodes w1) base" "\<not> is_dir (w_nodes w1) ?r"
    using d r m1 by (simp_all add: is_dir_def)
  obtain w2 where s2: "replaceCurrentDBFile (st_baseDir s) w1 = (None, w2)"
      and m2: "map_of (w_nodes w2) = (map_of (w_nodes w1))(?u := None, ?r \<mapsto> ?rec)"
      and h2: "w_hist w2 = w_nodes w2 # w_hist w1"
    using replaceCurrentDBFile_healthy [OF same_env_healthy [OF e1 h], of "st_baseDir s" "dbdir_record dbdir"]
      dirs m1 k1 by auto
  note e2 = touches_same_env [OF replaceCurrentDBFile_touches [OF s2]]
  have e12: "same_env w w2" using e1 e2 by (rule same_env_trans)
  have m2': "map_of (w_nodes w2) = (map_of (w_nodes w))(?u := None, ?r \<mapsto> ?rec)"
    by (simp add: m2 m1)
  have "is_dir (w_nodes w2) base" using d m2' by (simp add: is_dir_def)
  then obtain w3 where s3: "restore_swap s k (filepath_Join (st_baseDir s) n) header w2 = (Inr header, s\<lparr>st_db := k\<rparr>, w3)"
      and n3: "w_nodes w3 = remove_tree old (w_nodes w2)" and h3: "w_hist w3 = w_nodes w3 # w_hist w2"
      and e3: "same_env (db_close (st_db s) w2) w3"
    using restore_swap_healthy [OF same_env_healthy [OF e12 h], of s n old k header] same_env_key [OF e12] base n old
    by (auto simp: dbdir_name_def)
  obtain new where new: "w_hist w1 = new @ w_hist w"
      "\<forall>ns \<in> set new. before_rename base (w_nodes w) ns"
    using t1 by (auto simp: touches_def before_rename_def)
  have after: "after_rename base dbdir old (w_nodes w) (w_nodes w2)" "after_rename base dbdir old (w_nodes w) (w_nodes w3)"
    using n old dbdir
    by (auto simp: after_rename_def n3 m2' map_of_remove_tree below_snoc dbdir_name_def intro!: recorded_dir_record)
  have "same_env (db_close (st_db s) w) w3"
    using same_env_close [OF e12] e3 by (rule same_env_trans)
  moreover have "map_of (w_nodes w3) = published base dbdir old (map_of (w_nodes w))"
    by (simp add: n3 fun_eq_iff map_of_remove_tree published_def m2')
  moreover have "w_hist w3 = (w_nodes w3 # w_nodes w2 # new) @ w_hist w" by (simp add: h3 h2 new(1))
  moreover have "\<forall>ns \<in> set (w_nodes w3 # w_nodes w2 # new).
      before_rename base (w_nodes w) ns \<or> after_rename base dbdir old (w_nodes w) ns"
    using after new(2) by auto
  moreover have "restore_publish s k dbdir (filepath_Join (st_baseDir s) n) header w = (Inr header, s\<lparr>st_db := k\<rparr>, w3)"
    by (simp add: restore_publish_def s1 s2 s3)
  ultimately show ?thesis by blast
qed

end
