(* ===== verification/Fsm_Recover.thy ===== *)
theory Fsm_Recover
  imports Fsm_Restore
begin

text \<open>
  The invariant of an open store, and what \<open>recoverSnapShot\<close> does to it as a whole: its result on
  a snapshot, every state a crash can leave, and its effect when the stream or a call fails.
\<close>

subsection \<open>The invariant of a store\<close>

definition store_inv :: "store \<Rightarrow> 'db world \<Rightarrow> bool" where
  "store_inv s w \<longleftrightarrow>
     (let base = w_key w (st_baseDir s)
      in path_dirs (w_nodes w) base \<and> \<not> is_dir (w_nodes w) (base @ [updatingDBFilename]) \<and>
         (\<exists>n. dbdir_name n \<and> st_db s = base @ [n] \<and>
              recorded_dir (w_nodes w) base = Some (filepath_Join (st_baseDir s) n)) \<and>
         dir_db (w_nodes w) (st_db s) \<noteq> None \<and>
         (\<not> st_closed s \<longrightarrow> st_db s \<in> set (w_open w)))"

lemma dir_db_is_dir: "dir_db ns k \<noteq> None \<Longrightarrow> is_dir ns k"
  by (auto simp: dir_db_def is_dir_def split: option.splits node.splits)

lemma store_inv_ok: "store_inv s w \<Longrightarrow> store_ok s w"
  by (auto simp: store_inv_def store_ok_def db_load_def Let_def)

text \<open>
  What a restart needs of a file system to come up with the contents \<open>m\<close>: the base directory is
  there and records one of its directories, whose database holds \<open>m\<close>.
\<close>

definition holds_db :: "('db \<Rightarrow> kvmap) \<Rightarrow> fskey \<Rightarrow> string \<Rightarrow> kvmap \<Rightarrow> 'db nodes \<Rightarrow> bool" where
  "holds_db view cwd dir m ns \<longleftrightarrow>
     path_dirs ns (resolve cwd dir) \<and>
     (\<exists>n d. dbdir_name n \<and> recorded_dir ns (resolve cwd dir) = Some (filepath_Join dir n) \<and>
        dir_db ns (resolve cwd dir @ [n]) = Some d \<and> view d = m)"

lemma path_dirs_agree:
  assumes "path_dirs ns b" and "\<And>x. length x \<le> length b \<Longrightarrow> map_of ns' x = map_of ns x"
  shows "path_dirs ns' b"
  using assms path_dirs_cong [of b ns' ns] by blast

lemma store_inv_holds:
  "store_inv s w \<Longrightarrow> db_load (st_db s) w = Some d \<Longrightarrow> holds_db view (w_cwd w) (st_baseDir s) (view d) (w_nodes w)"
  by (auto simp: store_inv_def holds_db_def Let_def db_load_def split: if_splits)

lemma holds_dbI:
  assumes "path_dirs ns0 b" and "dbdir_name n" and "resolve cwd dir = b"
    and "\<And>x. length x \<le> length b \<or> x = b @ [n] \<Longrightarrow> map_of ns x = map_of ns0 x"
    and "recorded_dir ns b = Some (filepath_Join dir n)" and "dir_db ns0 (b @ [n]) = Some d" and "view d = m"
  shows "holds_db view cwd dir m ns"
proof -
  have "path_dirs ns b" by (rule path_dirs_agree [OF assms(1)]) (simp add: assms(4))
  moreover have "dir_db ns (b @ [n]) = Some d" using assms(4) [of "b @ [n]"] assms(6) by (simp add: dir_db_def)
  ultimately show ?thesis using assms(2,3,5,7) by (auto simp: holds_db_def)
qed

abbreviation new_key :: "store \<Rightarrow> u64 \<Rightarrow> int \<Rightarrow> 'db world \<Rightarrow> fskey" where
  "new_key s rn ct w \<equiv> w_key w (getNewRandomDBDirName (st_baseDir s) rn ct)"

definition fresh_dir :: "store \<Rightarrow> u64 \<Rightarrow> int \<Rightarrow> 'db world \<Rightarrow> bool" where
  "fresh_dir s rn ct w \<longleftrightarrow> new_key s rn ct w \<notin> set (w_open w) \<and> map_of (w_nodes w) (new_key s rn ct w) = None"

context pebble_live
begin

lemma db_open_fresh:
  assumes h: "healthy w" and d: "path_dirs (w_nodes w) (w_key w (st_baseDir s))" and f: "fresh_dir s rn ct w"
    and k: "k = new_key s rn ct w"
  shows "\<exists>db w'. db_open P (getNewRandomDBDirName (st_baseDir s) rn ct) w = (Inr k, w') \<and>
    view db = Map.empty \<and> db_load k w' = Some db \<and>
    map_of (w_nodes w') = (map_of (w_nodes w))(k \<mapsto> Directory (Some db)) \<and>
    w_hist w' = w_nodes w' # w_hist w \<and> same_env (w\<lparr>w_open := k # w_open w\<rparr>) w'"
proof -
  obtain db where db: "pb_open P None = Inr db" using open_new_live by blast
  let ?ns = "map_set k (Directory None) (w_nodes w)"
  have "mkdirs [] k (w_nodes w) = Some ?ns"
    using mkdirs_child [OF d] f by (simp add: k fresh_dir_def)
  then have "db_open P (getNewRandomDBDirName (st_baseDir s) rn ct) w =
      (Inr k, (set_nodes (map_set k (Directory (Some db)) ?ns) (tick w))\<lparr>w_open := k # w_open w\<rparr>)"
    using h f db k by (simp add: db_open_def fs_simps fresh_dir_def Let_def)
  then show ?thesis
    using open_new [OF db] by (simp add: db_load_def dir_db_def same_env_def)
qed

lemma restore_into_ok:
  assumes db: "db_load h w = Some db" "view db = Map.empty"
    and tail: "tail = [] \<or> tail = putUint32 (crc_write crc_new (raw_records kzs))"
    and sz: "\<forall>kz \<in> set kzs. sizes_ok kz"
    and dec: "list_all2 (\<lambda>kz kv. fst kv = fst kz \<and> gzipDecode (snd kz) = Inr (snd kv)) kzs kvs"
  shows "\<exists>st. restore_into P h \<lparr>rd_data = raw_records kzs @ tail, rd_end = ErrEOF\<rparr> w = (None, st) \<and>
    restoring view pend (apply_ops (puts kvs) Map.empty) st"
proof -
  let ?st = "\<lparr>rs_reader = \<lparr>rd_data = raw_records kzs @ tail, rd_end = ErrEOF\<rparr>, rs_hash = crc_new,
       rs_wb = newPebbleWriteBatch P h (the (db_load h w)), rs_k = 0, rs_count = 0, rs_world = w\<rparr>"
  have "restoring view pend Map.empty ?st"
    using db by (simp add: restoring_def newPebbleWriteBatch_def batch_new)
  then obtain st where st: "restore_loop P ?st = restore_loop P st"
      "restoring view pend (apply_ops (puts kvs) Map.empty) st"
      "rs_reader st = \<lparr>rd_data = tail, rd_end = ErrEOF\<rparr>" "rs_hash st = crc_write crc_new (raw_records kzs)"
    using restore_loop_records [OF _ _ sz dec, of Map.empty ?st tail ErrEOF] by auto
  show ?thesis
    using tail st restore_loop_end [of st P] restore_loop_checksum [of st "crc_write crc_new (raw_records kzs)" P]
    by (auto simp: restore_into_def)
qed

lemma restore_into_swallowed:
  assumes db: "db_load h w = Some db" "view db = Map.empty"
    and n: "unat n = length ks" "n \<le> push_bit 30 1" and sz: "\<forall>kz \<in> set kzs. sizes_ok kz"
    and dec: "list_all2 (\<lambda>kz kv. fst kv = fst kz \<and> gzipDecode (snd kz) = Inr (snd kv)) kzs kvs"
  shows "\<exists>st. restore_into P h \<lparr>rd_data = raw_records kzs @ putUint64 n @ ks, rd_end = ErrEOF\<rparr> w = (None, st) \<and>
    restoring view pend (apply_ops (puts kvs) Map.empty) st"
proof -
  let ?st = "\<lparr>rs_reader = \<lparr>rd_data = raw_records kzs @ putUint64 n @ ks, rd_end = ErrEOF\<rparr>, rs_hash = crc_new,
       rs_wb = newPebbleWriteBatch P h (the (db_load h w)), rs_k = 0, rs_count = 0, rs_world = w\<rparr>"
  have "restoring view pend Map.empty ?st"
    using db by (simp add: restoring_def newPebbleWriteBatch_def batch_new)
  then obtain st where st: "restore_loop P ?st = restore_loop P st"
      "restoring view pend (apply_ops (puts kvs) Map.empty) st"
      "rs_reader st = \<lparr>rd_data = putUint64 n @ ks, rd_end = ErrEOF\<rparr>"
    using restore_loop_records [OF _ _ sz dec, of Map.empty ?st "putUint64 n @ ks" ErrEOF] by auto
  obtain st' where "restore_loop P st = (None, st')" "rs_wb st' = rs_wb st" "rs_k st' = rs_k st" "rs_world st' = rs_world st"
    using restore_loop_swallowed [OF st(3) n] by blast
  with st show ?thesis by (auto simp: restore_into_def restoring_def)
qed

lemma restore_commit_ok:
  assumes "restoring view pend m st"
  shows "\<exists>db. db_load (wb_db (rs_wb st)) (restore_commit P st) = Some db \<and> view db = m"
proof -
  obtain x w where c: "wb_Commit P (rs_wb st) (rs_world st) = (x, w)" by fastforce
  with assms wb_Commit_live [OF _ c] show ?thesis
    by (auto simp: restore_commit_def restoring_def)
qed

end

lemma restore_commit_touches:
  "touches {wb_db (rs_wb st)} (rs_world st) (restore_commit P st) \<and>
   (list_all plain_name (wb_db (rs_wb st)) \<and> wf_world (rs_world st) \<longrightarrow> wf_world (restore_commit P st))"
proof -
  obtain x w where "wb_Commit P (rs_wb st) (rs_world st) = (x, w)" by fastforce
  with wb_Commit_touches [OF this] show ?thesis by (simp add: restore_commit_def)
qed

lemma restore_into_touches:
  assumes "restore_into P h rd w = (r, st)"
  shows "wb_db (rs_wb st) = h \<and> touches {h} w (rs_world st) \<and>
    (list_all plain_name h \<and> wf_world w \<longrightarrow> wf_world (rs_world st))"
  using restore_loop_only_new [OF assms [unfolded restore_into_def]]
  by (simp add: only_new_def newPebbleWriteBatch_def)

subsection \<open>A restore that succeeds\<close>

lemma published_inv:
  assumes m: "map_of (w_nodes w') = published base (filepath_Join (st_baseDir s) n') (base @ [n]) (map_of (w_nodes w3))"
    and base: "w_key w' (st_baseDir s) = base" and d: "path_dirs (w_nodes w3) base"
    and n: "dbdir_name n" "dbdir_name n'" "n' \<noteq> n"
    and db: "dir_db (w_nodes w3) (base @ [n']) = Some db" and op: "base @ [n'] \<in> set (w_open w')"
  shows "store_inv (s\<lparr>st_db := base @ [n']\<rparr>) w' \<and> db_load (base @ [n']) w' = Some db"
proof -
  have short: "map_of (w_nodes w') k = map_of (w_nodes w3) k" if "length k \<le> length base" for k
    using that by (auto simp: m published_def below_def)
  have "path_dirs (w_nodes w') base"
    using path_dirs_cong [of base "w_nodes w'" "w_nodes w3"] short d by blast
  moreover have new: "dir_db (w_nodes w') (base @ [n']) = Some db"
    using db n by (simp add: dir_db_def m published_def below_snoc dbdir_name_def)
  moreover have "recorded_dir (w_nodes w') base = Some (filepath_Join (st_baseDir s) n')"
    using n by (intro recorded_dir_record) (auto simp: m published_def below_snoc dbdir_name_def filepath_Join_not_Nil)
  moreover have "\<not> is_dir (w_nodes w') (base @ [updatingDBFilename])"
    using n by (simp add: is_dir_def m published_def)
  ultimately show ?thesis
    using n base op by (auto simp: store_inv_def db_load_def)
qed

context pebble_live
begin

text \<open>Up to publishing, only the new directory changes.\<close>

lemma recover_prepare:
  assumes h: "healthy w" and f: "fresh_dir s rn ct w" and k: "k = new_key s rn ct w"
    and pd: "path_dirs (w_nodes w) (w_key w (st_baseDir s))"
    and rec: "recorded_dir (w_nodes w) (w_key w (st_baseDir s)) = Some oldDirName"
    and hd: "readSnapshotHeader rd = (Inr header, rd1)"
    and into: "\<And>w2 db. db_load k w2 = Some db \<Longrightarrow> view db = Map.empty \<Longrightarrow>
      \<exists>st. restore_into P k rd1 w2 = (None, st) \<and> restoring view pend m st"
  shows "\<exists>w3 db new. recoverSnapShot P s rd rn ct w =
      restore_publish s k (getNewRandomDBDirName (st_baseDir s) rn ct) oldDirName header w3 \<and>
    db_load k w3 = Some db \<and> view db = m \<and> same_env (w\<lparr>w_open := k # w_open w\<rparr>) w3 \<and>
    w_hist w3 = new @ w_hist w \<and>
    (\<forall>ns \<in> set (w_nodes w3 # new). \<forall>x. x \<noteq> k \<longrightarrow> map_of ns x = map_of (w_nodes w) x)"
proof -
  obtain w1 where g: "getCurrentDBDirName (st_baseDir s) w = (Inr oldDirName, w1)" and q: "quiet w w1"
    using getCurrentDBDirName_healthy h rec by blast
  have k1: "new_key s rn ct w1 = k" using quiet_key [OF q] by (simp add: k)
  have h1: "healthy w1" by (rule quiet_healthy [OF q h])
  have f1: "fresh_dir s rn ct w1" "path_dirs (w_nodes w1) (w_key w1 (st_baseDir s))"
    using f pd q k1 quiet_key [OF q] by (auto simp: fresh_dir_def k quiet_def same_env_def)
  obtain db0 w2 where o: "db_open P (getNewRandomDBDirName (st_baseDir s) rn ct) w1 = (Inr k, w2)"
      and db0: "view db0 = Map.empty" "db_load k w2 = Some db0"
      and m2: "map_of (w_nodes w2) = (map_of (w_nodes w1))(k \<mapsto> Directory (Some db0))"
      and h2: "w_hist w2 = w_nodes w2 # w_hist w1" and e2: "same_env (w1\<lparr>w_open := k # w_open w1\<rparr>) w2"
    using db_open_fresh [OF h1 f1(2,1) k1 [symmetric]] by blast
  obtain st where i: "restore_into P k rd1 w2 = (None, st)" "restoring view pend m st"
    using into [OF db0(2,1)] by blast
  define w3 where "w3 = restore_commit P st"
  have t3: "touches {k} w2 w3"
    using restore_into_touches [OF i(1)] restore_commit_touches [of st P] touches_trans w3_def by metis
  obtain db where db: "db_load k w3 = Some db" "view db = m"
    using restore_commit_ok [OF i(2)] restore_into_touches [OF i(1)] w3_def by metis
  have run: "recoverSnapShot P s rd rn ct w =
      restore_publish s k (getNewRandomDBDirName (st_baseDir s) rn ct) oldDirName header w3"
    by (simp add: recoverSnapShot_def hd g o i w3_def)
  have m2': "\<forall>x. x \<noteq> k \<longrightarrow> map_of (w_nodes w2) x = map_of (w_nodes w) x"
    using m2 q by (simp add: quiet_def)
  obtain new where new: "w_hist w3 = new @ w_hist w2"
      "\<forall>ns \<in> set (w_nodes w3 # new). \<forall>x. x \<noteq> k \<longrightarrow> map_of ns x = map_of (w_nodes w2) x"
    using t3 by (auto simp: touches_def)
  have "same_env (w\<lparr>w_open := k # w_open w\<rparr>) w3"
    using q e2 touches_same_env [OF t3] by (auto simp: quiet_def same_env_def)
  moreover have "w_hist w3 = (new @ [w_nodes w2]) @ w_hist w"
    using new(1) h2 q by (simp add: quiet_def)
  moreover have "\<forall>ns \<in> set (w_nodes w3 # new @ [w_nodes w2]). \<forall>x. x \<noteq> k \<longrightarrow> map_of ns x = map_of (w_nodes w) x"
    using new(2) m2' by auto
  ultimately show ?thesis using run db by blast
qed

lemma recover_ok:
  assumes h: "healthy w" and inv: "store_inv s w" and cl: "\<not> st_closed s" and f: "fresh_dir s rn ct w"
    and k: "k = new_key s rn ct w" and old: "db_load (st_db s) w = Some old"
    and hd: "readSnapshotHeader rd = (Inr header, rd1)"
    and into: "\<And>w2 db. db_load k w2 = Some db \<Longrightarrow> view db = Map.empty \<Longrightarrow>
      \<exists>st. restore_into P k rd1 w2 = (None, st) \<and> restoring view pend m st"
  shows "\<exists>w' db new. recoverSnapShot P s rd rn ct w = (Inr header, s\<lparr>st_db := k\<rparr>, w') \<and>
    db_load k w' = Some db \<and> view db = m \<and> store_inv (s\<lparr>st_db := k\<rparr>) w' \<and> healthy w' \<and>
    w_cwd w' = w_cwd w \<and> w_hist w' = new @ w_hist w \<and> dir_db (w_nodes w') (st_db s) = None \<and>
    (\<forall>ns \<in> set new. holds_db view (w_cwd w) (st_baseDir s) (view old) ns \<or>
        holds_db view (w_cwd w) (st_baseDir s) m ns)"
proof -
  define base where "base = w_key w (st_baseDir s)"
  define n' where "n' = show_nat (unat rn) @ CHR ''_'' # show_int ct"
  let ?dbdir = "filepath_Join (st_baseDir s) n'" and ?F = "holds_db view (w_cwd w) (st_baseDir s)"
  have rnd: "getNewRandomDBDirName (st_baseDir s) rn ct = ?dbdir"
    by (simp add: getNewRandomDBDirName_def n'_def)
  have n': "dbdir_name n'" by (simp add: n'_def dbdir_name_random)
  have k': "k = base @ [n']" by (simp add: k base_def n'_def)
  obtain n where n: "dbdir_name n" "st_db s = base @ [n]"
      and rec: "recorded_dir (w_nodes w) base = Some (filepath_Join (st_baseDir s) n)"
      and pd: "path_dirs (w_nodes w) base" and nu: "\<not> is_dir (w_nodes w) (base @ [updatingDBFilename])"
      and ddb: "dir_db (w_nodes w) (base @ [n]) = Some old"
    using inv cl old by (auto simp: store_inv_def Let_def base_def db_load_def split: if_splits)
  have nn: "n' \<noteq> n" using f ddb by (auto simp: fresh_dir_def dir_db_def base_def n'_def)
  obtain w3 db new where run: "recoverSnapShot P s rd rn ct w =
      restore_publish s k ?dbdir (filepath_Join (st_baseDir s) n) header w3"
    and db: "db_load k w3 = Some db" "view db = m" and e3: "same_env (w\<lparr>w_open := k # w_open w\<rparr>) w3"
    and h3: "w_hist w3 = new @ w_hist w"
    and m3: "\<forall>ns \<in> set (w_nodes w3 # new). \<forall>x. x \<noteq> k \<longrightarrow> map_of ns x = map_of (w_nodes w) x"
    using recover_prepare [OF h f k pd [unfolded base_def] rec [unfolded base_def] hd, of m] into
    unfolding rnd by blast
  have same: "map_of (w_nodes w3) x = map_of (w_nodes w) x" if "x \<noteq> k" for x using m3 that by simp
  have b3: "w_key w3 (st_baseDir s) = base" using same_env_key [OF e3] by (simp add: base_def)
  have pd3: "path_dirs (w_nodes w3) base" by (rule path_dirs_agree [OF pd], rule same) (auto simp: k')
  have "is_dir (w_nodes w3) x = is_dir (w_nodes w) x" if "x \<noteq> k" for x using is_dir_cong same that by blast
  then have dirs: "\<not> is_dir (w_nodes w3) (base @ [updatingDBFilename])" "\<not> is_dir (w_nodes w3) (base @ [currentDBFilename])"
    using nu recorded_not_dir [OF rec] n' by (auto simp: k' dbdir_name_def)
  have "healthy w3" using same_env_healthy [OF e3] h by simp
  then obtain w' new' where pub: "restore_publish s k ?dbdir (filepath_Join (st_baseDir s) n) header w3
      = (Inr header, s\<lparr>st_db := k\<rparr>, w')"
    and mp: "map_of (w_nodes w') = published base ?dbdir (base @ [n]) (map_of (w_nodes w3))"
    and ep: "same_env (db_close (st_db s) w3) w'" and hp: "w_hist w' = new' @ w_hist w3"
    and cp: "\<forall>ns \<in> set new'. before_rename base (w_nodes w3) ns \<or> after_rename base ?dbdir (base @ [n]) (w_nodes w3) ns"
    using restore_publish_healthy [OF _ b3 path_dirs_is_dir [OF pd3] dirs, of ?dbdir n "base @ [n]" k header] n' n
    by (auto simp: dbdir_name_def filepath_Join_not_Nil)
  have ddb3: "dir_db (w_nodes w3) k = Some db" using db by (simp add: db_load_def split: if_splits)
  have "w_open w' = filter (\<lambda>x. x \<noteq> st_db s) (k # w_open w)" using ep e3 by (simp add: same_env_def)
  then have op: "base @ [n'] \<in> set (w_open w')" using nn n k' by simp
  have inv': "store_inv (s\<lparr>st_db := k\<rparr>) w'" "db_load k w' = Some db"
    unfolding k' using same_env_key [OF ep] b3 ddb3 k' published_inv [OF mp _ pd3 n(1) n' nn _ op] by simp_all
  have gone: "dir_db (w_nodes w') (st_db s) = None" by (simp add: dir_db_def mp published_def n)
  have oldF: "?F (view old) ns"
    if eq: "\<forall>x. x \<noteq> k \<and> x \<noteq> base @ [updatingDBFilename] \<longrightarrow> map_of ns x = map_of (w_nodes w) x" for ns
  proof (rule holds_dbI [OF pd n(1) base_def [symmetric] _ _ ddb refl])
    show "map_of ns x = map_of (w_nodes w) x" if "length x \<le> length base \<or> x = base @ [n]" for x
    proof -
      have "x \<noteq> k \<and> x \<noteq> base @ [updatingDBFilename]" using that n(1) nn by (auto simp: k' dbdir_name_def)
      with eq show ?thesis by simp
    qed
    show "recorded_dir ns base = Some (filepath_Join (st_baseDir s) n)"
      using eq rec n' by (auto simp: recorded_dir_def k' dbdir_name_def)
  qed
  have newF: "?F m ns" if a: "after_rename base ?dbdir (base @ [n]) (w_nodes w3) ns" for ns
  proof (rule holds_dbI [OF pd3 n' base_def [symmetric] _ _ ddb3 [unfolded k'], where view = view and m = m])
    show "map_of ns x = map_of (w_nodes w3) x" if "length x \<le> length base \<or> x = base @ [n']" for x
    proof -
      have "x \<noteq> base @ [updatingDBFilename] \<and> x \<noteq> base @ [currentDBFilename] \<and> \<not> below (base @ [n]) x"
        using that n' nn by (auto simp: below_def dbdir_name_def)
      with a show ?thesis by (simp add: after_rename_def)
    qed
    show "recorded_dir ns base = Some ?dbdir" using a by (simp add: after_rename_def)
    show "view db = m" by (rule db(2))
  qed
  have beforeF: "?F (view old) ns" if "before_rename base (w_nodes w3) ns" for ns
    using that same by (intro oldF) (simp add: before_rename_def)
  have startF: "?F (view old) ns" if "ns \<in> set new" for ns
    using that m3 by (intro oldF) simp
  have "\<forall>ns \<in> set (new' @ new). ?F (view old) ns \<or> ?F m ns"
    using cp newF beforeF startF by fastforce
  moreover have "w_hist w' = (new' @ new) @ w_hist w" by (simp add: hp h3)
  moreover have "healthy w'" "w_cwd w' = w_cwd w"
    using same_env_healthy [OF ep] \<open>healthy w3\<close> ep e3 by (simp_all add: same_env_def)
  ultimately show ?thesis
    unfolding run pub using inv' gone db(2) by blast
qed

lemma recover_snapshot:
  assumes Z: "gzip_codec Z" and h: "healthy w" and inv: "store_inv s w" and cl: "\<not> st_closed s"
    and f: "fresh_dir s rn ct w" and old: "db_load (st_db s) w = Some old"
    and node: "length nodeId < 2 ^ 16"
    and sz: "\<forall>(k, v) \<in> set kvs. length k \<le> 2 ^ 30 \<and> length (gz_val Z v) \<le> maxAlloc"
    and dist: "distinct (map fst kvs)"
    and tail: "tail = [] \<or> tail = putUint32 (crc_write crc_new (enc_records Z kvs))"
  shows "\<exists>w' db new. recoverSnapShot P s
      \<lparr>rd_data = header_buf nodeId lastIndex now @ enc_records Z kvs @ tail, rd_end = ErrEOF\<rparr> rn ct w =
      (Inr \<lparr>hd_Magic = snapshotMagic, hd_Version = snapshotVersion, hd_LastIndex = lastIndex,
          hd_Timestamp = word_of_int now, hd_NodeId = nodeId, hd_Checksum = 0\<rparr>,
       s\<lparr>st_db := new_key s rn ct w\<rparr>, w') \<and>
    db_load (new_key s rn ct w) w' = Some db \<and> view db = map_of kvs \<and>
    store_inv (s\<lparr>st_db := new_key s rn ct w\<rparr>) w' \<and> healthy w' \<and>
    w_cwd w' = w_cwd w \<and> w_hist w' = new @ w_hist w \<and> dir_db (w_nodes w') (st_db s) = None \<and>
    (\<forall>ns \<in> set new. holds_db view (w_cwd w) (st_baseDir s) (view old) ns \<or>
        holds_db view (w_cwd w) (st_baseDir s) (map_of kvs) ns)"
proof -
  let ?kzs = "map (\<lambda>(k, v). (k, gz_val Z v)) kvs"
  have dec: "list_all2 (\<lambda>kz kv. fst kv = fst kz \<and> gzipDecode (snd kz) = Inr (snd kv)) ?kzs kvs"
    using gzip_codec.gz_val_ok(2) [OF Z] by (induction kvs) auto
  have sz': "\<forall>kz \<in> set ?kzs. sizes_ok kz" using sz by (fastforce simp: sizes_ok_def)
  have m: "apply_ops (puts kvs) Map.empty = map_of kvs" using apply_puts [OF dist] by simp
  have into: "\<exists>st. restore_into P k \<lparr>rd_data = enc_records Z kvs @ tail, rd_end = ErrEOF\<rparr> w2 = (None, st) \<and>
      restoring view pend (map_of kvs) st" if "db_load k w2 = Some db" "view db = Map.empty" for k w2 db
    using restore_into_ok [OF that _ sz' dec, of tail] tail unfolding enc_records_raw m by blast
  show ?thesis
    by (rule recover_ok [OF h inv cl f refl old readSnapshotHeader_buf [OF node]]) (rule into)
qed

end

subsection \<open>Any stream, any failures\<close>

text \<open>Two worlds agree outside some paths.\<close>

definition agrees :: "fskey set \<Rightarrow> 'db world \<Rightarrow> 'db world \<Rightarrow> bool" where
  "agrees K w w' \<longleftrightarrow> w_cwd w' = w_cwd w \<and> (\<forall>x. x \<notin> K \<longrightarrow> map_of (w_nodes w') x = map_of (w_nodes w) x)"

lemma agrees_refl [simp]: "agrees K w w"
  by (simp add: agrees_def)

lemma agrees_trans: "agrees K a b \<Longrightarrow> agrees K b c \<Longrightarrow> agrees K a c"
  by (simp add: agrees_def)

lemma agrees_mono: "agrees K w w' \<Longrightarrow> K \<subseteq> L \<Longrightarrow> agrees L w w'"
  by (auto simp: agrees_def)

lemma touches_agrees: "touches L w w' \<Longrightarrow> L \<subseteq> K \<Longrightarrow> agrees K w w'"
  using touches_lookup [of L w w'] touches_same_env [of L w w'] by (auto simp: agrees_def same_env_def)

lemma quiet_agrees: "quiet w w' \<Longrightarrow> agrees K w w'"
  by (simp add: quiet_def same_env_def agrees_def)

lemma agrees_close [simp]: "agrees K (db_close k w) w' = agrees K w w'" "agrees K w (db_close k w') = agrees K w w'"
  by (simp_all add: agrees_def)

lemma cleanupNewDB_agrees:
  "w_key w dbdir = k \<Longrightarrow> {x. below k x} \<subseteq> K \<Longrightarrow> agrees K w (cleanupNewDB h dbdir w)"
proof -
  assume k: "w_key w dbdir = k" "{x. below k x} \<subseteq> K"
  obtain r w1 where r: "os_RemoveAll dbdir (db_close h w) = (r, w1)" by fastforce
  have "agrees K (db_close h w) w1"
    using os_touchesE(4) [OF r] k by (intro touches_agrees) simp_all
  then show ?thesis by (simp add: cleanupNewDB_def r)
qed

lemma cleanupNewDB_open: "w_open (cleanupNewDB h dbdir w) = filter (\<lambda>x. x \<noteq> h) (w_open w)"
proof -
  obtain r w1 where r: "os_RemoveAll dbdir (db_close h w) = (r, w1)" by fastforce
  show ?thesis
    using touches_same_env [OF os_touchesE(4) [OF r]] by (simp add: cleanupNewDB_def r same_env_def)
qed

lemma db_open_frame:
  assumes d: "path_dirs (w_nodes w) b" and k: "w_key w p = b @ [n]" and "db_open P p w = (r, w')"
  shows "agrees {b @ [n]} w w' \<and> (case r of Inl _ \<Rightarrow> w_open w' = w_open w | Inr h \<Rightarrow> h = b @ [n] \<and> w_open w' = h # w_open w)"
  using assms(3) mkdirs_child [OF d, of n]
  by (auto simp: db_open_def os_call_def k agrees_def Let_def split: option.splits node.splits sum.splits if_splits)

lemma restore_swap_store: "restore_swap s h old header w = (r, s', w') \<Longrightarrow> s' = s\<lparr>st_db := h\<rparr>"
  by (auto simp: restore_swap_def Let_def split: prod.splits sum.splits option.splits)

lemma store_neq: "h \<noteq> st_db s \<Longrightarrow> s\<lparr>st_db := h\<rparr> \<noteq> s"
  by (metis store.select_convs(2) store.surjective store.update_convs(2))

abbreviation restore_paths :: "fskey \<Rightarrow> fskey \<Rightarrow> fskey set" where
  "restore_paths k b \<equiv> {x. below k x} \<union> {b @ [updatingDBFilename], b @ [currentDBFilename]}"

lemma restore_publish_frame:
  assumes r: "restore_publish s h dbdir oldDirName header w = (r, s, w')" and h: "h \<noteq> st_db s"
    and k: "w_key w dbdir = k" and b: "w_key w (st_baseDir s) = b"
  shows "agrees (restore_paths k b) w w' \<and> set (w_open w) - {h} \<subseteq> set (w_open w')"
proof -
  let ?K = "restore_paths k b"
  obtain r1 w1 where s1: "saveCurrentDBDirName (st_baseDir s) dbdir w = (r1, w1)" by fastforce
  note t1 = saveCurrentDBDirName_touches [OF s1]
  note e1 = touches_same_env [OF t1]
  have a1: "agrees ?K w w1" using t1 b by (intro touches_agrees) auto
  show ?thesis
  proof (cases r1)
    case (Some e)
    then have "w' = (if is_panic e then w1 else cleanupNewDB h dbdir w1)"
      using r s1 by (auto simp: restore_publish_def split: if_splits)
    moreover have "agrees ?K w1 (cleanupNewDB h dbdir w1)"
      using same_env_key [OF e1] k by (intro cleanupNewDB_agrees) auto
    ultimately show ?thesis
      using a1 e1 by (auto simp: cleanupNewDB_open same_env_def intro: agrees_trans)
  next
    case None
    obtain r2 w2 where s2: "replaceCurrentDBFile (st_baseDir s) w1 = (r2, w2)" by fastforce
    note t2 = replaceCurrentDBFile_touches [OF s2]
    have e2: "same_env w w2" using e1 touches_same_env [OF t2] by (rule same_env_trans)
    have a2: "agrees ?K w1 w2" using t2 same_env_key [OF e1] b by (intro touches_agrees) auto
    obtain e where "r2 = Some e" "w' = cleanupNewDB h dbdir w2"
      using r s1 s2 None store_neq [OF h]
      by (cases r2) (auto simp: restore_publish_def dest!: restore_swap_store)
    moreover have "agrees ?K w2 (cleanupNewDB h dbdir w2)"
      using same_env_key [OF e2] k by (intro cleanupNewDB_agrees) auto
    ultimately show ?thesis
      using a1 a2 e2 by (auto simp: cleanupNewDB_open same_env_def intro: agrees_trans)
  qed
qed

lemma restore_publish_store:
  "restore_publish s h dbdir old header w = (r, s', w') \<Longrightarrow> s' = s \<or> s' = s\<lparr>st_db := h\<rparr>"
  by (auto simp: restore_publish_def dest: restore_swap_store split: prod.splits option.splits)

lemma recover_frame:
  assumes r: "recoverSnapShot P s rd rn ct w = (r, s, w')" and d: "path_dirs (w_nodes w) (w_key w (st_baseDir s))"
    and k: "k = new_key s rn ct w" and ks: "k \<noteq> st_db s"
  shows "agrees (restore_paths k (w_key w (st_baseDir s))) w w' \<and> set (w_open w) - {k} \<subseteq> set (w_open w')"
proof -
  let ?b = "w_key w (st_baseDir s)"
  let ?K = "restore_paths k ?b" and ?dir = "getNewRandomDBDirName (st_baseDir s) rn ct"
  obtain hd rd1 where hd: "readSnapshotHeader rd = (hd, rd1)" by fastforce
  obtain g w1 where g: "getCurrentDBDirName (st_baseDir s) w = (g, w1)" by fastforce
  note q = getCurrentDBDirName_quiet [OF g]
  obtain x w2 where x: "db_open P ?dir w1 = (x, w2)" by fastforce
  have keys: "w_key w1 ?dir = ?b @ [last k]" "k = ?b @ [last k]" "path_dirs (w_nodes w1) ?b"
    using quiet_key [OF q] d q by (simp_all add: k quiet_def)
  note o = db_open_frame [OF keys(3,1) x, folded keys(2)]
  have a2: "agrees ?K w w2"
  proof -
    have "agrees ?K w1 w2" using o by (auto intro: agrees_mono)
    then show ?thesis by (rule agrees_trans [OF quiet_agrees [OF q]])
  qed
  show ?thesis
  proof (cases "\<exists>header oldDirName. hd = Inr header \<and> g = Inr oldDirName \<and> x = Inr k")
    case False
    have open1: "w_open w1 = w_open w" using q by (simp add: quiet_def same_env_def)
    consider e where "hd = Inl e" | h e where "hd = Inr h" "g = Inl e" | h u e where "hd = Inr h" "g = Inr u" "x = Inl e"
      using False o by (cases hd; cases g; cases x) auto
    then show ?thesis
    proof cases
      case 1
      then show ?thesis using r hd by (simp add: recoverSnapShot_def)
    next
      case 2
      then show ?thesis using r hd g open1 quiet_agrees [OF q, of ?K] by (simp add: recoverSnapShot_def)
    next
      case 3
      then show ?thesis using r hd g x o open1 a2 by (simp add: recoverSnapShot_def)
    qed
  next
    case True
    then obtain header oldDirName where T: "hd = Inr header" "g = Inr oldDirName" "x = Inr k" by blast
    obtain e st where i: "restore_into P k rd1 w2 = (e, st)" by fastforce
    note it = restore_into_touches [OF i]
    have w2: "w_open w2 = k # w_open w" using o T(3) q by (simp add: quiet_def same_env_def)
    have k2: "w_key w2 ?dir = k" "w_key w2 (st_baseDir s) = ?b" using a2 by (simp_all add: agrees_def k)
    have sub: "{x. below k x} \<subseteq> ?K" "{k} \<subseteq> ?K" by auto
    show ?thesis
    proof (cases e)
      case (Some e')
      let ?w = "rs_world st"
      have w': "w' = (if is_panic e' then ?w else cleanupNewDB k ?dir ?w)"
        using r hd g x T i Some by (auto simp: recoverSnapShot_def split: if_splits)
      have t3: "touches {k} w2 ?w" using it by simp
      note a3 = agrees_trans [OF a2 touches_agrees [OF t3 sub(2)]] and e3 = touches_same_env [OF t3]
      have "agrees ?K ?w (cleanupNewDB k ?dir ?w)"
        using same_env_key [OF e3] k2 sub(1) by (intro cleanupNewDB_agrees) simp_all
      then have "agrees ?K w w'" using w' a3 agrees_trans [OF a3] by simp
      moreover have "set (w_open w) - {k} \<subseteq> set (w_open w')"
        using w' e3 w2 by (auto simp: cleanupNewDB_open same_env_def)
      ultimately show ?thesis ..
    next
      case None
      let ?w = "restore_commit P st"
      have t3: "touches {k} w2 ?w"
        using it restore_commit_touches [of st P] by (auto intro: touches_trans)
      note a3 = agrees_trans [OF a2 touches_agrees [OF t3 sub(2)]] and e3 = touches_same_env [OF t3]
      have p: "restore_publish s k ?dir oldDirName header ?w = (r, s, w')"
        using r hd g x T i None by (simp add: recoverSnapShot_def)
      have f: "agrees ?K ?w w'" "set (w_open ?w) - {k} \<subseteq> set (w_open w')"
        using same_env_key [OF e3] k2 restore_publish_frame [OF p ks] by simp_all
      have "set (w_open w) - {k} \<subseteq> set (w_open w')" using f(2) e3 w2 by (auto simp: same_env_def)
      with agrees_trans [OF a3 f(1)] show ?thesis ..
    qed
  qed
qed

lemma recover_store:
  assumes "recoverSnapShot P s rd rn ct w = (r, s', w')" and "path_dirs (w_nodes w) (w_key w (st_baseDir s))"
  shows "s' = s \<or> s' = s\<lparr>st_db := new_key s rn ct w\<rparr>"
proof -
  let ?b = "w_key w (st_baseDir s)" and ?dir = "getNewRandomDBDirName (st_baseDir s) rn ct"
  obtain g w1 where g: "getCurrentDBDirName (st_baseDir s) w = (g, w1)" by fastforce
  note q = getCurrentDBDirName_quiet [OF g]
  have keys: "w_key w1 ?dir = ?b @ [last (new_key s rn ct w)]" "path_dirs (w_nodes w1) ?b"
    using quiet_key [OF q] assms(2) q by (simp_all add: quiet_def)
  have "h = new_key s rn ct w" if "db_open P ?dir w1 = (Inr h, w2)" for h w2
    using db_open_frame [OF keys(2,1) that] by simp
  then show ?thesis
    using assms(1) g
    by (auto simp: recoverSnapShot_def Let_def split: prod.splits sum.splits option.splits if_splits
        dest!: restore_publish_store)
qed

text \<open>After the swap only the removal of the old directory and the sync that follows it can fail.\<close>

lemma recover_late:
  assumes "recoverSnapShot P s rd rn ct w = (Inl e, s', w')" and "s' \<noteq> s"
  shows "\<exists>old w1 w2. getCurrentDBDirName (st_baseDir s) w = (Inr old, w1) \<and>
    (os_RemoveAll old w2 = (Inl e, w') \<or> syncDir (filepath_Dir old) w2 = (Some e, w'))"
proof -
  let ?dir = "getNewRandomDBDirName (st_baseDir s) rn ct"
  obtain hd rd1 where h0: "readSnapshotHeader rd = (hd, rd1)" by fastforce
  obtain g w1 where g0: "getCurrentDBDirName (st_baseDir s) w = (g, w1)" by fastforce
  obtain x w2 where x0: "db_open P ?dir w1 = (x, w2)" by fastforce
  obtain hdr where h: "readSnapshotHeader rd = (Inr hdr, rd1)"
    using assms h0 by (cases hd) (simp_all add: recoverSnapShot_def)
  obtain old where g: "getCurrentDBDirName (st_baseDir s) w = (Inr old, w1)"
    using assms h g0 by (cases g) (simp_all add: recoverSnapShot_def)
  obtain k where o: "db_open P ?dir w1 = (Inr k, w2)"
    using assms h g x0 by (cases x) (simp_all add: recoverSnapShot_def)
  obtain f st where s0: "restore_into P k rd1 w2 = (f, st)" by fastforce
  have "f = None" using assms h g o s0 by (cases f) (simp_all add: recoverSnapShot_def)
  then have "restore_publish s k ?dir old hdr (restore_commit P st) = (Inl e, s', w')"
    using assms(1) h g o s0 by (simp add: recoverSnapShot_def)
  then obtain w3 where "restore_swap s k old hdr w3 = (Inl e, s', w')"
    using assms(2) by (auto simp: restore_publish_def split: prod.splits option.splits)
  with g show ?thesis by (auto simp: restore_swap_def Let_def split: prod.splits sum.splits option.splits)
qed

lemma recover_keeps_contents:
  assumes "recoverSnapShot P s rd rn ct w = (r, s, w')" and inv: "store_inv s w" and "\<not> st_closed s"
    and f: "fresh_dir s rn ct w"
  shows "db_load (st_db s) w' = db_load (st_db s) w"
proof -
  obtain n where n: "dbdir_name n" "st_db s = w_key w (st_baseDir s) @ [n]" "dir_db (w_nodes w) (st_db s) \<noteq> None"
      "path_dirs (w_nodes w) (w_key w (st_baseDir s))" "st_db s \<in> set (w_open w)"
    using inv assms(3) by (auto simp: store_inv_def Let_def)
  have neq: "new_key s rn ct w \<noteq> st_db s" using f n(5) by (auto simp: fresh_dir_def)
  have a: "agrees (restore_paths (new_key s rn ct w) (w_key w (st_baseDir s))) w w'"
      "set (w_open w) - {new_key s rn ct w} \<subseteq> set (w_open w')"
    using recover_frame [OF assms(1) n(4) refl neq] by blast+
  have "st_db s \<notin> restore_paths (new_key s rn ct w) (w_key w (st_baseDir s))"
    using n(1,2) neq by (auto simp: below_snoc dbdir_name_def)
  then have "map_of (w_nodes w') (st_db s) = map_of (w_nodes w) (st_db s)" using a(1) by (simp add: agrees_def)
  then show ?thesis using a(2) n(5) neq by (auto simp: db_load_def dir_db_def)
qed

subsection \<open>Streams that are refused\<close>

lemma db_open_load: "db_open P p w = (Inr h, w') \<Longrightarrow> \<exists>db. db_load h w' = Some db"
  by (auto simp: db_open_def os_call_def Let_def db_load_def dir_db_def split: option.splits sum.splits if_splits)

lemma recover_refused:
  assumes "\<And>w2 db h. db_load h w2 = Some db \<Longrightarrow> \<exists>e st. restore_into P h rd1 w2 = (Some e, st)"
    and "readSnapshotHeader rd = (Inr header, rd1)"
  shows "\<exists>e w'. recoverSnapShot P s rd rn ct w = (Inl e, s, w')"
proof -
  obtain g w1 where g: "getCurrentDBDirName (st_baseDir s) w = (g, w1)" by fastforce
  obtain x w2 where x: "db_open P (getNewRandomDBDirName (st_baseDir s) rn ct) w1 = (x, w2)" by fastforce
  show ?thesis
  proof (cases g; cases x)
    fix old h assume gx: "g = Inr old" "x = Inr h"
    then obtain db where "db_load h w2 = Some db" using db_open_load x by blast
    then obtain e st where "restore_into P h rd1 w2 = (Some e, st)" using assms by blast
    then show ?thesis using assms(2) g x gx by (simp add: recoverSnapShot_def)
  qed (use assms(2) g x in \<open>simp_all add: recoverSnapShot_def\<close>)
qed

text \<open>
  What a restore answers to records that disagree with the checksum that follows them: the mismatch, unless some
  value does not even decompress.
\<close>

definition damage_error :: "(bytes \<times> bytes) list \<Rightarrow> u32 \<Rightarrow> go_err \<Rightarrow> bool" where
  "damage_error kzs c e \<longleftrightarrow>
     (if \<forall>kz \<in> set kzs. \<exists>v. gzipDecode (snd kz) = Inr v
      then e = Errorf ''snapshot checksum mismatch: expected 0x%08x, got 0x%08x''
             [ANum (unat c), ANum (unat (crc_write crc_new (raw_records kzs)))]
      else \<exists>d. e = Errorf ''failed to decompress snapshot data: %w'' [AErr d])"

context pebble_live
begin

lemma recover_refused_healthy:
  assumes h: "healthy w" and inv: "store_inv s w" and f: "fresh_dir s rn ct w"
    and into: "\<And>w2 db k. db_load k w2 = Some db \<Longrightarrow> \<exists>e st. restore_into P k rd1 w2 = (Some e, st) \<and> Q e"
    and hdr: "readSnapshotHeader rd = (Inr header, rd1)"
  shows "\<exists>e w'. recoverSnapShot P s rd rn ct w = (Inl e, s, w') \<and> Q e"
proof -
  obtain n where "recorded_dir (w_nodes w) (w_key w (st_baseDir s)) = Some (filepath_Join (st_baseDir s) n)"
    and pd: "path_dirs (w_nodes w) (w_key w (st_baseDir s))"
    using inv by (auto simp: store_inv_def Let_def)
  then obtain old w1 where g: "getCurrentDBDirName (st_baseDir s) w = (Inr old, w1)"
    using getCurrentDBDirName_healthy h by blast
  note q = getCurrentDBDirName_quiet [OF g]
  have pd1: "path_dirs (w_nodes w1) (w_key w1 (st_baseDir s))" and f1: "fresh_dir s rn ct w1"
    using q pd f quiet_key [OF q] by (simp_all add: quiet_def same_env_def fresh_dir_def)
  obtain k w2 db where o: "db_open P (getNewRandomDBDirName (st_baseDir s) rn ct) w1 = (Inr k, w2)" "db_load k w2 = Some db"
    using db_open_fresh [OF quiet_healthy [OF q h] pd1 f1 refl] by blast
  obtain e st where "restore_into P k rd1 w2 = (Some e, st)" "Q e" using into [OF o(2)] by blast
  then show ?thesis using hdr g o(1) by (simp add: recoverSnapShot_def Let_def)
qed

lemma restore_into_mismatch:
  assumes db: "db_load h w = Some db" and sz: "\<forall>kz \<in> set kzs. sizes_ok kz"
    and c: "c \<noteq> crc_write crc_new (raw_records kzs)"
  shows "\<exists>e st. restore_into P h \<lparr>rd_data = raw_records kzs @ putUint32 c, rd_end = ErrEOF\<rparr> w = (Some e, st) \<and> damage_error kzs c e"
proof -
  let ?ok = "\<lambda>kz. \<exists>v. gzipDecode (snd kz) = Inr v"
  let ?pre = "takeWhile ?ok kzs" and ?post = "dropWhile ?ok kzs"
  let ?tail = "raw_records ?post @ putUint32 c"
  have split: "raw_records kzs = raw_records ?pre @ raw_records ?post"
    by (simp flip: raw_records_simps(3))
  let ?st = "\<lparr>rs_reader = \<lparr>rd_data = raw_records ?pre @ ?tail, rd_end = ErrEOF\<rparr>, rs_hash = crc_new,
       rs_wb = newPebbleWriteBatch P h (the (db_load h w)), rs_k = 0, rs_count = 0, rs_world = w\<rparr>"
  have r: "restoring view pend (view db) ?st"
    using db by (simp add: restoring_def newPebbleWriteBatch_def batch_new)
  obtain kvs where dec: "list_all2 (\<lambda>kz kv. fst kv = fst kz \<and> gzipDecode (snd kz) = Inr (snd kv)) ?pre kvs"
  proof
    let ?f = "\<lambda>kz. (fst kz, case gzipDecode (snd kz) of Inr v \<Rightarrow> v | Inl _ \<Rightarrow> [])"
    show "list_all2 (\<lambda>kz kv. fst kv = fst kz \<and> gzipDecode (snd kz) = Inr (snd kv)) ?pre (map ?f ?pre)"
      unfolding list_all2_map2 list_all2_same by (intro ballI) (drule set_takeWhileD, auto)
  qed
  have sz': "\<forall>kz \<in> set ?pre. sizes_ok kz" using sz by (auto dest: set_takeWhileD)
  obtain st where st: "restore_loop P ?st = restore_loop P st" "rs_reader st = \<lparr>rd_data = ?tail, rd_end = ErrEOF\<rparr>"
      "rs_hash st = crc_write crc_new (raw_records ?pre)"
    using restore_loop_records [OF r _ sz' dec, of ?tail ErrEOF] by auto
  have "\<exists>e st'. restore_loop P st = (Some e, st') \<and> damage_error kzs c e"
  proof (cases ?post)
    case Nil
    have "rs_hash st \<noteq> c" using c st(3) unfolding split Nil by auto
    moreover have "\<forall>kz \<in> set kzs. ?ok kz" using Nil by (simp add: dropWhile_eq_Nil_conv)
    moreover have "rs_hash st = crc_write crc_new (raw_records kzs)" using st(3) unfolding split Nil by simp
    ultimately show ?thesis using restore_loop_checksum [of st c P] st(2) unfolding Nil by (auto simp: damage_error_def)
  next
    case (Cons kz rest)
    then have bad: "\<not> ?ok kz" "kz \<in> set kzs"
      using hd_dropWhile [of ?ok kzs] set_dropWhileD [of kz ?ok kzs] by simp_all
    obtain k z where kz: "kz = (k, z)" by fastforce
    obtain e where "gzipDecode z = Inl e" using bad(1) kz by (cases "gzipDecode z") auto
    then obtain st' where "restore_loop P st = (Some (Errorf ''failed to decompress snapshot data: %w'' [AErr e]), st')"
      using restore_loop_bad_value [of st k z "raw_records rest @ putUint32 c" ErrEOF e P] st(2) Cons kz bad(2) sz
      by auto
    moreover have "\<not> (\<forall>kz \<in> set kzs. ?ok kz)" using bad by blast
    ultimately show ?thesis by (auto simp: damage_error_def)
  qed
  then show ?thesis using st(1) by (simp add: restore_into_def split)
qed

end

end
