(* ===== verification/Fsm_Start.thy ===== *)
theory Fsm_Start
  imports Fsm_Recover
begin

text \<open>
  Opening a store with \<open>newStore\<close>: on a base directory that holds a database (a restart, also
  after a crash) and on one that holds none (the first run).
\<close>

lemma mkdirs_path:
  "path_dirs ns b \<Longrightarrow> mkdirs [] b ns = Some ns"
  by (rule mkdirs_id) (simp add: path_dirs_def)

lemma getPebbleDBDir_first:
  assumes h: "healthy w" and pd: "is_dir (w_nodes w) b" and b: "w_key w dir = b"
    and none: "map_of (w_nodes w) (b @ [currentDBFilename]) = None"
    and u: "\<not> is_dir (w_nodes w) (b @ [updatingDBFilename])"
  shows "\<exists>w'. getPebbleDBDir dir rn ct w = (Inr (getNewRandomDBDirName dir rn ct), w') \<and> same_env w w' \<and>
    map_of (w_nodes w') = (map_of (w_nodes w))(b @ [updatingDBFilename] := None,
      b @ [currentDBFilename] \<mapsto> RegFile (dbdir_record (getNewRandomDBDirName dir rn ct)))"
proof -
  let ?d = "getNewRandomDBDirName dir rn ct"
  let ?rec = "RegFile (dbdir_record ?d)"
  have "fst (isNewRun dir w) = True"
    using h none b by (simp add: isNewRun_def os_Stat_def fs_simps os_IsNotExist_def)
  then obtain w1 where i: "isNewRun dir w = (True, w1)" by (metis prod.collapse)
  note q = isNewRun_quiet [OF i]
  have k1: "w_key w1 dir = b" "w_nodes w1 = w_nodes w" "healthy w1"
    using quiet_key [OF q] b q quiet_healthy [OF q h] by (simp_all add: quiet_def)
  obtain w2 where s2: "saveCurrentDBDirName dir ?d w1 = (None, w2)"
      and m2: "map_of (w_nodes w2) = (map_of (w_nodes w))(b @ [updatingDBFilename] \<mapsto> ?rec)"
    using saveCurrentDBDirName_healthy [OF k1(3), of dir ?d] pd u k1 by auto
  note e2 = touches_same_env [OF saveCurrentDBDirName_touches [OF s2]]
  have k2: "w_key w2 dir = b" "healthy w2"
    using same_env_key [OF e2] same_env_healthy [OF e2] k1 by simp_all
  have "is_dir (w_nodes w2) b" "\<not> is_dir (w_nodes w2) (b @ [currentDBFilename])"
    using pd none by (simp_all add: is_dir_def m2)
  then obtain w3 where s3: "replaceCurrentDBFile dir w2 = (None, w3)"
      and m3: "map_of (w_nodes w3) = (map_of (w_nodes w2))(b @ [updatingDBFilename] := None, b @ [currentDBFilename] \<mapsto> ?rec)"
    using replaceCurrentDBFile_healthy [OF k2(2), of dir "dbdir_record ?d"] m2 k2 by auto
  have "same_env w w3"
    using quiet_same_env [OF q] e2 touches_same_env [OF replaceCurrentDBFile_touches [OF s3]]
    by (blast intro: same_env_trans)
  moreover have "getPebbleDBDir dir rn ct w = (Inr ?d, w3)"
    by (simp add: getPebbleDBDir_def i s2 s3)
  ultimately show ?thesis using m2 m3 by simp
qed

context pebble_live
begin

lemma db_open_existing:
  assumes h: "healthy w" and d: "path_dirs (w_nodes w) b" and k: "w_key w p = b @ [n]"
    and o: "b @ [n] \<notin> set (w_open w)" and db: "dir_db (w_nodes w) (b @ [n]) = Some d0"
  shows "\<exists>db w'. db_open P p w = (Inr (b @ [n]), w') \<and> view db = view d0 \<and> db_load (b @ [n]) w' = Some db \<and>
    map_of (w_nodes w') = (map_of (w_nodes w))(b @ [n] \<mapsto> Directory (Some db)) \<and> w_cwd w' = w_cwd w"
proof -
  obtain db' where db': "pb_open P (Some d0) = Inr db'" using open_old_live by blast
  have node: "map_of (w_nodes w) (b @ [n]) = Some (Directory (Some d0))"
    using db by (auto simp: dir_db_def split: option.splits node.splits)
  then have "mkdirs [] (b @ [n]) (w_nodes w) = Some (w_nodes w)" using mkdirs_child [OF d] by simp
  then have "db_open P p w = (Inr (b @ [n]),
      (set_nodes (map_set (b @ [n]) (Directory (Some db')) (w_nodes w)) (tick w))\<lparr>w_open := (b @ [n]) # w_open w\<rparr>)"
    using h k o node db' by (simp add: db_open_def fs_simps Let_def)
  then show ?thesis
    using open_old [OF db'] by (simp add: db_load_def dir_db_def)
qed

lemma newStore_restart:
  assumes h: "healthy w" and wf: "wf_world w" and hold: "holds_db view (w_cwd w) dir m (w_nodes w)"
    and o: "w_open w = []"
  shows "\<exists>s w' db. newStore P dir rn ct w = (Inr s, w') \<and> st_baseDir s = dir \<and> \<not> st_closed s \<and>
    store_inv s w' \<and> db_load (st_db s) w' = Some db \<and> view db = m"
proof -
  let ?b = "w_key w dir"
  obtain n d where pd: "path_dirs (w_nodes w) ?b" and n: "dbdir_name n"
      and rec: "recorded_dir (w_nodes w) ?b = Some (filepath_Join dir n)"
      and d: "dir_db (w_nodes w) (?b @ [n]) = Some d" "view d = m"
    using hold by (auto simp: holds_db_def)
  let ?w1 = "set_nodes (w_nodes w) (tick w)"
  have mk: "os_MkdirAll dir w = (Inr (), ?w1)"
    using h mkdirs_path [OF pd] by (simp add: os_MkdirAll_def fs_simps)
  obtain w2 where g: "getPebbleDBDir dir rn ct ?w1 = (Inr (filepath_Join dir n), w2)" and e2: "same_env ?w1 w2"
      and u2: "map_of (w_nodes w2) (?b @ [updatingDBFilename]) = None"
      and m2: "\<forall>k. \<not> below (?b @ [updatingDBFilename]) k \<longrightarrow> map_of (w_nodes w2) k =
       (if \<exists>x. x \<noteq> n \<and> is_dir (w_nodes w) (?b @ [x]) \<and> below (?b @ [x]) k then None else map_of (w_nodes w) k)"
    using getPebbleDBDir_restart [of ?w1 dir n rn ct] h wf_world_nodes [OF wf] path_dirs_is_dir [OF pd] rec n
      dir_db_is_dir [of "w_nodes w" "?b @ [n]"] d by (auto simp: dbdir_name_def cong: if_cong)
  have same: "map_of (w_nodes w2) x = map_of (w_nodes w) x" if "length x \<le> length ?b \<or> x = ?b @ [n]" for x
  proof -
    have "\<not> below (?b @ [y]) x" if "y \<noteq> n" for y
      using that \<open>length x \<le> length ?b \<or> x = ?b @ [n]\<close> by (auto simp: below_def)
    then show ?thesis using n m2 by (auto simp: dbdir_name_def)
  qed
  have run: "map_of (w_nodes w2) (?b @ [currentDBFilename]) = map_of (w_nodes w) (?b @ [currentDBFilename])"
    using m2 recorded_not_dir [OF rec] by (auto simp: below_snoc)
  have pd2: "path_dirs (w_nodes w2) ?b" by (rule path_dirs_agree [OF pd]) (simp add: same)
  have k2: "w_key w2 dir = ?b" "w_open w2 = []" using e2 o by (simp_all add: same_env_def)
  have d2: "dir_db (w_nodes w2) (?b @ [n]) = Some d" using same d by (simp add: dir_db_def)
  have h2: "healthy w2" using same_env_healthy [OF e2] h by simp
  obtain db w3 where op: "db_open P (filepath_Join dir n) w2 = (Inr (?b @ [n]), w3)" and v: "view db = m"
      and l: "db_load (?b @ [n]) w3 = Some db" "w_cwd w3 = w_cwd w"
      and m3: "map_of (w_nodes w3) = (map_of (w_nodes w2))(?b @ [n] \<mapsto> Directory (Some db))"
    using db_open_existing [OF h2 pd2 _ _ d2, of "filepath_Join dir n"] k2 n d(2) e2
    by (auto simp: dbdir_name_def same_env_def)
  have "path_dirs (w_nodes w3) ?b" by (rule path_dirs_agree [OF pd2]) (auto simp: m3)
  moreover have "recorded_dir (w_nodes w3) ?b = Some (filepath_Join dir n)"
    using rec run n by (auto simp: recorded_dir_def m3 dbdir_name_def)
  moreover have "\<not> is_dir (w_nodes w3) (?b @ [updatingDBFilename])"
    using u2 n by (auto simp: is_dir_def m3 dbdir_name_def)
  ultimately have "store_inv \<lparr>st_baseDir = dir, st_db = ?b @ [n], st_closed = False\<rparr> w3"
    using l n by (auto simp: store_inv_def db_load_def split: if_splits)
  moreover have "newStore P dir rn ct w = (Inr \<lparr>st_baseDir = dir, st_db = ?b @ [n], st_closed = False\<rparr>, w3)"
    by (simp add: newStore_def mk g op)
  ultimately show ?thesis using l v by auto
qed

lemma newStore_first:
  assumes h: "healthy w" and b: "w_key w dir = b" and mk: "mkdirs [] b (w_nodes w) = Some ns"
    and none: "map_of (w_nodes w) (b @ [currentDBFilename]) = None"
    and u: "\<not> is_dir (w_nodes w) (b @ [updatingDBFilename])"
    and f: "map_of (w_nodes w) (w_key w (getNewRandomDBDirName dir rn ct)) = None" and o: "w_open w = []"
  shows "\<exists>s w' db. newStore P dir rn ct w = (Inr s, w') \<and> st_baseDir s = dir \<and> \<not> st_closed s \<and>
    store_inv s w' \<and> db_load (st_db s) w' = Some db \<and> view db = Map.empty"
proof -
  define n where "n = show_nat (unat rn) @ CHR ''_'' # show_int ct"
  let ?d = "getNewRandomDBDirName dir rn ct" and ?w1 = "set_nodes ns (tick w)"
  have d: "?d = filepath_Join dir n" "dbdir_name n" "w_key w ?d = b @ [n]"
    using b by (simp_all add: n_def getNewRandomDBDirName_def dbdir_name_random plain_name_show)
  have below_b: "map_of ns (b @ [x]) = map_of (w_nodes w) (b @ [x])" for x
    using mkdirs_new [OF mk, of "b @ [x]"] by (fastforce dest: arg_cong [where f = length])
  have pd: "path_dirs ns b" using mkdirs_path_dirs [OF mk] by (simp add: path_dirs_def is_dir_def)
  have mkd: "os_MkdirAll dir w = (Inr (), ?w1)" using h mk b by (simp add: os_MkdirAll_def fs_simps)
  obtain w2 where g: "getPebbleDBDir dir rn ct ?w1 = (Inr ?d, w2)" and e2: "same_env ?w1 w2"
      and m2: "map_of (w_nodes w2) = (map_of ns)(b @ [updatingDBFilename] := None,
        b @ [currentDBFilename] \<mapsto> RegFile (dbdir_record ?d))"
    using getPebbleDBDir_first [of ?w1 b dir rn ct] h path_dirs_is_dir [OF pd] b none u below_b
    by (auto simp: is_dir_def)
  let ?s = "\<lparr>st_baseDir = dir, st_db = b @ [n], st_closed = False\<rparr>"
  have pd2: "path_dirs (w_nodes w2) b" by (rule path_dirs_agree [OF pd]) (auto simp: m2)
  have k2: "w_key w2 dir = b" "w_open w2 = []" "w_cwd w2 = w_cwd w" using e2 o b by (simp_all add: same_env_def)
  have h2: "healthy w2" using same_env_healthy [OF e2] h by simp
  have kk: "b @ [n] = new_key ?s rn ct w2" using k2(1) by (simp add: n_def)
  have "map_of (w_nodes w2) (b @ [n]) = None"
    using f below_b [of n] d by (auto simp: m2 dbdir_name_def)
  then have fr: "fresh_dir ?s rn ct w2" unfolding fresh_dir_def kk [symmetric] using k2(2) by simp
  have pd2': "path_dirs (w_nodes w2) (w_key w2 (st_baseDir ?s))" using pd2 k2(1) by simp
  obtain db w3 where op: "db_open P ?d w2 = (Inr (b @ [n]), w3)" "view db = Map.empty"
      "db_load (b @ [n]) w3 = Some db" and m3: "map_of (w_nodes w3) = (map_of (w_nodes w2))(b @ [n] \<mapsto> Directory (Some db))"
      and e3: "same_env (w2\<lparr>w_open := (b @ [n]) # w_open w2\<rparr>) w3"
    using db_open_fresh [OF h2 pd2' fr kk] unfolding store.select_convs by blast
  have c3: "w_cwd w3 = w_cwd w" using e3 k2(3) by (simp add: same_env_def)
  have "path_dirs (w_nodes w3) b" by (rule path_dirs_agree [OF pd2]) (auto simp: m3)
  moreover have "recorded_dir (w_nodes w3) b = Some (filepath_Join dir n)"
    using d by (intro recorded_dir_record) (auto simp: m3 m2 dbdir_name_def filepath_Join_not_Nil)
  moreover have "\<not> is_dir (w_nodes w3) (b @ [updatingDBFilename])"
    using d by (auto simp: is_dir_def m3 m2 dbdir_name_def)
  ultimately have "store_inv ?s w3"
    using op(3) d(2) b c3 by (auto simp: store_inv_def db_load_def split: if_splits)
  moreover have "newStore P dir rn ct w = (Inr ?s, w3)"
    by (simp add: newStore_def mkd g op)
  ultimately show ?thesis using op by auto
qed

end

text \<open>A recorded directory that is not there is never recovered from: every start fails.\<close>

lemma getPebbleDBDir_missing:
  assumes h: "healthy w" and wf: "wf_nodes (w_nodes w)" and d: "is_dir (w_nodes w) (w_key w dir)"
    and rec: "recorded_dir (w_nodes w) (w_key w dir) = Some (filepath_Join dir n)"
    and n: "dbdir_name n" and none: "map_of (w_nodes w) (w_key w dir @ [n]) = None"
  shows "\<exists>w'. getPebbleDBDir dir rn ct w = (Inl (ErrNew ''db dir unexpectedly deleted''), w') \<and> same_env w w' \<and>
    (\<forall>m. m \<noteq> updatingDBFilename \<longrightarrow> \<not> is_dir (w_nodes w') (w_key w dir @ [m]))"
proof -
  let ?b = "w_key w dir" and ?s = "filepath_Join dir n"
  have "map_of (w_nodes w) (?b @ [currentDBFilename]) \<noteq> None"
    using rec by (auto simp: recorded_dir_def split: option.splits)
  then have "fst (isNewRun dir w) = False"
    using h by (auto simp: isNewRun_def os_Stat_def fs_simps split: node.splits)
  then obtain w1 where i: "isNewRun dir w = (False, w1)" by (metis prod.collapse)
  note q1 = isNewRun_quiet [OF i]
  have k1: "w_key w1 dir = ?b" "w_nodes w1 = w_nodes w" "healthy w1"
    using quiet_key [OF q1] quiet_healthy [OF q1 h] q1 by (auto simp: quiet_def)
  obtain w2 where c: "cleanupNodeDataDir dir w1 = (None, w2)"
    using cleanupNodeDataDir_healthy [of w1 dir ?s] k1 d rec by auto
  have ok: "same_env w1 w2" "\<forall>k. \<not> below (?b @ [updatingDBFilename]) k \<longrightarrow> map_of (w_nodes w2) k =
      (if doomed dir ?s ?b (\<lambda>m. is_dir (w_nodes w) (?b @ [m])) k then None else map_of (w_nodes w) k)"
    using cleanupNodeDataDir_ok [OF c] k1 wf rec by auto
  have k2: "w_key w2 dir = ?b" "healthy w2"
    using same_env_key [OF ok(1)] same_env_healthy [OF ok(1)] k1 by auto
  have plain: "plain_name m" if "is_dir (w_nodes w) (?b @ [m])" for m
    using dir_entries_plain [OF wf] that dir_entries_dir by blast
  have gone: "\<not> is_dir (w_nodes w2) (?b @ [m])" if "m \<noteq> updatingDBFilename" for m
  proof
    assume dir2: "is_dir (w_nodes w2) (?b @ [m])"
    have look: "map_of (w_nodes w2) (?b @ [m]) =
        (if doomed dir ?s ?b (\<lambda>m. is_dir (w_nodes w) (?b @ [m])) (?b @ [m]) then None else map_of (w_nodes w) (?b @ [m]))"
      using ok(2) that by (simp add: below_snoc)
    then have dir1: "is_dir (w_nodes w) (?b @ [m])" and nd: "\<not> doomed dir ?s ?b (\<lambda>m. is_dir (w_nodes w) (?b @ [m])) (?b @ [m])"
      using dir2 by (auto simp: is_dir_def split: if_splits)
    have "m \<noteq> n" using dir1 none by (auto simp: is_dir_def)
    then have "filepath_Join dir m \<noteq> ?s" using plain [OF dir1] n filepath_Join_inj by (auto simp: dbdir_name_def)
    with nd dir1 show False by (auto simp: doomed_def)
  qed
  have "map_of (w_nodes w2) (?b @ [currentDBFilename]) = map_of (w_nodes w) (?b @ [currentDBFilename])"
    using ok(2) recorded_not_dir [OF rec] by (auto simp: below_snoc doomed_def)
  then have "recorded_dir (w_nodes w2) (w_key w2 dir) = Some ?s" using rec k2 by (simp add: recorded_dir_def)
  then obtain w3 where g: "getCurrentDBDirName dir w2 = (Inr ?s, w3)" and q3: "quiet w2 w3"
    using getCurrentDBDirName_healthy k2(2) by blast
  have "map_of (w_nodes w3) (w_key w3 ?s) = None"
    using ok(2) none n q3 k2 quiet_key [OF q3] by (auto simp: below_snoc quiet_def dbdir_name_def)
  then have "os_Stat ?s w3 = (Inl OsNotExist, tick w3)"
    using quiet_healthy [OF q3 k2(2)] n by (simp add: os_Stat_def fs_simps dbdir_name_def)
  with i c g have "getPebbleDBDir dir rn ct w = (Inl (ErrNew ''db dir unexpectedly deleted''), tick w3)"
    by (simp add: getPebbleDBDir_def os_IsNotExist_def)
  moreover have "same_env w (tick w3)"
    using q1 ok(1) q3 by (meson quiet_same_env quiet_tick same_env_trans)
  moreover have "w_nodes (tick w3) = w_nodes w2" using q3 by (simp add: quiet_def)
  ultimately show ?thesis using gone by auto
qed

lemma newStore_missing:
  assumes h: "healthy w" and wf: "wf_nodes (w_nodes w)" and pd: "path_dirs (w_nodes w) (w_key w dir)"
    and rec: "recorded_dir (w_nodes w) (w_key w dir) = Some (filepath_Join dir n)"
    and n: "dbdir_name n" and none: "map_of (w_nodes w) (w_key w dir @ [n]) = None"
  shows "\<exists>w'. newStore P dir rn ct w = (Inl (ErrNew ''db dir unexpectedly deleted''), w') \<and>
    (\<forall>m. m \<noteq> updatingDBFilename \<longrightarrow> \<not> is_dir (w_nodes w') (w_key w dir @ [m]))"
proof -
  let ?w1 = "set_nodes (w_nodes w) (tick w)"
  have "os_MkdirAll dir w = (Inr (), ?w1)"
    using h mkdirs_path [OF pd] by (simp add: os_MkdirAll_def fs_simps)
  then show ?thesis
    using getPebbleDBDir_missing [of ?w1 dir n rn ct] h wf path_dirs_is_dir [OF pd] rec n none
    by (auto simp: newStore_def)
qed

end
