(* ===== verification/Fsm_Machine.thy ===== *)
theory Fsm_Machine
  imports Fsm_Start
begin

text \<open>
  The replicated state machine of \<open>src/fsm/fsm.go\<close>: applying log entries, snapshots, restores, the
  abandon channel and closing. Channels that are only ever closed are numbers; the record keeps the
  next free one and the list of closed ones. Clock readings and the random directory name are
  arguments; the metrics' times are integers.
\<close>

record SnapshotMetrics =
  mt_LastSnapshotDuration :: int
  mt_LastSnapshotSize :: u64
  mt_LastSnapshotRecords :: u64
  mt_LastSnapshotTime :: int
  mt_LastRestoreDuration :: int
  mt_LastRestoreTime :: int
  mt_SnapshotCount :: u64
  mt_RestoreCount :: u64

definition no_metrics :: SnapshotMetrics where
  "no_metrics = \<lparr>mt_LastSnapshotDuration = 0, mt_LastSnapshotSize = 0, mt_LastSnapshotRecords = 0,
     mt_LastSnapshotTime = 0, mt_LastRestoreDuration = 0, mt_LastRestoreTime = 0,
     mt_SnapshotCount = 0, mt_RestoreCount = 0\<rparr>"

record StateMachine =
  sm_raftAddr :: string
  sm_nodeId :: string
  sm_fsmIndex :: u64
  sm_store :: store
  sm_abandonCh :: nat
  sm_nextCh :: nat
  sm_closedChs :: "nat list"
  sm_metrics :: SnapshotMetrics

record raft_log =
  log_Index :: u64
  log_Data :: bytes

definition NewStateMachine ::
  "('db, 'b) pebble \<Rightarrow> string \<Rightarrow> string \<Rightarrow> string \<Rightarrow> u64 \<Rightarrow> int \<Rightarrow> 'db world
   \<Rightarrow> StateMachine result \<times> 'db world" where
  "NewStateMachine P raftAddr nodeId dir rn ct w =
     (case newStore P dir rn ct w of
        (Inl e, w1) \<Rightarrow> (Inl e, w1)
      | (Inr st, w1) \<Rightarrow>
          (Inr \<lparr>sm_raftAddr = raftAddr, sm_nodeId = nodeId, sm_fsmIndex = 0, sm_store = st,
                sm_abandonCh = 0, sm_nextCh = 1, sm_closedChs = [], sm_metrics = no_metrics\<rparr>, w1))"

definition GetFsmIndex :: "StateMachine \<Rightarrow> u64" where
  "GetFsmIndex r = sm_fsmIndex r"

definition UpdateFsmIndex :: "u64 \<Rightarrow> StateMachine \<Rightarrow> StateMachine" where
  "UpdateFsmIndex index r = (if sm_fsmIndex r < index then r\<lparr>sm_fsmIndex := index\<rparr> else r)"

definition ReadLocal ::
  "('db, 'b) pebble \<Rightarrow> StateMachine \<Rightarrow> bytes \<Rightarrow> 'db world \<Rightarrow> CommandResponse" where
  "ReadLocal P r key w =
     (case store_query P (sm_store r) key w of (val, e) \<Rightarrow> \<lparr>resp_Val = val, resp_Error = e\<rparr>)"

definition Apply ::
  "('db, 'b) pebble \<Rightarrow> raft_log \<Rightarrow> StateMachine \<Rightarrow> 'db world \<Rightarrow> CommandResponse \<times> StateMachine \<times> 'db world" where
  "Apply P log r w =
     (if isclosed (sm_store r) then (\<lparr>resp_Val = [], resp_Error = Some ErrClosed\<rparr>, r, w)
      else case applyCommand P (sm_store r) (log_Data log) w of
             (resp, w1) \<Rightarrow> (resp, r\<lparr>sm_fsmIndex := log_Index log\<rparr>, w1))"

subsection \<open>Snapshots\<close>

record 'db fsmSnapshot =
  fs_snapshot :: 'db
  fs_lastIndex :: u64
  fs_startTime :: int

definition Snapshot :: "StateMachine \<Rightarrow> int \<Rightarrow> 'db world \<Rightarrow> 'db fsmSnapshot result" where
  "Snapshot r now w =
     (if isclosed (sm_store r) then Inl ErrClosed
      else case getSnapshot (sm_store r) w of
             None \<Rightarrow> Inl db_panic
           | Some db \<Rightarrow> Inr \<lparr>fs_snapshot = db, fs_lastIndex = sm_fsmIndex r, fs_startTime = now\<rparr>)"

definition Persist ::
  "('db, 'b) pebble \<Rightarrow> 'gw gzip_ops \<Rightarrow> 's sink_ops \<Rightarrow> 'db fsmSnapshot \<Rightarrow> int \<Rightarrow> int \<Rightarrow> int \<Rightarrow> 's \<Rightarrow> StateMachine
   \<Rightarrow> go_err option \<times> 's \<times> StateMachine" where
  "Persist P Z K s unix duration now sink r =
     (case saveSnapShot P Z K (sm_nodeId r) (fs_lastIndex s) unix duration (fs_snapshot s) sink of
        (Inl e, sink1) \<Rightarrow> (Some e, sink1, r)
      | (Inr res, sink1) \<Rightarrow>
          (None, sink1, r\<lparr>sm_metrics := (sm_metrics r)\<lparr>
             mt_SnapshotCount := mt_SnapshotCount (sm_metrics r) + 1,
             mt_LastSnapshotDuration := now - fs_startTime s,
             mt_LastSnapshotSize := sr_Size res,
             mt_LastSnapshotRecords := sr_Records res,
             mt_LastSnapshotTime := now\<rparr>\<rparr>))"

definition AbandonCh :: "StateMachine \<Rightarrow> nat" where
  "AbandonCh r = sm_abandonCh r"

definition abandon :: "StateMachine \<Rightarrow> StateMachine" where
  "abandon r =
     (let oldCh = sm_abandonCh r;
          r1 = r\<lparr>sm_abandonCh := sm_nextCh r, sm_nextCh := Suc (sm_nextCh r)\<rparr>
      in r1\<lparr>sm_closedChs := oldCh # sm_closedChs r1\<rparr>)"

definition Restore ::
  "('db, 'b) pebble \<Rightarrow> reader \<Rightarrow> u64 \<Rightarrow> int \<Rightarrow> int \<Rightarrow> int \<Rightarrow> StateMachine \<Rightarrow> 'db world
   \<Rightarrow> go_err option \<times> StateMachine \<times> 'db world" where
  "Restore P rd rn ct startTime now r w =
     (if isclosed (sm_store r) then (Some ErrClosed, r, w)
      else case recoverSnapShot P (sm_store r) rd rn ct w of
             (Inl e, st, w1) \<Rightarrow> (Some e, r\<lparr>sm_store := st\<rparr>, w1)
           | (Inr header, st, w1) \<Rightarrow>
               (let r1 = r\<lparr>sm_store := st\<rparr>;
                    r2 = (if 0 < hd_LastIndex header then r1\<lparr>sm_fsmIndex := hd_LastIndex header\<rparr> else r1);
                    r3 = r2\<lparr>sm_metrics := (sm_metrics r2)\<lparr>
                           mt_RestoreCount := mt_RestoreCount (sm_metrics r2) + 1,
                           mt_LastRestoreDuration := now - startTime,
                           mt_LastRestoreTime := now\<rparr>\<rparr>
                in (None, abandon r3, w1)))"

definition Close :: "StateMachine \<Rightarrow> 'db world \<Rightarrow> go_err option \<times> StateMachine \<times> 'db world" where
  "Close r w =
     (if isclosed (sm_store r) then (None, r, w)
      else case store_close (sm_store r) w of (e, st, w1) \<Rightarrow> (e, r\<lparr>sm_store := st\<rparr>, w1))"

subsection \<open>The invariant\<close>

definition chans_ok :: "StateMachine \<Rightarrow> bool" where
  "chans_ok r \<longleftrightarrow> sm_abandonCh r < sm_nextCh r \<and> sm_abandonCh r \<notin> set (sm_closedChs r) \<and>
     (\<forall>c \<in> set (sm_closedChs r). c < sm_nextCh r)"

definition machine_inv :: "StateMachine \<Rightarrow> 'db world \<Rightarrow> bool" where
  "machine_inv r w \<longleftrightarrow> store_inv (sm_store r) w \<and> wf_world w \<and> chans_ok r"

subsection \<open>Commands keep the invariant\<close>

lemma store_inv_plain:
  assumes "store_inv s w" and "wf_world w"
  shows "list_all plain_name (st_db s)"
  using assms wf_world_key [OF assms(2), of "st_baseDir s"] by (auto simp: store_inv_def Let_def dbdir_name_def)

lemma store_write_wf:
  "store_write P s b w = (e, w') \<Longrightarrow> wf_world w \<Longrightarrow> list_all plain_name (st_db s) \<Longrightarrow> wf_world w'"
  by (auto simp: store_write_def db_store_wf split: option.splits prod.splits)

lemma applyCommand_wf:
  "applyCommand P s d w = (r, w') \<Longrightarrow> wf_world w \<Longrightarrow> list_all plain_name (st_db s) \<Longrightarrow> wf_world w'"
  by (auto simp: applyCommand_def store_insert_def dest: store_write_wf
      split: sum.splits if_splits prod.splits option.splits)

lemma store_inv_touches:
  assumes inv: "store_inv s w" and t: "touches {st_db s} w w'" and ok: "store_ok s w'" "\<not> st_closed s"
  shows "store_inv s w'"
proof -
  let ?b = "w_key w (st_baseDir s)"
  obtain n where n: "dbdir_name n" "st_db s = ?b @ [n]" and pd: "path_dirs (w_nodes w) ?b"
      and u: "\<not> is_dir (w_nodes w) (?b @ [updatingDBFilename])"
      and rec: "recorded_dir (w_nodes w) ?b = Some (filepath_Join (st_baseDir s) n)"
    using inv by (auto simp: store_inv_def Let_def)
  have same: "map_of (w_nodes w') x = map_of (w_nodes w) x" if "x \<noteq> st_db s" for x
    using touches_lookup [OF t] that by simp
  have "path_dirs (w_nodes w') ?b" by (rule path_dirs_agree [OF pd], rule same) (auto simp: n)
  moreover have "recorded_dir (w_nodes w') ?b = Some (filepath_Join (st_baseDir s) n)"
    using rec n by (auto simp: recorded_dir_def same dbdir_name_def)
  moreover have "\<not> is_dir (w_nodes w') (?b @ [updatingDBFilename])"
    using u n by (auto simp: is_dir_def same dbdir_name_def)
  moreover have "w_key w' (st_baseDir s) = ?b" by (rule touches_key [OF t])
  moreover have "dir_db (w_nodes w') (st_db s) \<noteq> None" "st_db s \<in> set (w_open w')"
    using ok by (auto simp: store_ok_def db_load_def split: if_splits)
  ultimately show ?thesis using n by (auto simp: store_inv_def)
qed

abbreviation sm_kv :: "('db \<Rightarrow> kvmap) \<Rightarrow> StateMachine \<Rightarrow> 'db world \<Rightarrow> kvmap" where
  "sm_kv view r w \<equiv> kv_of view (sm_store r) w"

abbreviation sm_open :: "StateMachine \<Rightarrow> bool" where
  "sm_open r \<equiv> \<not> st_closed (sm_store r)"

context pebble_live
begin

lemma Apply_refines:
  assumes inv: "machine_inv r w" and op: "sm_open r" and a: "Apply P l r w = (resp, r', w')"
  shows "machine_inv r' w' \<and> r' = r\<lparr>sm_fsmIndex := log_Index l\<rparr> \<and> same_env w w' \<and>
    spec_apply (log_Data l) (sm_kv view r w) = (resp, sm_kv view r' w')"
proof -
  have c: "applyCommand P (sm_store r) (log_Data l) w = (resp, w')" and r': "r' = r\<lparr>sm_fsmIndex := log_Index l\<rparr>"
    using a op by (auto simp: Apply_def isclosed_def split: prod.splits)
  have s: "store_inv (sm_store r) w" "wf_world w" using inv by (simp_all add: machine_inv_def)
  note t = applyCommand_touches [OF c]
  have ref: "store_ok (sm_store r) w'" "spec_apply (log_Data l) (sm_kv view r w) = (resp, sm_kv view r w')"
    using applyCommand_refines [OF op store_inv_ok [OF s(1)] c] by blast+
  have "store_inv (sm_store r) w'" by (rule store_inv_touches [OF s(1) t ref(1) op])
  moreover have "wf_world w'" by (rule applyCommand_wf [OF c s(2) store_inv_plain [OF s]])
  ultimately show ?thesis
    using inv r' ref(2) touches_same_env [OF t] by (simp add: machine_inv_def chans_ok_def)
qed

end

subsection \<open>Channels\<close>

lemma abandon_chans:
  "chans_ok r \<Longrightarrow> chans_ok (abandon r) \<and> sm_abandonCh r \<in> set (sm_closedChs (abandon r)) \<and>
     sm_abandonCh (abandon r) \<notin> set (sm_closedChs (abandon r))"
  by (auto simp: abandon_def chans_ok_def Let_def)

lemma abandon_simps [simp]:
  "sm_store (abandon r) = sm_store r" "sm_fsmIndex (abandon r) = sm_fsmIndex r"
  "sm_nodeId (abandon r) = sm_nodeId r" "sm_metrics (abandon r) = sm_metrics r"
  by (simp_all add: abandon_def Let_def)

end
