(* ===== verification/Fsm_Replica.thy ===== *)
theory Fsm_Replica
  imports Fsm_Machine
begin

text \<open>
  Replicas: running a log on a state machine, snapshots of one replica restored on another, and
  restarts, all against the map a log describes.
\<close>

subsection \<open>Logs\<close>

fun apply_log ::
  "('db, 'b) pebble \<Rightarrow> raft_log list \<Rightarrow> StateMachine \<Rightarrow> 'db world
   \<Rightarrow> CommandResponse list \<times> StateMachine \<times> 'db world" where
  "apply_log P [] r w = ([], r, w)"
| "apply_log P (l # ls) r w =
     (case Apply P l r w of (resp, r1, w1) \<Rightarrow>
        (case apply_log P ls r1 w1 of (resps, r2, w2) \<Rightarrow> (resp # resps, r2, w2)))"

fun spec_log :: "bytes list \<Rightarrow> kvmap \<Rightarrow> CommandResponse list \<times> kvmap" where
  "spec_log [] m = ([], m)"
| "spec_log (d # ds) m =
     (case spec_apply d m of (resp, m1) \<Rightarrow>
        (case spec_log ds m1 of (resps, m2) \<Rightarrow> (resp # resps, m2)))"

definition last_index :: "raft_log list \<Rightarrow> u64 \<Rightarrow> u64" where
  "last_index ls i = (if ls = [] then i else log_Index (last ls))"

lemma spec_log_append:
  "spec_log (xs @ ys) m =
     (case spec_log xs m of (rs, m1) \<Rightarrow> (case spec_log ys m1 of (rs', m2) \<Rightarrow> (rs @ rs', m2)))"
  by (induction xs arbitrary: m) (auto split: prod.split)

context pebble_live
begin

lemma apply_log_refines:
  "machine_inv r w \<Longrightarrow> sm_open r \<Longrightarrow> apply_log P ls r w = (resps, r', w') \<Longrightarrow>
   machine_inv r' w' \<and> sm_open r' \<and> same_env w w' \<and> r' = r\<lparr>sm_fsmIndex := last_index ls (sm_fsmIndex r)\<rparr> \<and>
   spec_log (map log_Data ls) (sm_kv view r w) = (resps, sm_kv view r' w')"
proof (induction ls arbitrary: r w resps)
  case Nil
  then show ?case by (simp add: last_index_def)
next
  case (Cons l ls)
  obtain resp r1 w1 where a: "Apply P l r w = (resp, r1, w1)" by (metis surj_pair)
  obtain rs where rest: "apply_log P ls r1 w1 = (rs, r', w')" and rs: "resps = resp # rs"
    using Cons.prems(3) a by (auto split: prod.splits)
  have s: "machine_inv r1 w1" "r1 = r\<lparr>sm_fsmIndex := log_Index l\<rparr>" "same_env w w1"
      "spec_apply (log_Data l) (sm_kv view r w) = (resp, sm_kv view r1 w1)"
    using Apply_refines [OF Cons.prems(1,2) a] by blast+
  have "sm_open r1" using s(2) Cons.prems(2) by simp
  note IH = Cons.IH [OF s(1) this rest]
  have "same_env w w'" using s(3) IH by (blast intro: same_env_trans)
  moreover have "r' = r\<lparr>sm_fsmIndex := last_index (l # ls) (sm_fsmIndex r)\<rparr>"
    using IH s(2) by (auto simp: last_index_def)
  moreover have "spec_log (map log_Data (l # ls)) (sm_kv view r w) = (resps, sm_kv view r' w')"
    using IH by (simp add: s(4) rs)
  ultimately show ?case using IH by blast
qed

end

subsection \<open>What an insert-only log leaves\<close>

text \<open>The writes of a log, in order: the inserts that parse.\<close>

definition log_write :: "bytes \<Rightarrow> (bytes \<times> bytes) option" where
  "log_write d =
     (case unmarshal_Command d of
        Inl e \<Rightarrow> None
      | Inr c \<Rightarrow>
          if cmd_Type c = Insert then
            (case unmarshal_SetPayload (cmd_Payload c) of Inl e \<Rightarrow> None | Inr sp \<Rightarrow> Some (sp_Key sp, sp_Value sp))
          else None)"

definition log_writes :: "bytes list \<Rightarrow> (bytes \<times> bytes) list" where
  "log_writes ds = List.map_filter log_write ds"

lemma log_writes_simps [simp]:
  "log_writes [] = []"
  "log_writes (d # ds) = (case log_write d of None \<Rightarrow> log_writes ds | Some kv \<Rightarrow> kv # log_writes ds)"
  by (simp_all add: log_writes_def List.map_filter_def split: option.split)

lemma log_writes_append [simp]: "log_writes (xs @ ys) = log_writes xs @ log_writes ys"
  by (induction xs) (auto split: option.split)

lemma spec_apply_write:
  "snd (spec_apply d m) = (case log_write d of None \<Rightarrow> m | Some (k, v) \<Rightarrow> m(k \<mapsto> v))"
  by (auto simp: spec_apply_def log_write_def Insert_def Query_def split: sum.split)

lemma spec_log_writes: "snd (spec_log ds m) = m ++ map_of (rev (log_writes ds))"
proof (induction ds arbitrary: m)
  case (Cons d ds)
  obtain resp m1 where a: "spec_apply d m = (resp, m1)" by fastforce
  then have m1: "m1 = (case log_write d of None \<Rightarrow> m | Some (k, v) \<Rightarrow> m(k \<mapsto> v))"
    using spec_apply_write [of d m] by simp
  have "snd (spec_log (d # ds) m) = snd (spec_log ds m1)" by (simp add: a split: prod.split)
  also have "\<dots> = m1 ++ map_of (rev (log_writes ds))" by (rule Cons.IH)
  also have "\<dots> = m ++ map_of (rev (log_writes (d # ds)))"
    by (cases "log_write d") (auto simp: m1 fun_eq_iff map_add_def split: option.split)
  finally show ?case .
qed simp

text \<open>Running a log again on a state that already has a part of it ends where the log ends.\<close>

lemma map_add_prefix_again:
  assumes "set (map fst a) \<subseteq> set (map fst b)"
  shows "m ++ map_of (rev a) ++ map_of (rev b) = m ++ map_of (rev b)"
proof
  fix k
  show "(m ++ map_of (rev a) ++ map_of (rev b)) k = (m ++ map_of (rev b)) k"
  proof (cases "map_of (rev b) k")
    case None
    then have "k \<notin> set (map fst b)" by (simp add: map_of_eq_None_iff)
    then have "map_of (rev a) k = None" using assms by (auto simp: map_of_eq_None_iff)
    with None show ?thesis by (simp add: map_add_def)
  qed (simp add: map_add_def)
qed

lemma spec_log_replay:
  "snd (spec_log (xs @ ys) (snd (spec_log xs m))) = snd (spec_log (xs @ ys) m)"
  unfolding spec_log_writes log_writes_append by (rule map_add_prefix_again) auto

subsection \<open>Restoring keeps worlds well-formed\<close>

lemma db_open_key: "db_open P p w = (Inr h, w') \<Longrightarrow> h = w_key w p"
  by (auto simp: db_open_def os_call_def Let_def split: option.splits sum.splits if_splits)

lemma cleanupNewDB_wf: "wf_world w \<Longrightarrow> wf_world (cleanupNewDB h dbdir w)"
  by (simp add: cleanupNewDB_def os_RemoveAll_wf)

lemma restore_swap_wf: "restore_swap s h old header w = (r, s', w') \<Longrightarrow> wf_world w \<Longrightarrow> wf_world w'"
  unfolding restore_swap_def Let_def
  by (auto split: prod.splits sum.splits option.splits dest!: os_wfE syncDir_wf)

lemma restore_publish_wf:
  "restore_publish s h dbdir old header w = (r, s', w') \<Longrightarrow> wf_world w \<Longrightarrow> wf_world w'"
  unfolding restore_publish_def
  by (auto split: prod.splits option.splits if_splits
      dest!: saveCurrentDBDirName_wf replaceCurrentDBFile_wf restore_swap_wf intro: cleanupNewDB_wf)

lemma restore_into_wf:
  assumes "restore_into P h rd w2 = (e, st)" and "db_open P p w1 = (Inr h, w2)" and "wf_world w1"
  shows "wf_world (rs_world st) \<and> wf_world (restore_commit P st)"
proof -
  have "list_all plain_name h" using db_open_key [OF assms(2)] wf_world_key [OF assms(3), of p] by (simp only:)
  moreover have "wf_world w2" by (rule os_wfE(6) [OF assms(2,3)])
  ultimately show ?thesis
    using restore_into_touches [OF assms(1)] restore_commit_touches [of st P] by simp
qed

lemma recoverSnapShot_wf:
  "recoverSnapShot P s rd rn ct w = (r, s', w') \<Longrightarrow> wf_world w \<Longrightarrow> wf_world w'"
  unfolding recoverSnapShot_def Let_def
  by (auto split: prod.splits sum.splits option.splits if_splits
      dest!: getCurrentDBDirName_wf restore_publish_wf dest: os_wfE(6) restore_into_wf intro!: cleanupNewDB_wf)

subsection \<open>From one replica to another\<close>

text \<open>Keys and compressed values within what a snapshot can carry.\<close>

definition fits :: "'gw gzip_ops \<Rightarrow> kvmap \<Rightarrow> bool" where
  "fits Z m \<longleftrightarrow> (\<forall>k v. m k = Some v \<longrightarrow> length k \<le> 2 ^ 30 \<and> length (gz_val Z v) \<le> maxAlloc)"

lemma db_kv: "db_load (st_db s) w = Some db \<Longrightarrow> kv_of view s w = (\<lambda>k. view db (buildColumnFamilyKey 1 k))"
  by (simp add: kv_of_def)

context pebble_live
begin

lemma Restore_snapshot:
  assumes Z: "gzip_codec Z" and inv: "machine_inv r w" and op: "sm_open r" and h: "healthy w"
    and f: "fresh_dir (sm_store r) rn ct w" and node: "length nodeId < 2 ^ 16"
    and it: "pb_iter P snap = Inr (kvs, None)" and fit: "fits Z (view snap)"
  shows "\<exists>r' w' db. Restore P \<lparr>rd_data = snapshot_bytes Z nodeId lastIndex unix kvs, rd_end = ErrEOF\<rparr> rn ct t0 t1 r w
      = (None, r', w') \<and> machine_inv r' w' \<and> sm_open r' \<and> healthy w' \<and>
    db_load (st_db (sm_store r')) w' = Some db \<and> view db = view snap \<and>
    sm_fsmIndex r' = (if 0 < lastIndex then lastIndex else sm_fsmIndex r) \<and>
    sm_abandonCh r \<in> set (sm_closedChs r') \<and> sm_abandonCh r' \<notin> set (sm_closedChs r')"
proof -
  let ?s = "sm_store r"
  have inv': "store_inv ?s w" "wf_world w" "chans_ok r" using inv by (simp_all add: machine_inv_def)
  obtain old where old: "db_load (st_db ?s) w = Some old"
    using store_inv_ok [OF inv'(1)] op by (auto simp: store_ok_def)
  have kvs: "map_of kvs = view snap" "distinct (map fst kvs)"
    using iter_ok [OF it] strict_sorted_iff by blast+
  have sz: "\<forall>(k, v) \<in> set kvs. length k \<le> 2 ^ 30 \<and> length (gz_val Z v) \<le> maxAlloc"
    using fit kvs by (auto simp: fits_def dest: map_of_is_SomeI)
  obtain w' db where run: "recoverSnapShot P ?s \<lparr>rd_data = snapshot_bytes Z nodeId lastIndex unix kvs, rd_end = ErrEOF\<rparr> rn ct w =
      (Inr \<lparr>hd_Magic = snapshotMagic, hd_Version = snapshotVersion, hd_LastIndex = lastIndex,
          hd_Timestamp = word_of_int unix, hd_NodeId = nodeId, hd_Checksum = 0\<rparr>,
       ?s\<lparr>st_db := new_key ?s rn ct w\<rparr>, w')"
    and post: "db_load (new_key ?s rn ct w) w' = Some db" "view db = map_of kvs"
      "store_inv (?s\<lparr>st_db := new_key ?s rn ct w\<rparr>) w'" "healthy w'"
    using recover_snapshot [OF Z h inv'(1) op f old node sz kvs(2),
        of "putUint32 (crc_write crc_new (enc_records Z kvs))" lastIndex unix]
    unfolding snapshot_bytes_def by blast
  have "wf_world w'" by (rule recoverSnapShot_wf [OF run inv'(2)])
  then show ?thesis
    using op run post kvs(1) inv'(3) abandon_chans
    by (auto simp: Restore_def isclosed_def machine_inv_def Let_def chans_ok_def abandon_def)
qed

lemma snapshot_transfer:
  assumes Z: "gzip_codec Z" and K: "sink_live K written"
    and A: "machine_inv rA wA" "sm_open rA"
    and B: "machine_inv rB wB" "sm_open rB" "healthy wB" "fresh_dir (sm_store rB) rn ct wB"
    and node: "length (sm_nodeId rA) < 2 ^ 16" and idx: "0 < sm_fsmIndex rA"
    and empty: "written sink = []" and db: "db_load (st_db (sm_store rA)) wA = Some db" and fit: "fits Z (view db)"
  shows "\<exists>fs sink' rA' rB' wB'. Snapshot rA t wA = Inr fs \<and>
    Persist P Z K fs unix d now sink rA = (None, sink', rA') \<and>
    Restore P \<lparr>rd_data = written sink', rd_end = ErrEOF\<rparr> rn ct t0 t1 rB wB = (None, rB', wB') \<and>
    machine_inv rB' wB' \<and> sm_open rB' \<and> healthy wB' \<and>
    sm_kv view rB' wB' = sm_kv view rA wA \<and> sm_fsmIndex rB' = sm_fsmIndex rA"
proof -
  let ?fs = "\<lparr>fs_snapshot = db, fs_lastIndex = sm_fsmIndex rA, fs_startTime = t\<rparr>"
  have snap: "Snapshot rA t wA = Inr ?fs"
    using A(2) db by (simp add: Snapshot_def isclosed_def getSnapshot_def)
  obtain kvs where it: "pb_iter P db = Inr (kvs, None)" using iter_live by blast
  obtain res sink' where save: "saveSnapShot P Z K (sm_nodeId rA) (sm_fsmIndex rA) unix d db sink = (Inr res, sink')"
    using sink_live.saveSnapShot_live [OF K Z it] by blast
  have out: "written sink' = snapshot_bytes Z (sm_nodeId rA) (sm_fsmIndex rA) unix kvs"
    using sink_spec.saveSnapShot_ok [OF sink_live.axioms(1) [OF K] save] it empty by auto
  obtain rB' wB' dbB where res: "Restore P \<lparr>rd_data = written sink', rd_end = ErrEOF\<rparr> rn ct t0 t1 rB wB = (None, rB', wB')"
      and B': "machine_inv rB' wB'" "sm_open rB'" "healthy wB'" "db_load (st_db (sm_store rB')) wB' = Some dbB"
        "view dbB = view db" "sm_fsmIndex rB' = sm_fsmIndex rA"
    using Restore_snapshot [OF Z B node it fit, of "sm_fsmIndex rA" unix t0 t1] idx unfolding out by auto
  have "sm_kv view rB' wB' = sm_kv view rA wA"
    using B'(5) by (simp add: db_kv [OF B'(4)] db_kv [OF db])
  with snap save res B' show ?thesis by (auto simp: Persist_def)
qed

end

subsection \<open>Restarting a replica\<close>

text \<open>The world a new process starts in after the old one stopped with the files \<open>ns\<close>.\<close>

definition crash :: "'db nodes \<Rightarrow> 'db world \<Rightarrow> 'db world" where
  "crash ns w = w\<lparr>w_nodes := ns, w_open := []\<rparr>"

lemma crash_healthy [simp]: "healthy (crash ns w) = healthy w"
  by (simp add: crash_def healthy_def)

lemma crash_wf: "wf_world w \<Longrightarrow> wf_nodes ns \<Longrightarrow> wf_world (crash ns w)"
  by (auto simp: crash_def wf_world_def)

lemma crash_simps [simp]: "w_nodes (crash ns w) = ns" "w_cwd (crash ns w) = w_cwd w" "w_open (crash ns w) = []"
  by (simp_all add: crash_def)

lemma newStore_wf: "newStore P dir rn ct w = (r, w') \<Longrightarrow> wf_world w \<Longrightarrow> wf_world w'"
  unfolding newStore_def
  by (auto split: prod.splits sum.splits dest!: os_wfE getPebbleDBDir_wf)

context pebble_live
begin

lemma restart_holds:
  assumes h: "healthy w" and wf: "wf_world w" "wf_nodes ns" and hold: "holds_db view (w_cwd w) dir m ns"
  shows "\<exists>r' w'. NewStateMachine P addr node dir rn ct (crash ns w) = (Inr r', w') \<and>
    machine_inv r' w' \<and> sm_open r' \<and> sm_fsmIndex r' = 0 \<and>
    sm_kv view r' w' = (\<lambda>k. m (buildColumnFamilyKey 1 k))"
proof -
  obtain s w' db where s: "newStore P dir rn ct (crash ns w) = (Inr s, w')" "\<not> st_closed s"
      "store_inv s w'" "db_load (st_db s) w' = Some db" "view db = m"
    using newStore_restart [of "crash ns w" dir m rn ct] h crash_wf [OF wf] hold by auto
  have "wf_world w'" by (rule newStore_wf [OF s(1) crash_wf [OF wf]])
  then show ?thesis
    using s by (auto simp: NewStateMachine_def machine_inv_def chans_ok_def db_kv)
qed

lemma restart_machine:
  assumes "machine_inv r w" and "sm_open r" and "healthy w"
  shows "\<exists>r' w'. NewStateMachine P addr node (st_baseDir (sm_store r)) rn ct (crash (w_nodes w) w) = (Inr r', w') \<and>
    machine_inv r' w' \<and> sm_open r' \<and> sm_fsmIndex r' = 0 \<and> sm_kv view r' w' = sm_kv view r w"
proof -
  have inv: "store_inv (sm_store r) w" "wf_world w" using assms(1) by (simp_all add: machine_inv_def)
  obtain db where db: "db_load (st_db (sm_store r)) w = Some db"
    using store_inv_ok [OF inv(1)] assms(2) by (auto simp: store_ok_def)
  show ?thesis
    using restart_holds [OF assms(3) inv(2) wf_world_nodes [OF inv(2)] store_inv_holds [OF inv(1) db, of view], of addr node rn ct]
    by (simp add: db_kv [OF db])
qed

lemma Restore_crash:
  assumes Z: "gzip_codec Z" and inv: "machine_inv r w" and op: "sm_open r" and h: "healthy w"
    and f: "fresh_dir (sm_store r) rn ct w" and node: "length nodeId < 2 ^ 16" and hist: "w_hist w = []"
    and it: "pb_iter P snap = Inr (kvs, None)" and fit: "fits Z (view snap)"
    and run: "Restore P \<lparr>rd_data = snapshot_bytes Z nodeId lastIndex unix kvs, rd_end = ErrEOF\<rparr> rn ct t0 t1 r w = (e, r', w')"
    and ns: "ns \<in> set (w_hist w')"
  shows "\<exists>r2 w2. NewStateMachine P addr node (st_baseDir (sm_store r)) rn2 ct2 (crash ns w') = (Inr r2, w2) \<and>
    machine_inv r2 w2 \<and> sm_open r2 \<and>
    (sm_kv view r2 w2 = sm_kv view r w \<or> sm_kv view r2 w2 = (\<lambda>k. view snap (buildColumnFamilyKey 1 k)))"
proof -
  let ?s = "sm_store r"
  have inv': "store_inv ?s w" "wf_world w" using inv by (simp_all add: machine_inv_def)
  obtain old where old: "db_load (st_db ?s) w = Some old"
    using store_inv_ok [OF inv'(1)] op by (auto simp: store_ok_def)
  have kvs: "map_of kvs = view snap" "distinct (map fst kvs)"
    using iter_ok [OF it] strict_sorted_iff by blast+
  have sz: "\<forall>(k, v) \<in> set kvs. length k \<le> 2 ^ 30 \<and> length (gz_val Z v) \<le> maxAlloc"
    using fit kvs by (auto simp: fits_def dest: map_of_is_SomeI)
  obtain hd w1 new where rec: "recoverSnapShot P ?s \<lparr>rd_data = snapshot_bytes Z nodeId lastIndex unix kvs, rd_end = ErrEOF\<rparr> rn ct w =
      (Inr hd, ?s\<lparr>st_db := new_key ?s rn ct w\<rparr>, w1)"
    and post: "healthy w1" "w_cwd w1 = w_cwd w" "w_hist w1 = new @ w_hist w"
      "\<forall>ns \<in> set new. holds_db view (w_cwd w) (st_baseDir ?s) (view old) ns \<or>
        holds_db view (w_cwd w) (st_baseDir ?s) (view snap) ns"
    using recover_snapshot [OF Z h inv'(1) op f old node sz kvs(2),
        of "putUint32 (crc_write crc_new (enc_records Z kvs))" lastIndex unix]
    unfolding snapshot_bytes_def kvs(1) by blast
  have w': "w' = w1" using run rec op by (auto simp: Restore_def isclosed_def Let_def)
  have wf: "wf_world w'" unfolding w' by (rule recoverSnapShot_wf [OF rec inv'(2)])
  obtain m where m: "holds_db view (w_cwd w') (st_baseDir ?s) m ns" "m = view old \<or> m = view snap"
    using post ns hist w' by auto
  have "wf_nodes ns" using wf ns by (simp add: wf_world_def)
  from restart_holds [OF _ wf this m(1), of addr node rn2 ct2] m(2) post(1)
  show ?thesis unfolding w' db_kv [OF old, of view] by blast
qed

end

end
