(* ===== verification/Fsm_Properties.thy ===== *)
theory Fsm_Properties
  imports Fsm_Replica
begin

text \<open>
  The properties of the state machine, its store and its snapshots, each with a witness: a replica
  on a small file system over the reference store, with the storing gzip writer and the sink in
  memory.
\<close>

subsection \<open>A small replica\<close>

definition demo_world :: "ref_db \<Rightarrow> ref_db world" where
  "demo_world db = \<lparr>
     w_nodes = [([''data''], Directory None), ([''data'', ''1_1''], Directory (Some db)),
                ([''data'', ''pebble.running''], RegFile (dbdir_record (filepath_Join ''/data'' ''1_1'')))],
     w_cwd = [], w_windows = False, w_calls = 0, w_fault = (\<lambda>n. None),
     w_open = [[''data'', ''1_1'']], w_hist = []\<rparr>"

definition demo_store :: store where
  "demo_store = \<lparr>st_baseDir = ''/data'', st_db = [''data'', ''1_1''], st_closed = False\<rparr>"

definition demo_machine :: "u64 \<Rightarrow> StateMachine" where
  "demo_machine i = \<lparr>sm_raftAddr = ''127.0.0.1:7000'', sm_nodeId = ''n1'', sm_fsmIndex = i, sm_store = demo_store,
     sm_abandonCh = 0, sm_nextCh = 1, sm_closedChs = [], sm_metrics = no_metrics\<rparr>"

lemma demo_base: "resolve [] ''/data'' = [''data'']"
  by code_simp

lemma demo_name: "dbdir_name ''1_1''"
  by (simp add: dbdir_name_def plain_name_def currentDBFilename_def updatingDBFilename_def)

lemma demo_simps [simp]:
  "w_cwd (demo_world db) = []" "w_open (demo_world db) = [[''data'', ''1_1'']]" "w_hist (demo_world db) = []"
  "sm_store (demo_machine i) = demo_store" "sm_fsmIndex (demo_machine i) = i" "sm_nodeId (demo_machine i) = ''n1''"
  "sm_abandonCh (demo_machine i) = 0" "sm_closedChs (demo_machine i) = []"
  "st_closed demo_store = False" "st_baseDir demo_store = ''/data''" "st_db demo_store = [''data'', ''1_1'']"
  by (simp_all add: demo_world_def demo_machine_def demo_store_def)

lemma demo_nodes:
  "map_of (w_nodes (demo_world db)) = Map.empty([''data''] \<mapsto> Directory None, [''data'', ''1_1''] \<mapsto> Directory (Some db),
     [''data'', ''pebble.running''] \<mapsto> RegFile (dbdir_record (filepath_Join ''/data'' ''1_1'')))"
  by (auto simp: demo_world_def)

lemma demo_load [simp]: "db_load [''data'', ''1_1''] (demo_world db) = Some db"
  by (simp add: db_load_def dir_db_def demo_nodes)

lemma demo_healthy [simp]: "healthy (demo_world db)"
  by (simp add: healthy_def demo_world_def)

lemma demo_wf [simp]: "wf_world (demo_world db)"
  by (simp add: wf_world_def wf_nodes_def demo_world_def plain_name_def)

lemma demo_store_inv [simp]: "store_inv demo_store (demo_world db)"
proof -
  have "path_dirs (w_nodes (demo_world db)) [''data'']"
    by (auto simp: path_dirs_def is_dir_def demo_nodes le_Suc_eq)
  moreover have "recorded_dir (w_nodes (demo_world db)) [''data''] = Some (filepath_Join ''/data'' ''1_1'')"
    using demo_name by (intro recorded_dir_record)
      (simp_all add: demo_nodes currentDBFilename_def dbdir_name_def filepath_Join_not_Nil)
  moreover have "\<not> is_dir (w_nodes (demo_world db)) [''data'', updatingDBFilename]"
    by (simp add: is_dir_def demo_nodes updatingDBFilename_def)
  ultimately show ?thesis
    using demo_name demo_load [of db] by (auto simp: store_inv_def demo_base db_load_def split: if_splits)
qed

lemma demo_inv [simp]: "machine_inv (demo_machine i) (demo_world db)"
  by (simp add: machine_inv_def chans_ok_def) (simp add: demo_machine_def)

lemma demo_fresh [simp]: "fresh_dir demo_store 5 7 (demo_world db)"
proof -
  have "show_nat 5 @ CHR ''_'' # show_int 7 = ''5_7''" by code_simp
  then show ?thesis by (simp add: fresh_dir_def demo_base demo_nodes)
qed

lemma demo_kv: "sm_kv map_of (demo_machine i) (demo_world db) = (\<lambda>k. map_of db (1 # k))"
  by (simp add: kv_of_def buildColumnFamilyKey_def)

lemma ref_live: "pebble_live ref_pebble map_of (\<lambda>b. b)"
  by unfold_locales

lemma stored_ok: "gzip_codec stored_gzip"
  by unfold_locales

lemma mem_live: "sink_live mem_sink_ops fst"
  by unfold_locales

definition demo_db :: ref_db where
  "demo_db = [([1, 107], [118])]"

lemma demo_fits: "fits stored_gzip (map_of demo_db)"
proof -
  have "length (gz_val stored_gzip [118]) \<le> 100"
    by (simp add: gz_val_def gzipEncode_def stored_gzip_def stored_bytes_def gz_header_def)
  then show ?thesis by (simp add: fits_def demo_db_def maxAlloc_def)
qed

subsection \<open>Replicas follow their log\<close>

text \<open>
  C1. Running a log on a replica refines running it on a map: for every log, malformed commands
  included, the responses and the contents are those the log describes, the index is that of the
  last entry, and the invariant of the replica is kept. So replicas that start with equal contents
  and apply the same log give the same responses and end with equal contents.
\<close>

theorem replica_log_refines:
  assumes "pebble_live P view pend" and "machine_inv r w" and "sm_open r"
    and "apply_log P ls r w = (resps, r', w')"
  shows "machine_inv r' w' \<and> sm_open r' \<and> sm_fsmIndex r' = last_index ls (sm_fsmIndex r) \<and>
    spec_log (map log_Data ls) (sm_kv view r w) = (resps, sm_kv view r' w')"
  using pebble_live.apply_log_refines [OF assms] by auto

theorem replica_log_refines_witness:
  "\<exists>resps r' w'. apply_log ref_pebble
      [\<lparr>log_Index = 7, log_Data = insert_command ''k'' ''v''\<rparr>, \<lparr>log_Index = 8, log_Data = []\<rparr>]
      (demo_machine 0) (demo_world []) = (resps, r', w') \<and>
    machine_inv r' w' \<and> sm_fsmIndex r' = 8 \<and> sm_kv map_of r' w' (bytes_of ''k'') = Some (bytes_of ''v'') \<and>
    map resp_Error resps = [None, Some json_syntax_err]"
proof -
  let ?ls = "[\<lparr>log_Index = 7, log_Data = insert_command ''k'' ''v''\<rparr>, \<lparr>log_Index = 8, log_Data = []\<rparr>]"
  obtain resps r' w' where run: "apply_log ref_pebble ?ls (demo_machine 0) (demo_world []) = (resps, r', w')"
    by (metis surj_pair)
  have "unmarshal_Command [] = Inl json_syntax_err" by code_simp
  then have "spec_apply [] m = (\<lparr>resp_Val = [], resp_Error = Some json_syntax_err\<rparr>, m)" for m
    by (simp add: spec_apply_def)
  then have post: "machine_inv r' w'" "sm_fsmIndex r' = 8" "map resp_Error resps = [None, Some json_syntax_err]"
      "(sm_kv map_of (demo_machine 0) (demo_world []))(bytes_of ''k'' \<mapsto> bytes_of ''v'') = sm_kv map_of r' w'"
    using replica_log_refines [OF ref_live demo_inv _ run] by (auto simp: go_simps last_index_def)
  have "sm_kv map_of r' w' (bytes_of ''k'') = Some (bytes_of ''v'')"
    unfolding post(4) [symmetric] by simp
  with run post(1-3) show ?thesis by (intro exI conjI)
qed

text \<open>
  C2. A snapshot carries a replica over: the snapshot of one replica, written to a sink and restored
  on another, succeeds, and from then on both give the same responses to every log and keep equal
  contents and equal indexes.
\<close>

theorem snapshot_then_log:
  assumes "pebble_live P view pend" and "gzip_codec Z" and "sink_live K written"
    and "machine_inv rA wA" and "sm_open rA"
    and "machine_inv rB wB" and "sm_open rB" and "healthy wB" and "fresh_dir (sm_store rB) rn ct wB"
    and "length (sm_nodeId rA) < 2 ^ 16" and "0 < sm_fsmIndex rA" and "written sink = []"
    and "db_load (st_db (sm_store rA)) wA = Some db" and "fits Z (view db)"
  shows "\<exists>fs sink' rA' rB' wB'. Snapshot rA t wA = Inr fs \<and>
    Persist P Z K fs unix d now sink rA = (None, sink', rA') \<and>
    Restore P \<lparr>rd_data = written sink', rd_end = ErrEOF\<rparr> rn ct t0 t1 rB wB = (None, rB', wB') \<and>
    machine_inv rB' wB' \<and>
    (\<forall>ls respsA rA2 wA2 respsB rB2 wB2. apply_log P ls rA wA = (respsA, rA2, wA2) \<longrightarrow>
       apply_log P ls rB' wB' = (respsB, rB2, wB2) \<longrightarrow>
       respsB = respsA \<and> sm_kv view rB2 wB2 = sm_kv view rA2 wA2 \<and> sm_fsmIndex rB2 = sm_fsmIndex rA2)"
proof -
  obtain fs sink' rA' rB' wB' where x: "Snapshot rA t wA = Inr fs"
      "Persist P Z K fs unix d now sink rA = (None, sink', rA')"
      "Restore P \<lparr>rd_data = written sink', rd_end = ErrEOF\<rparr> rn ct t0 t1 rB wB = (None, rB', wB')"
      "machine_inv rB' wB'" "sm_open rB'" "sm_kv view rB' wB' = sm_kv view rA wA" "sm_fsmIndex rB' = sm_fsmIndex rA"
    using pebble_live.snapshot_transfer [OF assms] by blast
  have "respsB = respsA \<and> sm_kv view rB2 wB2 = sm_kv view rA2 wA2 \<and> sm_fsmIndex rB2 = sm_fsmIndex rA2"
    if a: "apply_log P ls rA wA = (respsA, rA2, wA2)" and b: "apply_log P ls rB' wB' = (respsB, rB2, wB2)"
    for ls respsA rA2 wA2 respsB rB2 wB2
    using pebble_live.apply_log_refines [OF assms(1,4,5) a] pebble_live.apply_log_refines [OF assms(1) x(4,5) b] x(6,7)
    by (simp add: last_index_def)
  with x(1-4) show ?thesis by blast
qed

theorem snapshot_then_log_witness:
  "\<exists>fs sink' rA' rB' wB'. Snapshot (demo_machine 3) 0 (demo_world demo_db) = Inr fs \<and>
    Persist ref_pebble stored_gzip mem_sink_ops fs 1700000000 2 4 ([], SinkOpen) (demo_machine 3) = (None, sink', rA') \<and>
    Restore ref_pebble \<lparr>rd_data = fst sink', rd_end = ErrEOF\<rparr> 5 7 0 1 (demo_machine 0) (demo_world []) = (None, rB', wB') \<and>
    machine_inv rB' wB'"
  using snapshot_then_log [OF ref_live stored_ok mem_live demo_inv [of 3 demo_db] _ demo_inv [of 0 "[]"] _ demo_healthy,
      of 5 7 "([], SinkOpen)" demo_db 0 1700000000 2 4 0 1] demo_fits by auto

subsection \<open>Crashes, restarts and failed restores\<close>

text \<open>
  C3. A restore is atomic against crashes: whatever state of the file system a crash leaves behind
  during the restore of a snapshot, a new process starts on it and has either the contents before
  the restore or those of the snapshot.
\<close>

theorem restore_crash_atomic:
  assumes "pebble_live P view pend" and "gzip_codec Z" and "machine_inv r w" and "sm_open r" and "healthy w"
    and "fresh_dir (sm_store r) rn ct w" and "length nodeId < 2 ^ 16" and "w_hist w = []"
    and "pb_iter P snap = Inr (kvs, None)" and "fits Z (view snap)"
    and "Restore P \<lparr>rd_data = snapshot_bytes Z nodeId lastIndex unix kvs, rd_end = ErrEOF\<rparr> rn ct t0 t1 r w = (e, r', w')"
    and "ns \<in> set (w_hist w')"
  shows "\<exists>r2 w2. NewStateMachine P addr node (st_baseDir (sm_store r)) rn2 ct2 (crash ns w') = (Inr r2, w2) \<and>
    machine_inv r2 w2 \<and> sm_open r2 \<and>
    (sm_kv view r2 w2 = sm_kv view r w \<or> sm_kv view r2 w2 = (\<lambda>k. view snap (buildColumnFamilyKey 1 k)))"
  by (rule pebble_live.Restore_crash [OF assms])

text \<open>The iteration of the demo contents, and a restore of it on an empty replica.\<close>

lemma demo_iter: "pb_iter ref_pebble demo_db = Inr (demo_db, None)"
  by (simp add: ref_pebble_def demo_db_def ref_keys_def)

definition demo_stream :: bytes where
  "demo_stream = snapshot_bytes stored_gzip ''n1'' 3 1700000000 demo_db"

lemma demo_restore:
  "\<exists>r' w'. Restore ref_pebble \<lparr>rd_data = demo_stream, rd_end = ErrEOF\<rparr> 5 7 0 1 (demo_machine 0) (demo_world []) = (None, r', w') \<and>
     machine_inv r' w' \<and> sm_fsmIndex r' = 3"
  using pebble_live.Restore_snapshot [OF ref_live stored_ok demo_inv [of 0 "[]"] _ demo_healthy _ _ demo_iter demo_fits,
      where rn = 5 and ct = 7 and nodeId = "''n1''" and lastIndex = 3 and unix = 1700000000 and ?t0.0 = 0 and ?t1.0 = 1]
  by (auto simp: demo_stream_def)

theorem restore_crash_atomic_witness:
  "\<exists>r' w'. Restore ref_pebble \<lparr>rd_data = demo_stream, rd_end = ErrEOF\<rparr> 5 7 0 1 (demo_machine 0) (demo_world []) = (None, r', w') \<and>
    (\<forall>ns \<in> set (w_hist w'). \<exists>r2 w2. NewStateMachine ref_pebble ''a'' ''n2'' ''/data'' 9 9 (crash ns w') = (Inr r2, w2) \<and> sm_open r2)"
proof -
  obtain r' w' where run: "Restore ref_pebble \<lparr>rd_data = demo_stream, rd_end = ErrEOF\<rparr> 5 7 0 1 (demo_machine 0) (demo_world []) = (None, r', w')"
    using demo_restore by blast
  have "\<exists>r2 w2. NewStateMachine ref_pebble ''a'' ''n2'' ''/data'' 9 9 (crash ns w') = (Inr r2, w2) \<and> sm_open r2"
    if "ns \<in> set (w_hist w')" for ns
    using restore_crash_atomic [OF ref_live stored_ok demo_inv _ demo_healthy _ _ _ demo_iter demo_fits
        run [unfolded demo_stream_def] that, of "''a''" "''n2''" 9 9] by auto
  with run show ?thesis by blast
qed

text \<open>
  C6. A restart loses nothing and replaying the log is harmless: after any log the machine starts
  again with the same contents, and running the log once more from its first entry, with whatever
  follows, ends with the contents of the whole log, although the first part had been applied before.
\<close>

theorem restart_replay:
  assumes "pebble_live P view pend" and "machine_inv r w" and "sm_open r" and "healthy w"
    and "apply_log P xs r w = (resps, r1, w1)"
  shows "\<exists>r2 w2. NewStateMachine P addr node (st_baseDir (sm_store r)) rn ct (crash (w_nodes w1) w1) = (Inr r2, w2) \<and>
    sm_kv view r2 w2 = sm_kv view r1 w1 \<and>
    (\<forall>ys resps' r3 w3. apply_log P (xs @ ys) r2 w2 = (resps', r3, w3) \<longrightarrow>
       sm_kv view r3 w3 = snd (spec_log (map log_Data (xs @ ys)) (sm_kv view r w)))"
proof -
  note one = pebble_live.apply_log_refines [OF assms(1-3,5)]
  have h1: "healthy w1" using one assms(4) by (blast intro: same_env_healthy)
  have dir: "st_baseDir (sm_store r1) = st_baseDir (sm_store r)" using one by simp
  obtain r2 w2 where two: "NewStateMachine P addr node (st_baseDir (sm_store r)) rn ct (crash (w_nodes w1) w1) = (Inr r2, w2)"
      "machine_inv r2 w2" "sm_open r2" "sm_kv view r2 w2 = sm_kv view r1 w1"
    using pebble_live.restart_machine [OF assms(1) _ _ h1, of r1 addr node rn ct] one unfolding dir by blast
  have "sm_kv view r3 w3 = snd (spec_log (map log_Data (xs @ ys)) (sm_kv view r w))"
    if "apply_log P (xs @ ys) r2 w2 = (resps', r3, w3)" for ys resps' r3 w3
  proof -
    have "sm_kv view r3 w3 = snd (spec_log (map log_Data (xs @ ys)) (sm_kv view r1 w1))"
      using pebble_live.apply_log_refines [OF assms(1) two(2,3) that] two(4) by simp
    also have "sm_kv view r1 w1 = snd (spec_log (map log_Data xs) (sm_kv view r w))" using one by simp
    finally show ?thesis by (simp only: map_append spec_log_replay)
  qed
  with two show ?thesis by blast
qed

theorem restart_replay_witness:
  "\<exists>resps r1 w1 r2 w2. apply_log ref_pebble [\<lparr>log_Index = 1, log_Data = insert_command ''k'' ''v''\<rparr>]
      (demo_machine 0) (demo_world []) = (resps, r1, w1) \<and>
    NewStateMachine ref_pebble ''a'' ''n1'' ''/data'' 9 9 (crash (w_nodes w1) w1) = (Inr r2, w2) \<and>
    sm_kv map_of r2 w2 = sm_kv map_of r1 w1"
proof -
  obtain resps r1 w1 where run: "apply_log ref_pebble [\<lparr>log_Index = 1, log_Data = insert_command ''k'' ''v''\<rparr>]
      (demo_machine 0) (demo_world []) = (resps, r1, w1)" by (metis surj_pair)
  from restart_replay [OF ref_live demo_inv _ demo_healthy run, of "''a''" "''n1''" 9 9] run
  show ?thesis by auto
qed

lemma restore_swap_Inr: "restore_publish s h dbdir old header w = (Inr hdr, s', w') \<Longrightarrow> s' = s\<lparr>st_db := h\<rparr>"
  by (auto simp: restore_publish_def dest: restore_swap_store split: prod.splits option.splits)

lemma recover_Inr:
  assumes "recoverSnapShot P s rd rn ct w = (Inr hdr, s, w')"
  shows "st_db s \<notin> set (w_open w)"
proof -
  obtain old w1 h w2 st header where g: "getCurrentDBDirName (st_baseDir s) w = (Inr old, w1)"
      and o: "db_open P (getNewRandomDBDirName (st_baseDir s) rn ct) w1 = (Inr h, w2)"
      and "restore_publish s h (getNewRandomDBDirName (st_baseDir s) rn ct) old header (restore_commit P st) = (Inr hdr, s, w')"
    using assms by (auto simp: recoverSnapShot_def Let_def split: prod.splits sum.splits option.splits if_splits)
  then have "h = st_db s" using restore_swap_Inr store_neq by metis
  moreover have "h \<notin> set (w_open w1)"
    using o by (auto simp: db_open_def os_call_def Let_def split: option.splits sum.splits if_splits)
  ultimately show ?thesis
    using getCurrentDBDirName_quiet [OF g] by (simp add: quiet_def same_env_def)
qed



subsection \<open>Damaged snapshots\<close>

text \<open>A record in which one byte of the key or of the compressed value was changed.\<close>

definition one_byte_off :: "bytes \<times> bytes \<Rightarrow> bytes \<times> bytes \<Rightarrow> bool" where
  "one_byte_off kz kz' \<longleftrightarrow> (\<exists>xs x y ys. x \<noteq> y \<and>
     (fst kz = xs @ x # ys \<and> fst kz' = xs @ y # ys \<and> snd kz' = snd kz \<or>
      snd kz = xs @ x # ys \<and> snd kz' = xs @ y # ys \<and> fst kz' = fst kz))"

lemma one_byte_off_crc:
  assumes "one_byte_off kz kz'"
  shows "crc_write c (raw_records (pre @ kz' # post)) \<noteq> crc_write c (raw_records (pre @ kz # post))"
proof -
  obtain xs x y ys where xy: "x \<noteq> y" and alt: "fst kz = xs @ x # ys \<and> fst kz' = xs @ y # ys \<and> snd kz' = snd kz \<or>
      snd kz = xs @ x # ys \<and> snd kz' = xs @ y # ys \<and> fst kz' = fst kz"
    using assms by (auto simp: one_byte_off_def)
  have "\<exists>a b. raw_record kz = a @ x # b \<and> raw_record kz' = a @ y # b"
    using alt
  proof
    let ?l = "putUint64 (word_of_nat (length (xs @ x # ys)))"
    assume e: "fst kz = xs @ x # ys \<and> fst kz' = xs @ y # ys \<and> snd kz' = snd kz"
    show ?thesis
      by (rule exI [of _ "?l @ xs"], rule exI [of _ "ys @ putUint64 (word_of_nat (length (snd kz))) @ snd kz"])
         (simp add: raw_record_def e)
  next
    assume e: "snd kz = xs @ x # ys \<and> snd kz' = xs @ y # ys \<and> fst kz' = fst kz"
    show ?thesis
      by (rule exI [of _ "putUint64 (word_of_nat (length (fst kz))) @ fst kz @ putUint64 (word_of_nat (length (xs @ x # ys))) @ xs"],
          rule exI [of _ ys]) (simp add: raw_record_def e)
  qed
  then obtain a b where ab: "raw_record kz = a @ x # b" "raw_record kz' = a @ y # b" by blast
  have "raw_records (pre @ kz # post) = (raw_records pre @ a) @ x # (b @ raw_records post)"
    and "raw_records (pre @ kz' # post) = (raw_records pre @ a) @ y # (b @ raw_records post)"
    by (simp_all add: ab)
  then show ?thesis using xy by (simp only: crc_write_single_byte)
qed

text \<open>
  C14. A damaged key or value is refused: when one byte of a key or of a compressed value of a snapshot is
  changed, wherever it is and whatever its new value, the restore reports an error, in any pattern of failing calls, and the
  machine and its contents stay as they were. Without failing calls the error is the mismatch of the checksum, with both sums,
  unless a value no longer decompresses, and then it says so. The lengths of the records are not covered.
\<close>

theorem restore_refuses_damaged:
  assumes P: "pebble_live P view pend" and inv: "machine_inv r w" and op: "sm_open r"
    and f: "fresh_dir (sm_store r) rn ct w" and node: "length nodeId < 2 ^ 16"
    and sz: "\<forall>kz \<in> set (pre @ kz # post). sizes_ok kz" and off: "one_byte_off kz kz'"
    and c: "c = crc_write crc_new (raw_records (pre @ kz # post))"
    and run: "Restore P \<lparr>rd_data = header_buf nodeId lastIndex unix @ raw_records (pre @ kz' # post) @ putUint32 c, rd_end = ErrEOF\<rparr>
        rn ct t0 t1 r w = (e, r', w')"
  shows "r' = r \<and> sm_kv view r' w' = sm_kv view r w \<and>
    (\<exists>err. e = Some err \<and> (healthy w \<longrightarrow>
      (if \<forall>x \<in> set (pre @ kz' # post). \<exists>v. gzipDecode (snd x) = Inr v
       then err = Errorf ''snapshot checksum mismatch: expected 0x%08x, got 0x%08x''
              [ANum (unat c), ANum (unat (crc_write crc_new (raw_records (pre @ kz' # post))))]
       else \<exists>d. err = Errorf ''failed to decompress snapshot data: %w'' [AErr d])))"
proof -
  let ?s = "sm_store r" and ?kzs = "pre @ kz' # post"
  let ?rd = "\<lparr>rd_data = header_buf nodeId lastIndex unix @ raw_records ?kzs @ putUint32 c, rd_end = ErrEOF\<rparr>"
    and ?rd1 = "\<lparr>rd_data = raw_records ?kzs @ putUint32 c, rd_end = ErrEOF\<rparr>"
  note hdr = readSnapshotHeader_buf [OF node, of lastIndex unix "raw_records ?kzs @ putUint32 c" ErrEOF]
  have inv': "store_inv ?s w" using inv by (simp add: machine_inv_def)
  have "length (fst kz') = length (fst kz)" "length (snd kz') = length (snd kz)"
    using off by (auto simp: one_byte_off_def)
  then have sz': "\<forall>kz \<in> set ?kzs. sizes_ok kz" using sz by (auto simp: sizes_ok_def)
  have c': "c \<noteq> crc_write crc_new (raw_records ?kzs)" using one_byte_off_crc [OF off] c by metis
  have into: "\<exists>e st. restore_into P h ?rd1 w2 = (Some e, st) \<and> damage_error ?kzs c e" if "db_load h w2 = Some db" for h w2 db
    by (rule pebble_live.restore_into_mismatch [OF P that sz' c'])
  obtain err w1 where rec: "recoverSnapShot P ?s ?rd rn ct w = (Inl err, ?s, w1)"
    using recover_refused [OF _ hdr, of P ?s rn ct w] into by blast
  then have r': "r' = r" "e = Some err" "w' = w1" using run op by (auto simp: Restore_def isclosed_def)
  have "damage_error ?kzs c err" if "healthy w"
    using pebble_live.recover_refused_healthy [OF P that inv' f into hdr] rec by auto
  moreover have "db_load (st_db ?s) w1 = db_load (st_db ?s) w"
    by (rule recover_keeps_contents [OF rec inv' op f])
  ultimately show ?thesis using r' by (auto simp: kv_of_def damage_error_def)
qed

theorem restore_refuses_damaged_witness:
  "\<exists>z r' w'. gzipDecode z = Inr [118] \<and> one_byte_off ([1, 107], z) ([1, 108], z) \<and>
    Restore ref_pebble \<lparr>rd_data = header_buf ''n1'' 3 0 @ raw_records [([1, 108], z)] @
      putUint32 (crc_write crc_new (raw_records [([1, 107], z)])), rd_end = ErrEOF\<rparr> 5 7 0 1 (demo_machine 4) (demo_world demo_db)
    = (Some (Errorf ''snapshot checksum mismatch: expected 0x%08x, got 0x%08x''
         [ANum (unat (crc_write crc_new (raw_records [([1, 107], z)]))), ANum (unat (crc_write crc_new (raw_records [([1, 108], z)])))]),
       demo_machine 4, w')"
proof -
  let ?z = "gz_val stored_gzip [118]"
  have dec: "gzipDecode ?z = Inr [118]" by (rule gzip_codec.gz_val_ok(2) [OF stored_ok])
  have off: "one_byte_off ([1, 107], ?z) ([1, 108], ?z)"
    by (auto simp: one_byte_off_def intro: exI [of _ "[1]"])
  have sz: "\<forall>kz \<in> set ([] @ ([1, 107], ?z) # []). sizes_ok kz"
    using demo_fits by (simp add: fits_def demo_db_def sizes_ok_def)
  obtain e r' w' where run: "Restore ref_pebble \<lparr>rd_data = header_buf ''n1'' 3 0 @ raw_records ([] @ ([1, 108], ?z) # []) @
      putUint32 (crc_write crc_new (raw_records ([] @ ([1, 107], ?z) # []))), rd_end = ErrEOF\<rparr> 5 7 0 1
      (demo_machine 4) (demo_world demo_db) = (e, r', w')" by (metis surj_pair)
  from restore_refuses_damaged [OF ref_live demo_inv _ _ _ sz off refl run] dec run off show ?thesis by auto
qed

text \<open>
  A damaged length need not be noticed: a last record whose key length reaches to the end of the stream takes the checksum for a part of its key,
  and the restore succeeds with the records before it.
\<close>

lemma damaged_length_accepted:
  assumes P: "pebble_live P view pend" and Z: "gzip_codec Z" and inv: "machine_inv r w" and op: "sm_open r"
    and h: "healthy w" and f: "fresh_dir (sm_store r) rn ct w" and node: "length nodeId < 2 ^ 16"
    and sz: "\<forall>(k, v) \<in> set kvs. length k \<le> 2 ^ 30 \<and> length (gz_val Z v) \<le> maxAlloc"
    and dist: "distinct (map fst kvs)" and n: "unat n = length rest" "n \<le> push_bit 30 1"
  shows "\<exists>r' w'. Restore P \<lparr>rd_data = header_buf nodeId lastIndex unix @ enc_records Z kvs @ putUint64 n @ rest, rd_end = ErrEOF\<rparr>
        rn ct t0 t1 r w = (None, r', w') \<and> sm_kv view r' w' = (\<lambda>k. map_of kvs (buildColumnFamilyKey 1 k))"
proof -
  let ?s = "sm_store r" and ?kzs = "map (\<lambda>(k, v). (k, gz_val Z v)) kvs"
  have inv': "store_inv ?s w" using inv by (simp add: machine_inv_def)
  obtain old where old: "db_load (st_db ?s) w = Some old"
    using store_inv_ok [OF inv'] op by (auto simp: store_ok_def)
  have dec: "list_all2 (\<lambda>kz kv. fst kv = fst kz \<and> gzipDecode (snd kz) = Inr (snd kv)) ?kzs kvs"
    using gzip_codec.gz_val_ok(2) [OF Z] by (induction kvs) auto
  have sz': "\<forall>kz \<in> set ?kzs. sizes_ok kz" using sz by (fastforce simp: sizes_ok_def)
  have m: "apply_ops (puts kvs) Map.empty = map_of kvs" using apply_puts [OF dist] by simp
  have into: "\<exists>st. restore_into P k \<lparr>rd_data = enc_records Z kvs @ putUint64 n @ rest, rd_end = ErrEOF\<rparr> w2 = (None, st) \<and>
      restoring view pend (map_of kvs) st" if "db_load k w2 = Some db" "view db = Map.empty" for k w2 db
    using pebble_live.restore_into_swallowed [OF P that n sz' dec] unfolding enc_records_raw m .
  obtain hdr w' db where "recoverSnapShot P ?s \<lparr>rd_data = header_buf nodeId lastIndex unix @ enc_records Z kvs @ putUint64 n @ rest,
      rd_end = ErrEOF\<rparr> rn ct w = (Inr hdr, ?s\<lparr>st_db := new_key ?s rn ct w\<rparr>, w')"
    and "db_load (new_key ?s rn ct w) w' = Some db" "view db = map_of kvs"
    using pebble_live.recover_ok [OF P h inv' op f refl old readSnapshotHeader_buf [OF node, of lastIndex unix _ ErrEOF], of _ "map_of kvs"]
      into by blast
  then show ?thesis using op by (auto simp: Restore_def isclosed_def Let_def db_kv)
qed

text \<open>
  C15. The checksum is not required: a snapshot that was cut off after any number of whole records,
  without its checksum, is restored without an error, and the machine then holds only the records
  before the cut.
\<close>

theorem truncated_snapshot_accepted:
  assumes P: "pebble_live P view pend" and Z: "gzip_codec Z" and inv: "machine_inv r w" and op: "sm_open r"
    and h: "healthy w" and f: "fresh_dir (sm_store r) rn ct w" and node: "length nodeId < 2 ^ 16"
    and sz: "\<forall>(k, v) \<in> set kvs. length k \<le> 2 ^ 30 \<and> length (gz_val Z v) \<le> maxAlloc"
    and dist: "distinct (map fst kvs)"
  shows "\<exists>r' w'. Restore P \<lparr>rd_data = take (length (header_buf nodeId lastIndex unix) + length (enc_records Z (take n kvs)))
        (snapshot_bytes Z nodeId lastIndex unix kvs), rd_end = ErrEOF\<rparr> rn ct t0 t1 r w = (None, r', w') \<and>
    sm_kv view r' w' = (\<lambda>k. map_of (take n kvs) (buildColumnFamilyKey 1 k))"
proof -
  let ?s = "sm_store r" and ?kvs = "take n kvs"
  have inv': "store_inv ?s w" using inv by (simp add: machine_inv_def)
  obtain old where old: "db_load (st_db ?s) w = Some old"
    using store_inv_ok [OF inv'] op by (auto simp: store_ok_def)
  have split: "enc_records Z kvs = enc_records Z ?kvs @ enc_records Z (drop n kvs)"
    by (metis append_take_drop_id enc_records_simps(3))
  have cut: "take (length (header_buf nodeId lastIndex unix) + length (enc_records Z ?kvs)) (snapshot_bytes Z nodeId lastIndex unix kvs)
      = header_buf nodeId lastIndex unix @ enc_records Z ?kvs @ []"
    by (simp add: snapshot_bytes_def split)
  have sz': "\<forall>(k, v) \<in> set ?kvs. length k \<le> 2 ^ 30 \<and> length (gz_val Z v) \<le> maxAlloc"
    using sz by (auto dest: in_set_takeD)
  have dist': "distinct (map fst ?kvs)" using dist by (simp add: take_map [symmetric] distinct_take)
  from pebble_live.recover_snapshot [OF P Z h inv' op f old node sz' dist', of "[]" lastIndex unix]
  obtain hdr w' db where rec: "recoverSnapShot P ?s \<lparr>rd_data = header_buf nodeId lastIndex unix @ enc_records Z ?kvs @ [], rd_end = ErrEOF\<rparr> rn ct w
      = (Inr hdr, ?s\<lparr>st_db := new_key ?s rn ct w\<rparr>, w')" and db: "db_load (new_key ?s rn ct w) w' = Some db" "view db = map_of ?kvs"
    by blast
  show ?thesis
    unfolding cut using rec db op by (auto simp: Restore_def isclosed_def Let_def db_kv)
qed

theorem truncated_snapshot_accepted_witness:
  "\<exists>r' w'. Restore ref_pebble \<lparr>rd_data = take (length (header_buf ''n1'' 3 1700000000) + length (enc_records stored_gzip (take 0 demo_db)))
        demo_stream, rd_end = ErrEOF\<rparr> 5 7 0 1 (demo_machine 0) (demo_world demo_db) = (None, r', w') \<and>
    sm_kv map_of r' w' = Map.empty"
proof -
  have "\<forall>(k, v) \<in> set demo_db. length k \<le> 2 ^ 30 \<and> length (gz_val stored_gzip v) \<le> maxAlloc"
    using demo_fits by (auto simp: fits_def demo_db_def)
  moreover have "distinct (map fst demo_db)" by (simp add: demo_db_def)
  ultimately show ?thesis
    using truncated_snapshot_accepted [OF ref_live stored_ok demo_inv [of 0 demo_db] _ demo_healthy, of 5 7 "''n1''" demo_db 3 1700000000 0 0 1]
    by (simp add: demo_stream_def)
qed

subsection \<open>What a save writes\<close>

text \<open>
  C16. A successful save wrote one well-formed snapshot of the whole database and nothing else: byte for byte the magic number,
  version 1, the index, the time, the length of the node id in 16 bits, the node id and four zero bytes; then for every pair of the
  database, in increasing order of the keys, the length of the key, the key, the length of the compressed value and the
  compressed value; and the checksum of these records. The reported size, record count and checksum are those of what was written.
\<close>

theorem saved_snapshot:
  assumes "pebble_spec P view pend" and "sink_spec K written"
    and "saveSnapShot P Z K nodeId lastIndex unix duration snap sink = (Inr res, sink')"
  shows "\<exists>kvs recs bs. map_of kvs = view snap \<and> sorted_wrt (<) (map fst kvs) \<and>
    recs = concat (map (\<lambda>(k, v). putUint64 (word_of_nat (length k)) @ k @
      putUint64 (word_of_nat (length (gz_val Z v))) @ gz_val Z v) kvs) \<and>
    bs = putUint32 0x52414654 @ putUint32 1 @ putUint64 lastIndex @ putUint64 (word_of_int unix) @
      putUint16 (word_of_nat (length nodeId)) @ bytes_of nodeId @ [0, 0, 0, 0] @
      recs @ putUint32 (crc_write crc_new recs) \<and>
    written sink' = written sink @ bs \<and> sr_Size res = word_of_nat (length bs) \<and>
    sr_Records res = word_of_nat (length kvs) \<and> sr_Checksum res = crc_write crc_new recs"
proof -
  obtain kvs where it: "pb_iter P snap = Inr (kvs, None)"
    and w: "written sink' = written sink @ snapshot_bytes Z nodeId lastIndex unix kvs"
      "res = \<lparr>sr_Size = word_of_nat (length (snapshot_bytes Z nodeId lastIndex unix kvs)), sr_Records = word_of_nat (length kvs),
           sr_Checksum = crc_write crc_new (enc_records Z kvs), sr_Duration = duration\<rparr>"
    using sink_spec.saveSnapShot_ok [OF assms(2,3)] by blast
  have recs: "enc_records Z kvs = concat (map (\<lambda>(k, v). putUint64 (word_of_nat (length k)) @ k @
      putUint64 (word_of_nat (length (gz_val Z v))) @ gz_val Z v) kvs)"
    by (induction kvs) (auto simp: enc_record_def)
  have hdr: "header_buf nodeId lastIndex unix = putUint32 0x52414654 @ putUint32 1 @ putUint64 lastIndex @
      putUint64 (word_of_int unix) @ putUint16 (word_of_nat (length nodeId)) @ bytes_of nodeId @ [0, 0, 0, 0]"
    by (simp add: header_buf_layout snapshotMagic_def snapshotVersion_def numeral_eq_Suc)
  show ?thesis
    by (rule exI [of _ kvs], rule exI [of _ "enc_records Z kvs"], rule exI [of _ "snapshot_bytes Z nodeId lastIndex unix kvs"])
      (use w pebble_spec.iter_ok [OF assms(1) it] in \<open>simp add: recs hdr snapshot_bytes_def\<close>)
qed

theorem saved_snapshot_witness:
  "\<exists>res sink' recs. saveSnapShot ref_pebble stored_gzip mem_sink_ops ''n1'' 3 0 0 demo_db ([], SinkOpen) = (Inr res, sink') \<and>
    sr_Checksum res = crc_write crc_new recs \<and> take 8 (fst sink') = putUint32 0x52414654 @ putUint32 1 \<and>
    fst sink' = putUint32 0x52414654 @ putUint32 1 @ putUint64 3 @ putUint64 0 @ putUint16 2 @ bytes_of ''n1'' @ [0, 0, 0, 0] @
      recs @ putUint32 (crc_write crc_new recs)"
proof -
  obtain res sink' where run: "saveSnapShot ref_pebble stored_gzip mem_sink_ops ''n1'' 3 0 0 demo_db ([], SinkOpen) = (Inr res, sink')"
    using sink_live.saveSnapShot_live [OF mem_live stored_ok demo_iter] by blast
  with saved_snapshot [OF ref.pebble_spec_axioms mem.sink_spec_axioms run] show ?thesis by auto
qed

text \<open>
  A failed save does not leave a sink that looks finished: unless the iteration could not even
  start (nothing was written) or the closing itself failed, the sink was cancelled last.
\<close>

lemma failed_save_cancels:
  assumes "saveSnapShot P Z K nodeId lastIndex unix duration snap sink = (Inl e, sink')"
  shows "(pb_iter P snap = Inl e \<and> sink' = sink) \<or> (\<exists>s. sink' = sk_Cancel K s) \<or> (\<exists>s. sk_Close K s = (Some e, sink'))"
  using assms by (rule saveSnapShot_cancels)

text \<open>
  Snapshots are canonical: two databases with the same contents, whatever their histories,
  give the same bytes for the same header.
\<close>

lemma snapshot_canonical:
  assumes "pebble_spec P view pend" and "sink_spec K written" and "view a = view b"
    and "saveSnapShot P Z K nodeId lastIndex unix d1 a s1 = (Inr r1, s1')"
    and "saveSnapShot P Z K nodeId lastIndex unix d2 b s2 = (Inr r2, s2')"
    and "written s1 = []" and "written s2 = []"
  shows "written s1' = written s2' \<and> sr_Checksum r1 = sr_Checksum r2"
proof -
  obtain xs where xs: "pb_iter P a = Inr (xs, None)" "written s1' = snapshot_bytes Z nodeId lastIndex unix xs"
      "sr_Checksum r1 = crc_write crc_new (enc_records Z xs)"
    using sink_spec.saveSnapShot_ok [OF assms(2,4)] assms(6) by auto
  obtain ys where ys: "pb_iter P b = Inr (ys, None)" "written s2' = snapshot_bytes Z nodeId lastIndex unix ys"
      "sr_Checksum r2 = crc_write crc_new (enc_records Z ys)"
    using sink_spec.saveSnapShot_ok [OF assms(2,5)] assms(7) by auto
  have "xs = ys"
    using pebble_spec.iter_ok [OF assms(1) xs(1)] pebble_spec.iter_ok [OF assms(1) ys(1)] assms(3)
    by (intro sorted_keys_unique) simp_all
  with xs ys show ?thesis by simp
qed

text \<open>
  C17. Which headers are accepted: exactly those with the magic number, a version of at most 1, version 0
  included, and 30 bytes besides as many as the length of the node id says. Any other stream makes the restore fail before
  anything is touched, with the error that names both values where the magic number or the version of a header of at least
  26 bytes is wrong.
\<close>

theorem foreign_stream_refused:
  fixes data :: bytes
  assumes op: "sm_open r" and magic: "magic = getUint32 data" and version: "version = getUint32 (drop 4 data)"
    and good: "good \<longleftrightarrow> magic = 0x52414654 \<and> version \<le> 1 \<and> 30 + unat (getUint16 (drop 24 data)) \<le> length data"
  shows "(good \<longleftrightarrow> (\<exists>hdr rd1. readSnapshotHeader \<lparr>rd_data = data, rd_end = e\<rparr> = (Inr hdr, rd1))) \<and>
    (\<not> good \<longrightarrow> (\<exists>err. Restore P \<lparr>rd_data = data, rd_end = e\<rparr> rn ct t0 t1 r w =
        (Some (Errorf ''failed to read snapshot header: %w'' [AErr err]), r, w) \<and>
      (26 \<le> length data \<and> magic \<noteq> 0x52414654 \<longrightarrow>
        err = Errorf ''invalid snapshot magic: expected 0x%08x, got 0x%08x'' [ANum 0x52414654, ANum (unat magic)]) \<and>
      (26 \<le> length data \<and> magic = 0x52414654 \<and> 1 < version \<longrightarrow>
        err = Errorf ''unsupported snapshot version: %d (max supported: %d)'' [ANum (unat version), ANum 1])))"
proof -
  let ?rd = "\<lparr>rd_data = data, rd_end = e\<rparr>" and ?n = "unat (getUint16 (drop 24 data))"
  have prefix: "getUint32 (take 26 data) = magic" "getUint32 (drop 4 (take 26 data)) = version"
    "getUint16 (drop 24 (take 26 data)) = getUint16 (drop 24 data)"
    by (simp_all add: getUint32_def getUint16_def drop_take min_def magic version)
  note defs = readSnapshotHeader_def readFull_def Let_def prefix snapshotMagic_def snapshotVersion_def
  have accepts: "good \<longleftrightarrow> (\<exists>hdr rd1. readSnapshotHeader ?rd = (Inr hdr, rd1))"
    unfolding good by (auto simp: defs not_less)
  obtain x rd1 where x: "readSnapshotHeader ?rd = (x, rd1)" by fastforce
  have "\<exists>err. x = Inl err \<and>
      (26 \<le> length data \<and> magic \<noteq> 0x52414654 \<longrightarrow>
        err = Errorf ''invalid snapshot magic: expected 0x%08x, got 0x%08x'' [ANum 0x52414654, ANum (unat magic)]) \<and>
      (26 \<le> length data \<and> magic = 0x52414654 \<and> 1 < version \<longrightarrow>
        err = Errorf ''unsupported snapshot version: %d (max supported: %d)'' [ANum (unat version), ANum 1])" if "\<not> good"
  proof -
    have "\<nexists>hdr. x = Inr hdr" using that accepts x by blast
    then obtain err where err: "x = Inl err" by (cases x) auto
    then show ?thesis using x by (auto simp: defs)
  qed
  with accepts x op show ?thesis by (auto simp: Restore_def isclosed_def recoverSnapShot_def)
qed

theorem foreign_stream_refused_witness:
  "Restore ref_pebble \<lparr>rd_data = replicate 30 0, rd_end = ErrEOF\<rparr> 5 7 0 1 (demo_machine 0) (demo_world []) =
    (Some (Errorf ''failed to read snapshot header: %w'' [AErr
       (Errorf ''invalid snapshot magic: expected 0x%08x, got 0x%08x'' [ANum 0x52414654, ANum 0])]),
     demo_machine 0, demo_world [])"
proof -
  have z: "getUint32 (replicate 30 0) = 0" by (simp add: getUint32_def numeral_eq_Suc)
  show ?thesis
    using foreign_stream_refused [of "demo_machine 0" "getUint32 (replicate 30 0)" "replicate 30 0" _ False ErrEOF ref_pebble 5 7 0 1 "demo_world []",
        OF _ refl refl] z by simp
qed

subsection \<open>The current directory\<close>

text \<open>
  Switching directories works: saving a name and replacing the current file makes it the name
  that is read next, whatever was recorded before.
\<close>

lemma switch_directory:
  assumes "healthy w" and "is_dir (w_nodes w) (w_key w dir)"
    and "\<not> is_dir (w_nodes w) (w_key w dir @ [updatingDBFilename])"
    and "\<not> is_dir (w_nodes w) (w_key w dir @ [currentDBFilename])" and "dbdir \<noteq> []"
  shows "\<exists>w1 w2 w3. saveCurrentDBDirName dir dbdir w = (None, w1) \<and> replaceCurrentDBFile dir w1 = (None, w2) \<and>
    getCurrentDBDirName dir w2 = (Inr dbdir, w3)"
proof -
  let ?b = "w_key w dir"
  obtain w1 where s1: "saveCurrentDBDirName dir dbdir w = (None, w1)"
      and m1: "map_of (w_nodes w1) = (map_of (w_nodes w))(?b @ [updatingDBFilename] \<mapsto> RegFile (dbdir_record dbdir))"
    using saveCurrentDBDirName_healthy [OF assms(1-3)] by blast
  note e1 = touches_same_env [OF saveCurrentDBDirName_touches [OF s1]]
  have k1: "w_key w1 dir = ?b" "healthy w1" using same_env_key [OF e1] same_env_healthy [OF e1] assms(1) by auto
  have "is_dir (w_nodes w1) ?b" "\<not> is_dir (w_nodes w1) (?b @ [currentDBFilename])"
    using assms(2,4) by (simp_all add: is_dir_def m1)
  then obtain w2 where s2: "replaceCurrentDBFile dir w1 = (None, w2)"
      and m2: "map_of (w_nodes w2) (?b @ [currentDBFilename]) = Some (RegFile (dbdir_record dbdir))"
    using replaceCurrentDBFile_healthy [OF k1(2), of dir "dbdir_record dbdir"] k1(1) m1 by auto
  note e2 = touches_same_env [OF replaceCurrentDBFile_touches [OF s2]]
  have "recorded_dir (w_nodes w2) (w_key w2 dir) = Some dbdir"
    using recorded_dir_record [OF m2 assms(5)] same_env_key [OF e2] k1(1) by simp
  then obtain w3 where "getCurrentDBDirName dir w2 = (Inr dbdir, w3)"
    using getCurrentDBDirName_healthy same_env_healthy [OF e2 k1(2)] by blast
  with s1 s2 show ?thesis by blast
qed

text \<open>
  C18. Cleaning up deletes by the spelling of a path: it removes exactly the subdirectories whose
  path, joined from the base directory it was given, differs as a string from the recorded one, and
  leaves every other file as it is (\<open>pebble.updating\<close> aside).
\<close>

theorem cleanup_exact:
  assumes "cleanupNodeDataDir dir w = (None, w')" and "wf_nodes (w_nodes w)"
  shows "\<exists>dbdir. recorded_dir (w_nodes w) (w_key w dir) = Some dbdir \<and>
    (\<forall>k. \<not> below (w_key w dir @ [updatingDBFilename]) k \<longrightarrow> map_of (w_nodes w') k =
      (if \<exists>n. is_dir (w_nodes w) (w_key w dir @ [n]) \<and> filepath_Join dir n \<noteq> dbdir \<and> below (w_key w dir @ [n]) k
       then None else map_of (w_nodes w) k))"
  using cleanupNodeDataDir_ok [OF assms] unfolding doomed_def by blast

text \<open>The live database of a store that was created under the relative spelling of its directory.\<close>

definition respelled_world :: "ref_db world" where
  "respelled_world = (demo_world demo_db)\<lparr>w_nodes :=
     [([''data''], Directory None), ([''data'', ''1_1''], Directory (Some demo_db)),
      ([''data'', ''pebble.running''], RegFile (dbdir_record (filepath_Join ''data'' ''1_1'')))], w_open := []\<rparr>"

theorem cleanup_exact_witness:
  "\<exists>w'. cleanupNodeDataDir ''/data'' respelled_world = (None, w') \<and> map_of (w_nodes w') [''data'', ''1_1''] = None"
proof -
  let ?w = respelled_world
  have key: "w_key ?w ''/data'' = [''data'']" by (simp add: respelled_world_def demo_base)
  have join: "filepath_Join ''/data'' ''1_1'' \<noteq> filepath_Join ''data'' ''1_1''" by code_simp
  have rec: "recorded_dir (w_nodes ?w) [''data''] = Some (filepath_Join ''data'' ''1_1'')"
    using demo_name by (intro recorded_dir_record)
      (simp_all add: respelled_world_def currentDBFilename_def dbdir_name_def filepath_Join_not_Nil)
  have dirs: "is_dir (w_nodes ?w) [''data'']" "is_dir (w_nodes ?w) [''data'', ''1_1'']"
    by (simp_all add: respelled_world_def is_dir_def)
  have h: "healthy ?w" by (simp add: respelled_world_def healthy_def demo_world_def)
  have wf: "wf_nodes (w_nodes ?w)" by (simp add: respelled_world_def wf_nodes_def plain_name_def)
  obtain w' where c: "cleanupNodeDataDir ''/data'' ?w = (None, w')"
    using cleanupNodeDataDir_healthy [OF h, of "''/data''"] key rec dirs by auto
  obtain dbdir where db: "recorded_dir (w_nodes ?w) [''data''] = Some dbdir"
      and eff: "\<forall>k. \<not> below [''data'', updatingDBFilename] k \<longrightarrow> map_of (w_nodes w') k =
      (if \<exists>n. is_dir (w_nodes ?w) [''data'', n] \<and> filepath_Join ''/data'' n \<noteq> dbdir \<and> below [''data'', n] k
       then None else map_of (w_nodes ?w) k)"
    using cleanup_exact [OF c wf] by (auto simp: key)
  have "\<not> below [''data'', updatingDBFilename] [''data'', ''1_1'']" by (simp add: below_def updatingDBFilename_def)
  then have "map_of (w_nodes w') [''data'', ''1_1''] = None"
    using eff dirs(2) join db rec by auto
  with c show ?thesis by blast
qed

text \<open>
  C19. The first start succeeds: on a base directory that records nothing the store comes up open,
  empty and with its invariant.
\<close>

theorem first_start:
  assumes "pebble_live P view pend" and "healthy w" and "w_key w dir = b" and "mkdirs [] b (w_nodes w) = Some ns"
    and "map_of (w_nodes w) (b @ [currentDBFilename]) = None" and "\<not> is_dir (w_nodes w) (b @ [updatingDBFilename])"
    and "map_of (w_nodes w) (w_key w (getNewRandomDBDirName dir rn ct)) = None" and "w_open w = []"
  shows "\<exists>s w'. newStore P dir rn ct w = (Inr s, w') \<and> \<not> isclosed s \<and> store_inv s w' \<and> kv_of view s w' = Map.empty"
  using pebble_live.newStore_first [OF assms] by (auto simp: isclosed_def kv_of_def fun_eq_iff)

definition empty_world :: "ref_db world" where
  "empty_world = \<lparr>w_nodes = [], w_cwd = [], w_windows = False, w_calls = 0, w_fault = (\<lambda>n. None), w_open = [], w_hist = []\<rparr>"

theorem first_start_witness:
  "\<exists>s w'. newStore ref_pebble ''/data'' 5 7 empty_world = (Inr s, w') \<and> \<not> isclosed s \<and> kv_of map_of s w' = Map.empty"
proof -
  have "healthy empty_world" "w_key empty_world ''/data'' = [''data'']"
    "mkdirs [] [''data''] (w_nodes empty_world) = Some [([''data''], Directory None)]"
    by (simp_all add: empty_world_def healthy_def demo_base map_set_def)
  from first_start [OF ref_live this, of 5 7] show ?thesis
    by (auto simp: empty_world_def is_dir_def)
qed

end
