(* ===== verification/Fsm_Edges.thy ===== *)
theory Fsm_Edges
  imports Fsm_Properties
begin

text \<open>
  The state machine at its edges: the abandon channel, a closed machine, and the runs that leave a
  directory no start recovers from.
\<close>

subsection \<open>The abandon channel\<close>

text \<open>
  C20. A restore wakes the watchers of the state it replaced, and only then: after a successful
  restore the channel handed out before is closed and the one handed out now is open; after a failed
  one the channel is the same and no channel was closed. The channel handed out is never a closed one.
\<close>

theorem restore_wakes_watchers:
  assumes "chans_ok r" and "Restore P rd rn ct t0 t1 r w = (e, r', w')"
  shows "chans_ok r' \<and>
    (if e = None then AbandonCh r \<in> set (sm_closedChs r') \<and> AbandonCh r' \<notin> set (sm_closedChs r')
     else AbandonCh r' = AbandonCh r \<and> sm_closedChs r' = sm_closedChs r)"
  using assms abandon_chans
  by (auto simp: Restore_def AbandonCh_def Let_def abandon_def chans_ok_def split: if_splits prod.splits sum.splits)

theorem restore_wakes_watchers_witness:
  "\<exists>r' w'. Restore ref_pebble \<lparr>rd_data = demo_stream, rd_end = ErrEOF\<rparr> 5 7 0 1 (demo_machine 0) (demo_world []) = (None, r', w') \<and>
    AbandonCh (demo_machine 0) \<in> set (sm_closedChs r') \<and> AbandonCh r' \<notin> set (sm_closedChs r')"
proof -
  obtain r' w' where run: "Restore ref_pebble \<lparr>rd_data = demo_stream, rd_end = ErrEOF\<rparr> 5 7 0 1 (demo_machine 0) (demo_world []) = (None, r', w')"
    using demo_restore by blast
  have "chans_ok (demo_machine 0)" by (simp add: chans_ok_def demo_machine_def)
  from restore_wakes_watchers [OF this run] run show ?thesis by auto
qed

subsection \<open>A closed machine\<close>

text \<open>
  C21. Closing never fails, keeps the files and is harmless to repeat. Afterwards Apply, Snapshot, Restore and
  ReadLocal answer with \<open>ErrClosed\<close> and change neither the machine nor the file system.
  The index is not guarded: it is kept, can be read, and can still be raised.
\<close>

theorem closed_machine:
  assumes "Close r w = (e, r', w')"
  shows "e = None \<and> w_nodes w' = w_nodes w \<and>
    Apply P l r' w' = (\<lparr>resp_Val = [], resp_Error = Some ErrClosed\<rparr>, r', w') \<and>
    Snapshot r' now w' = Inl ErrClosed \<and>
    Restore P rd rn ct t0 t1 r' w' = (Some ErrClosed, r', w') \<and>
    ReadLocal P r' key w' = \<lparr>resp_Val = [], resp_Error = Some ErrClosed\<rparr> \<and>
    Close r' w' = (None, r', w') \<and>
    GetFsmIndex r' = GetFsmIndex r \<and> GetFsmIndex (UpdateFsmIndex i r') = max (GetFsmIndex r) i"
  using assms
  by (auto simp: Close_def store_close_def GetFsmIndex_def UpdateFsmIndex_def Apply_def Snapshot_def Restore_def ReadLocal_def store_query_def
      isclosed_def split: if_splits)

theorem closed_machine_witness:
  "\<exists>r' w'. Close (demo_machine 4) (demo_world demo_db) = (None, r', w') \<and>
    ReadLocal ref_pebble r' [107] w' = \<lparr>resp_Val = [], resp_Error = Some ErrClosed\<rparr>"
proof -
  obtain e r' w' where run: "Close (demo_machine 4) (demo_world demo_db) = (e, r', w')" by (metis surj_pair)
  from closed_machine [OF run, where P = ref_pebble and key = "[107]"] run show ?thesis by auto
qed

subsection \<open>Directories no start recovers from\<close>

lemma save_writes_written:
  assumes "save_writes fp dbdir w = (None, w1)" and "map_of (w_nodes w) (w_key w fp) = Some (RegFile [])"
  shows "map_of (w_nodes w1) (w_key w fp) = Some (RegFile (dbdir_record dbdir))"
  using assms
  by (auto simp: save_writes_def os_Write_def os_Sync_def os_call_def dbdir_record_def err_of_def
      split: option.splits)

lemma saveCurrentDBDirName_written:
  assumes "saveCurrentDBDirName dir dbdir w = (None, w1)"
  shows "map_of (w_nodes w1) (w_key w dir @ [updatingDBFilename]) = Some (RegFile (dbdir_record dbdir))"
proof -
  let ?fp = "filepath_Join dir updatingDBFilename"
  obtain u w2 where c: "os_Create ?fp w = (Inr u, w2)"
    using assms by (auto simp: saveCurrentDBDirName_def Let_def split: prod.splits sum.splits)
  obtain r w3 where s: "save_writes ?fp dbdir w2 = (r, w3)" by fastforce
  have r: "r = None" and q: "quiet w3 w1"
    using assms c s
    by (auto simp: saveCurrentDBDirName_def split: prod.splits sum.splits option.splits
        dest!: os_quietE syncDir_quiet intro: quiet_trans)
  have "w_key w2 ?fp = w_key w ?fp" "map_of (w_nodes w2) (w_key w ?fp) = Some (RegFile [])"
    using c by (auto simp: os_Create_def os_call_def Let_def split: option.splits if_splits)
  with save_writes_written [of ?fp dbdir w2 w3] s r q show ?thesis by (simp add: quiet_def)
qed

text \<open>
  C22. A failed directory sync after the rename destroys both databases: when publishing a restored
  database fails in the sync that follows the rename, the restore reports that error and deletes the
  new directory, but \<open>pebble.running\<close> keeps naming it. The next start then deletes the old
  database as well and fails.
\<close>

theorem failed_sync_loses_data:
  assumes h: "healthy w3" and wf: "wf_world w" and base: "w_key w (st_baseDir s) = b" and pd: "path_dirs (w_nodes w) b"
    and n: "dbdir_name n" and k: "k = b @ [n]" and dbdir: "dbdir = filepath_Join (st_baseDir s) n"
    and save: "saveCurrentDBDirName (st_baseDir s) dbdir w = (None, w1)"
    and ren: "os_Rename (filepath_Join (st_baseDir s) updatingDBFilename) (filepath_Join (st_baseDir s) currentDBFilename) w1 = (Inr u, w2)"
    and sync: "syncDir (st_baseDir s) w2 = (Some e, w3)"
  shows "\<exists>w4 w5. restore_publish s k dbdir old header w = (Inl e, s, w4) \<and>
    newStore P (st_baseDir s) rn ct (crash (w_nodes w4) w4) = (Inl (ErrNew ''db dir unexpectedly deleted''), w5) \<and>
    (\<forall>m. m \<noteq> updatingDBFilename \<longrightarrow> \<not> is_dir (w_nodes w5) (b @ [m]))"
proof -
  define w4 where "w4 = cleanupNewDB k dbdir w3"
  note rec = saveCurrentDBDirName_written [OF save, unfolded base]
  note e1 = touches_same_env [OF saveCurrentDBDirName_touches [OF save]]
  note q3 = syncDir_quiet [OF sync]
  have rep: "replaceCurrentDBFile (st_baseDir s) w1 = (Some e, w3)" by (simp add: replaceCurrentDBFile_def ren sync)
  note e3 = touches_same_env [OF replaceCurrentDBFile_touches [OF rep]]
  have b1: "w_key w1 (st_baseDir s) = b" "w_key w3 (st_baseDir s) = b" "w_cwd w3 = w_cwd w"
    using same_env_key [OF e1] same_env_key [OF e3] base e1 e3 by (simp_all add: same_env_def)
  have m2: "w_nodes w3 = map_set (b @ [currentDBFilename]) (RegFile (dbdir_record dbdir)) (map_del (b @ [updatingDBFilename]) (w_nodes w1))"
    using ren rec b1(1) q3
    by (auto simp: os_Rename_def os_call_def quiet_def split: option.splits if_splits)
  have n4: "w_nodes w4 = remove_tree k (w_nodes w3)" and env4: "w_cwd w4 = w_cwd w3" "healthy w4"
    using h n by (simp_all add: w4_def cleanupNewDB_def os_RemoveAll_def fs_simps dbdir k b1 base dbdir_name_def)
  have pub: "restore_publish s k dbdir old header w = (Inl e, s, w4)"
    by (simp add: restore_publish_def save rep w4_def)
  have wf4: "wf_world w4"
    unfolding w4_def by (intro cleanupNewDB_wf replaceCurrentDBFile_wf [OF rep] saveCurrentDBDirName_wf [OF save wf])
  let ?wc = "crash (w_nodes w4) w4"
  have key: "w_key ?wc (st_baseDir s) = b" using env4 b1(3) base by simp
  have m4: "map_of (w_nodes w4) x = (if below k x then None else if x = b @ [currentDBFilename] then Some (RegFile (dbdir_record dbdir))
      else if x = b @ [updatingDBFilename] then None else map_of (w_nodes w) x)" for x
    using touches_lookup [OF saveCurrentDBDirName_touches [OF save], of x] base
    by (simp only: n4 map_of_remove_tree m2) simp
  have "path_dirs (w_nodes ?wc) b"
    by (rule path_dirs_agree [OF pd]) (auto simp: m4 k below_def)
  moreover have "recorded_dir (w_nodes ?wc) b = Some dbdir"
    using n by (intro recorded_dir_record) (auto simp: m4 k below_snoc dbdir_name_def dbdir filepath_Join_not_Nil)
  moreover have "map_of (w_nodes ?wc) (b @ [n]) = None" by (simp add: m4 k)
  ultimately obtain w5 where "newStore P (st_baseDir s) rn ct ?wc = (Inl (ErrNew ''db dir unexpectedly deleted''), w5)"
      "\<forall>m. m \<noteq> updatingDBFilename \<longrightarrow> \<not> is_dir (w_nodes w5) (b @ [m])"
    using newStore_missing [of ?wc "st_baseDir s" n P rn ct] env4 wf_world_nodes [OF wf4] n key dbdir by auto
  with pub show ?thesis by blast
qed

definition faulty_world :: "ref_db world" where
  "faulty_world = (demo_world demo_db)\<lparr>w_nodes := ([''data'', ''5_7''], Directory (Some [])) # w_nodes (demo_world demo_db),
     w_fault := (\<lambda>n. if n = 10 then Some EAGAIN else None)\<rparr>"

lemma faulty_simps [simp]:
  "w_cwd faulty_world = []" "w_windows faulty_world = False" "w_calls faulty_world = 0"
  "w_fault faulty_world n = (if n = 10 then Some EAGAIN else None)"
  "is_dir (w_nodes faulty_world) [''data'']" "map_of (w_nodes faulty_world) [''data''] = Some (Directory None)"
  "\<not> is_dir (w_nodes faulty_world) [''data'', updatingDBFilename]"
  "\<not> is_dir (w_nodes faulty_world) [''data'', currentDBFilename]"
  by (simp_all add: faulty_world_def demo_world_def is_dir_def currentDBFilename_def updatingDBFilename_def)

lemma faulty_save:
  "\<exists>w1. saveCurrentDBDirName ''/data'' dbdir faulty_world = (None, w1) \<and> w_calls w1 = 9 \<and>
    w_fault w1 = w_fault faulty_world \<and> w_windows w1 = False \<and> w_cwd w1 = []"
  by (simp add: saveCurrentDBDirName_def save_writes_def os_Create_def os_call_def demo_base os_Write_def
      os_Close_def os_Sync_def Let_def syncDir_def os_Stat_def os_Open_def err_of_def)

lemma faulty_publish:
  "\<exists>w1 w2 w3. saveCurrentDBDirName ''/data'' dbdir faulty_world = (None, w1) \<and>
    os_Rename (filepath_Join ''/data'' updatingDBFilename) (filepath_Join ''/data'' currentDBFilename) w1 = (Inr (), w2) \<and>
    syncDir ''/data'' w2 = (Some EAGAIN, w3) \<and> healthy w3"
proof -
  obtain w1 where w1: "saveCurrentDBDirName ''/data'' dbdir faulty_world = (None, w1)" "w_calls w1 = 9"
      "w_fault w1 = w_fault faulty_world" "w_windows w1 = False" "w_cwd w1 = []"
    using faulty_save by blast
  note t = saveCurrentDBDirName_touches [OF w1(1)] and rec = saveCurrentDBDirName_written [OF w1(1)]
  have "is_dir (w_nodes w1) [''data'']" "\<not> is_dir (w_nodes w1) [''data'', currentDBFilename]"
    using touches_lookup [OF t, of "[''data'']"] touches_lookup [OF t, of "[''data'', currentDBFilename]"]
      faulty_simps(5,8) by (simp_all add: is_dir_def demo_base)
  with rec w1 show ?thesis
    by (simp add: os_Rename_def os_call_def syncDir_def os_Stat_def demo_base healthy_def)
qed

theorem failed_sync_loses_data_witness:
  "\<exists>w4 w5. restore_publish demo_store [''data'', ''5_7''] (filepath_Join ''/data'' ''5_7'') ''/data/1_1''
      \<lparr>hd_Magic = snapshotMagic, hd_Version = snapshotVersion, hd_LastIndex = 42, hd_Timestamp = 0, hd_NodeId = ''n1'', hd_Checksum = 0\<rparr>
      faulty_world = (Inl EAGAIN, demo_store, w4) \<and>
    newStore ref_pebble ''/data'' 8 9 (crash (w_nodes w4) w4) = (Inl (ErrNew ''db dir unexpectedly deleted''), w5) \<and>
    is_dir (w_nodes faulty_world) [''data'', ''1_1''] \<and> \<not> is_dir (w_nodes w5) [''data'', ''1_1'']"
proof -
  obtain w1 w2 w3 where run: "saveCurrentDBDirName ''/data'' (filepath_Join ''/data'' ''5_7'') faulty_world = (None, w1)"
      "os_Rename (filepath_Join ''/data'' updatingDBFilename) (filepath_Join ''/data'' currentDBFilename) w1 = (Inr (), w2)"
      "syncDir ''/data'' w2 = (Some EAGAIN, w3)" "healthy w3"
    using faulty_publish by blast
  have wf: "wf_world faulty_world"
    by (simp add: faulty_world_def wf_world_def wf_nodes_def demo_world_def plain_name_def)
  have pd: "path_dirs (w_nodes faulty_world) [''data'']"
    by (auto simp: path_dirs_def le_Suc_eq is_dir_def)
  have n: "dbdir_name ''5_7''"
    by (simp add: dbdir_name_def plain_name_def currentDBFilename_def updatingDBFilename_def)
  have old: "is_dir (w_nodes faulty_world) [''data'', ''1_1'']"
    by (simp add: faulty_world_def demo_world_def is_dir_def)
  have "''1_1'' \<noteq> updatingDBFilename" by (simp add: updatingDBFilename_def)
  moreover have "\<exists>w4 w5. restore_publish demo_store [''data'', ''5_7''] (filepath_Join ''/data'' ''5_7'') ''/data/1_1''
      \<lparr>hd_Magic = snapshotMagic, hd_Version = snapshotVersion, hd_LastIndex = 42, hd_Timestamp = 0, hd_NodeId = ''n1'', hd_Checksum = 0\<rparr>
      faulty_world = (Inl EAGAIN, demo_store, w4) \<and>
    newStore ref_pebble ''/data'' 8 9 (crash (w_nodes w4) w4) = (Inl (ErrNew ''db dir unexpectedly deleted''), w5) \<and>
    (\<forall>m. m \<noteq> updatingDBFilename \<longrightarrow> \<not> is_dir (w_nodes w5) ([''data''] @ [m]))"
    using failed_sync_loses_data [of w3 faulty_world demo_store "[''data'']" "''5_7''" "[''data'', ''5_7'']"
        "filepath_Join ''/data'' ''5_7''" w1 "()" w2 EAGAIN "''/data/1_1''" _ ref_pebble 8 9] run wf pd n demo_base
    by simp
  ultimately show ?thesis using old by (metis append_Cons append_Nil)
qed

text \<open>
  C23. A first start that is interrupted can never be completed: the directory name is recorded
  before the directory exists, so when the process dies between the two, every later start on that
  base directory fails.
\<close>

theorem interrupted_first_start:
  assumes "healthy w" and "wf_world w" and "w_key w dir = b" and "path_dirs (w_nodes w) b"
    and "map_of (w_nodes w) (b @ [currentDBFilename]) = None" and "\<not> is_dir (w_nodes w) (b @ [updatingDBFilename])"
    and "map_of (w_nodes w) (w_key w (getNewRandomDBDirName dir rn ct)) = None"
    and "getPebbleDBDir dir rn ct w = (r, w')"
  shows "r = Inr (getNewRandomDBDirName dir rn ct) \<and>
    (\<exists>w2. newStore P dir rn2 ct2 (crash (w_nodes w') w') = (Inl (ErrNew ''db dir unexpectedly deleted''), w2))"
proof -
  define n where "n = show_nat (unat rn) @ CHR ''_'' # show_int ct"
  let ?d = "getNewRandomDBDirName dir rn ct" and ?wc = "crash (w_nodes w') w'"
  have d: "?d = filepath_Join dir n" "dbdir_name n" "w_key w ?d = b @ [n]"
    using assms(3) by (simp_all add: n_def getNewRandomDBDirName_def dbdir_name_random plain_name_show)
  have r: "r = Inr ?d" and e: "same_env w w'"
      and m: "map_of (w_nodes w') = (map_of (w_nodes w))(b @ [updatingDBFilename] := None, b @ [currentDBFilename] \<mapsto> RegFile (dbdir_record ?d))"
    using getPebbleDBDir_first [OF assms(1) path_dirs_is_dir [OF assms(4)] assms(3,5,6), of rn ct] assms(8) by auto
  have key: "w_key ?wc dir = b" "healthy ?wc" using same_env_key [OF e] same_env_healthy [OF e assms(1)] assms(3) by simp_all
  have wf: "wf_nodes (w_nodes ?wc)" using getPebbleDBDir_wf [OF assms(8,2)] by (simp add: wf_world_nodes)
  have "path_dirs (w_nodes ?wc) b" by (rule path_dirs_agree [OF assms(4)]) (auto simp: m)
  moreover have "recorded_dir (w_nodes ?wc) b = Some (filepath_Join dir n)"
    using d by (intro recorded_dir_record) (auto simp: m dbdir_name_def filepath_Join_not_Nil)
  moreover have "map_of (w_nodes ?wc) (b @ [n]) = None"
    using assms(7) d by (auto simp: m dbdir_name_def)
  ultimately show ?thesis
    using newStore_missing [OF key(2) wf, of dir n P rn2 ct2] d key(1) r by auto
qed

theorem interrupted_first_start_witness:
  "\<exists>w' w2. getPebbleDBDir ''/data'' 5 7 (empty_world\<lparr>w_nodes := [([''data''], Directory None)]\<rparr>) = (Inr (getNewRandomDBDirName ''/data'' 5 7), w') \<and>
    newStore ref_pebble ''/data'' 8 9 (crash (w_nodes w') w') = (Inl (ErrNew ''db dir unexpectedly deleted''), w2)"
proof -
  let ?w = "empty_world\<lparr>w_nodes := [([''data''], Directory None)]\<rparr>"
  obtain r w' where run: "getPebbleDBDir ''/data'' 5 7 ?w = (r, w')" by fastforce
  have "healthy ?w" "wf_world ?w" "w_key ?w ''/data'' = [''data'']" "path_dirs (w_nodes ?w) [''data'']"
    by (auto simp: empty_world_def healthy_def demo_base wf_world_def wf_nodes_def plain_name_def path_dirs_def is_dir_def le_Suc_eq)
  moreover have "map_of (w_nodes ?w) (w_key ?w (getNewRandomDBDirName ''/data'' 5 7)) = None"
    by (simp add: empty_world_def demo_base)
  ultimately show ?thesis
    using interrupted_first_start [OF _ _ _ _ _ _ _ run, of "[''data'']" ref_pebble 8 9] run
    by (auto simp: is_dir_def)
qed

subsection \<open>Lengths on the wire\<close>

text \<open>
  C24. The length of a key is checked, the length of a value is not: a record whose key length is above
  1 GB ends the restore with an error, while a record whose value length exceeds what the runtime can
  allocate ends it with a panic, whatever follows.
\<close>

theorem record_lengths:
  assumes "push_bit 30 1 < m" and "length k \<le> 2 ^ 30" and "maxAlloc < unat n"
  shows "(\<exists>st'. restore_loop P (st\<lparr>rs_reader := \<lparr>rd_data = putUint64 m @ rest, rd_end = e\<rparr>\<rparr>)
      = (Some (Errorf ''invalid key length: %d bytes (max 1GB)'' [ANum (unat m)]), st')) \<and>
    (\<exists>st'. restore_loop P (st\<lparr>rs_reader := \<lparr>rd_data = putUint64 (word_of_nat (length k)) @ k @ putUint64 n @ rest, rd_end = e\<rparr>\<rparr>)
      = (Some (Panic ''makeslice: len out of range''), st'))"
proof
  show "\<exists>st'. restore_loop P (st\<lparr>rs_reader := \<lparr>rd_data = putUint64 m @ rest, rd_end = e\<rparr>\<rparr>)
      = (Some (Errorf ''invalid key length: %d bytes (max 1GB)'' [ANum (unat m)]), st')"
    using assms(1) by (simp add: restore_loop.simps [of P "st\<lparr>rs_reader := r\<rparr>" for r] restore_turn_def)
  have lk: "unat (word_of_nat (length k) :: u64) = length k" and key: "\<not> push_bit 30 1 < (word_of_nat (length k) :: u64)"
    using assms(2) by (simp_all add: unat_of_nat word_less_nat_alt)
  then show "\<exists>st'. restore_loop P (st\<lparr>rs_reader := \<lparr>rd_data = putUint64 (word_of_nat (length k)) @ k @ putUint64 n @ rest, rd_end = e\<rparr>\<rparr>)
      = (Some (Panic ''makeslice: len out of range''), st')"
    using assms(3) by (simp add: restore_loop.simps [of P "st\<lparr>rs_reader := r\<rparr>" for r] restore_turn_def
        read_hashed_ok [where e = e] restore_val_def go_make_def)
qed

theorem record_lengths_witness:
  "\<exists>st'. restore_loop ref_pebble \<lparr>rs_reader = \<lparr>rd_data = putUint64 1 @ [1] @ putUint64 18446744073709551615 @ [], rd_end = ErrEOF\<rparr>, rs_hash = crc_new,
      rs_wb = newPebbleWriteBatch ref_pebble [''data'', ''1_1''] [], rs_k = 0, rs_count = 0, rs_world = demo_world []\<rparr>
    = (Some (Panic ''makeslice: len out of range''), st')"
proof -
  have "push_bit 30 1 < (18446744073709551615 :: u64)" "length [1 :: 8 word] \<le> 2 ^ 30" "maxAlloc < unat (18446744073709551615 :: u64)"
    by (simp_all add: word_less_nat_alt maxAlloc_def)
  from record_lengths [OF this, where P = ref_pebble and rest = "[]" and e = ErrEOF and
      st = "\<lparr>rs_reader = \<lparr>rd_data = [], rd_end = ErrEOF\<rparr>, rs_hash = crc_new,
        rs_wb = newPebbleWriteBatch ref_pebble [''data'', ''1_1''] [], rs_k = 0, rs_count = 0, rs_world = demo_world []\<rparr>"]
  show ?thesis by (simp del: append.simps)
qed

end
