(* ===== verification/Conn_Cache.thy ===== *)
theory Conn_Cache
  imports Prelude
begin

text \<open>
  The cache of client connections of \<open>service/service.go\<close>. The RPC library is not part of the sources:
  the state a connection reports at a moment and the outcome of a dial are arguments. A connection is
  a number; \<open>cc_open\<close> holds those dialled and not closed. \<open>getOrCreateConn\<close> has two critical sections,
  one under the read lock and one under the write lock; between them it asks the connection it found for its
  state, and other requests run.
\<close>

datatype conn_state = Idle | Connecting | Ready | TransientFailure | Shutdown

record conns =
  cc_cache :: "(string \<times> nat) list"
  cc_open :: "nat list"
  cc_next :: nat

definition no_conns :: conns where
  "no_conns = \<lparr>cc_cache = [], cc_open = [], cc_next = 0\<rparr>"

definition usable :: "conn_state \<Rightarrow> bool" where
  "usable s = (s = Ready \<or> s = Idle \<or> s = Connecting)"

subsection \<open>The two sections\<close>

definition conn_lookup :: "string \<Rightarrow> conns \<Rightarrow> nat option" where
  "conn_lookup addr cc = map_of (cc_cache cc) addr"

definition conn_close :: "nat \<Rightarrow> conns \<Rightarrow> conns" where
  "conn_close conn cc = cc\<lparr>cc_open := removeAll conn (cc_open cc)\<rparr>"

definition conn_dial :: "(string \<Rightarrow> go_err option) \<Rightarrow> string \<Rightarrow> conns \<Rightarrow> nat result \<times> conns" where
  "conn_dial dial addr cc =
     (case dial addr of
        Some e \<Rightarrow> (Inl e, cc)
      | None \<Rightarrow>
          (let newConn = cc_next cc
           in (Inr newConn, cc\<lparr>cc_cache := map_set addr newConn (cc_cache cc),
                 cc_open := newConn # cc_open cc, cc_next := Suc newConn\<rparr>)))"

definition conn_create ::
  "(nat \<Rightarrow> conn_state) \<Rightarrow> (string \<Rightarrow> go_err option) \<Rightarrow> string \<Rightarrow> conns \<Rightarrow> nat result \<times> conns" where
  "conn_create st dial addr cc =
     (case map_of (cc_cache cc) addr of
        Some conn \<Rightarrow>
          if usable (st conn) then (Inr conn, cc)
          else (let cc1 = conn_close conn cc
                in conn_dial dial addr (cc1\<lparr>cc_cache := map_del addr (cc_cache cc1)\<rparr>))
      | None \<Rightarrow> conn_dial dial addr cc)"

text \<open>
  A request that no other request interrupts: after the first section, with no lock held, the connection reports
  its state in \<open>st\<close>; in the second it reports that in \<open>st'\<close>.
\<close>

definition getOrCreateConn ::
  "(nat \<Rightarrow> conn_state) \<Rightarrow> (nat \<Rightarrow> conn_state) \<Rightarrow> (string \<Rightarrow> go_err option) \<Rightarrow> string \<Rightarrow> conns \<Rightarrow> nat result \<times> conns" where
  "getOrCreateConn st st' dial addr cc =
     (case conn_lookup addr cc of
        Some conn \<Rightarrow> if usable (st conn) then (Inr conn, cc) else conn_create st' dial addr cc
      | None \<Rightarrow> conn_create st' dial addr cc)"

definition CloseAllConns :: "conns \<Rightarrow> conns" where
  "CloseAllConns cc = fold (\<lambda>(addr, conn) c. (conn_close conn c)\<lparr>cc_cache := map_del addr (cc_cache c)\<rparr>) (cc_cache cc) cc"

subsection \<open>The invariant\<close>

text \<open>
  The cached connections are exactly the open ones, each under one address. The section under the
  read lock changes nothing, so an interleaving of requests is a sequence of sections under the write
  lock.
\<close>

definition conns_inv :: "conns \<Rightarrow> bool" where
  "conns_inv cc \<longleftrightarrow> distinct (map fst (cc_cache cc)) \<and> distinct (map snd (cc_cache cc)) \<and>
     set (cc_open cc) = set (map snd (cc_cache cc)) \<and> (\<forall>c \<in> set (cc_open cc). c < cc_next cc)"

datatype conn_op = CreateOp "nat \<Rightarrow> conn_state" "string \<Rightarrow> go_err option" string | CloseAllOp

fun conn_step :: "conn_op \<Rightarrow> conns \<Rightarrow> conns" where
  "conn_step (CreateOp st dial addr) cc = snd (conn_create st dial addr cc)"
| "conn_step CloseAllOp cc = CloseAllConns cc"

lemma conns_inv_no_conns [simp]: "conns_inv no_conns"
  by (simp add: conns_inv_def no_conns_def)

lemma map_set_fresh: "k \<notin> fst ` set m \<Longrightarrow> map_set k v m = (k, v) # m"
  by (induction m) (auto simp: map_set_def)

lemma map_del_snd:
  assumes "distinct (map fst m)" and "distinct (map snd m)" and "map_of m k = Some v"
  shows "snd ` set (map_del k m) = snd ` set m - {v}"
proof -
  have kv: "(k, v) \<in> set m" using assms(3) by (rule map_of_SomeD)
  have set: "set (map_del k m) = {x \<in> set m. fst x \<noteq> k}" by (auto simp: map_del_def)
  have "snd x \<noteq> v" if "x \<in> set m" "fst x \<noteq> k" for x
    using assms(2) kv that inj_onD [of snd "set m" "(k, v)" x] by (cases x) (auto simp: distinct_map)
  moreover have "fst x \<noteq> k" if "x \<in> set m" "snd x \<noteq> v" for x
    using assms(1) kv that inj_onD [of fst "set m" "(k, v)" x] by (cases x) (auto simp: distinct_map)
  ultimately show ?thesis unfolding set by blast
qed

lemma conn_dial_inv:
  assumes "conns_inv cc" and "addr \<notin> fst ` set (cc_cache cc)"
  shows "conns_inv (snd (conn_dial dial addr cc))"
  using assms by (auto simp: conn_dial_def conns_inv_def Let_def map_set_fresh less_Suc_eq split: option.splits)

lemma conn_drop_inv:
  assumes "conns_inv cc" and "map_of (cc_cache cc) addr = Some conn"
  shows "conns_inv ((conn_close conn cc)\<lparr>cc_cache := map_del addr (cc_cache cc)\<rparr>)"
  using assms map_del_snd [of "cc_cache cc" addr conn]
  by (auto simp: conns_inv_def conn_close_def map_del_def distinct_map_filter distinct_map inj_on_filter_key_eq
      intro: inj_on_subset)

lemma map_del_gone: "k \<notin> fst ` set (map_del k m)"
  by (auto simp: map_del_def)

lemma conn_create_inv: "conns_inv cc \<Longrightarrow> conns_inv (snd (conn_create st dial addr cc))"
  using conn_drop_inv [of cc addr] map_del_gone [of addr "cc_cache cc"]
  by (auto simp: conn_create_def Let_def conn_close_def map_of_eq_None_iff split: option.splits intro!: conn_dial_inv)

lemma CloseAllConns_fold:
  "fold (\<lambda>(addr, conn) c. (conn_close conn c)\<lparr>cc_cache := map_del addr (cc_cache c)\<rparr>) xs c =
    c\<lparr>cc_open := filter (\<lambda>x. x \<notin> snd ` set xs) (cc_open c), cc_cache := filter (\<lambda>e. fst e \<notin> fst ` set xs) (cc_cache c)\<rparr>"
proof (induction xs arbitrary: c)
  case (Cons x xs)
  have "filter (\<lambda>y. y \<notin> snd ` set xs) (removeAll (snd x) zs) = filter (\<lambda>y. y \<notin> snd ` set (x # xs)) zs" for zs
    by (auto simp: removeAll_filter_not_eq intro!: filter_cong)
  with Cons show ?case by (cases x) (simp add: conn_close_def map_del_def)
qed simp

lemma CloseAllConns_empty:
  "conns_inv cc \<Longrightarrow> CloseAllConns cc = cc\<lparr>cc_open := [], cc_cache := []\<rparr>"
  by (simp add: CloseAllConns_def CloseAllConns_fold conns_inv_def)

lemma conn_step_inv [inv_intros]: "conns_inv cc \<Longrightarrow> conns_inv (conn_step op cc)"
  by (cases op) (simp_all add: conn_create_inv CloseAllConns_empty, simp add: conns_inv_def)

lemma conn_run_inv: "conns_inv cc \<Longrightarrow> conns_inv (fold conn_step ops cc)"
  by (induction ops arbitrary: cc) (simp_all add: conn_step_inv)

subsection \<open>What a request gets\<close>

lemma conn_create_cached:
  "conn_create st dial addr cc = (Inr c, cc') \<Longrightarrow> map_of (cc_cache cc') addr = Some c"
  by (auto simp: conn_create_def conn_dial_def Let_def split: option.splits if_splits)

lemma cached_open: "conns_inv cc \<Longrightarrow> map_of (cc_cache cc) addr = Some c \<Longrightarrow> c \<in> set (cc_open cc)"
  by (force simp: conns_inv_def dest: map_of_SomeD)

end
