(* ===== verification/Go_Json_Enc.thy ===== *)
theory Go_Json_Enc
  imports Go_Json
begin

text \<open>
  \<open>json.Marshal\<close> of strings: quotes, backslashes, control bytes, the characters \<open><\<close>, \<open>>\<close> and \<open>&\<close>, the
  line separators U+2028 and U+2029 and bytes that are no UTF-8 are escaped. Every string that is
  valid UTF-8 is read back by \<open>json.Unmarshal\<close>.
\<close>

subsection \<open>Encoding\<close>

definition hex_digit :: "nat \<Rightarrow> byte" where
  "hex_digit n = (if n < 10 then of_nat (48 + n) else of_nat (87 + n))"

definition esc_ascii :: "byte \<Rightarrow> bytes" where
  "esc_ascii b =
     (if b = 34 \<or> b = 92 then [92, b]
      else if b = 8 then [92, 98] else if b = 12 then [92, 102] else if b = 10 then [92, 110]
      else if b = 13 then [92, 114] else if b = 9 then [92, 116]
      else if b < 32 \<or> b = 60 \<or> b = 62 \<or> b = 38
        then [92, 117, 48, 48, hex_digit (unat b div 16), hex_digit (unat b mod 16)]
      else [b])"

function enc_str :: "bytes \<Rightarrow> bytes" where
  "enc_str [] = []"
| "enc_str (b # bs) =
     (if b < 128 then esc_ascii b @ enc_str bs
      else if utf8_len (b # bs) = 0 then [92, 117, 102, 102, 102, 100] @ enc_str bs
      else if take 3 (b # bs) = [226, 128, 168] then [92, 117, 50, 48, 50, 56] @ enc_str (drop 2 bs)
      else if take 3 (b # bs) = [226, 128, 169] then [92, 117, 50, 48, 50, 57] @ enc_str (drop 2 bs)
      else take (utf8_len (b # bs)) (b # bs) @ enc_str (drop (utf8_len (b # bs) - 1) bs))"
  by pat_completeness auto
termination
  by (relation "measure length") auto

function valid_utf8 :: "bytes \<Rightarrow> bool" where
  "valid_utf8 [] = True"
| "valid_utf8 (b # bs) = (utf8_len (b # bs) \<noteq> 0 \<and> valid_utf8 (drop (utf8_len (b # bs) - 1) bs))"
  by pat_completeness auto
termination
  by (relation "measure length") auto

declare enc_str.simps(2) [simp del] valid_utf8.simps(2) [simp del]

subsection \<open>Decoding into string fields\<close>

definition dec_string :: "json \<Rightarrow> string \<Rightarrow> go_err option \<times> string" where
  "dec_string v old =
     (case v of
        JNull \<Rightarrow> (None, old)
      | JStr s \<Rightarrow> (None, string_of s)
      | _ \<Rightarrow> (Some json_type_err, old))"

subsection \<open>Encoded strings are read back\<close>

lemma hex_val_digit [simp]: "n < 16 \<Longrightarrow> hex_val (hex_digit n) = Some n"
proof -
  have "list_all (\<lambda>n. hex_val (hex_digit n) = Some n) [0..<16]" by code_simp
  then show "n < 16 \<Longrightarrow> ?thesis" by (simp add: list_all_iff)
qed

lemma is_hex_digit [simp]: "n < 16 \<Longrightarrow> is_hex (hex_digit n)"
  by (simp add: is_hex_def)

lemma lex_str_esc:
  assumes "b < 128"
  shows "lex_str (esc_ascii b @ s) = map_option (\<lambda>(r, rest). (esc_ascii b @ r, rest)) (lex_str s)"
proof -
  have "unat b div 16 < 16" "unat b mod 16 < 16" using assms by (simp_all add: word_less_nat_alt)
  then show ?thesis
    by (auto simp: esc_ascii_def is_hex_def hex_val_def [of 48] not_less option.map_comp comp_def split_def)
qed

lemma lex_str_high:
  "list_all (\<lambda>b. 128 \<le> b) c \<Longrightarrow> lex_str (c @ s) = map_option (\<lambda>(r, rest). (c @ r, rest)) (lex_str s)"
proof (induction c)
  case (Cons b c)
  then have "\<not> b < 32" "b \<noteq> 34" "b \<noteq> 92" by (auto simp: not_less word_le_nat_alt)
  with Cons show ?case by (simp add: option.map_comp comp_def split_def)
qed (cases "lex_str s", auto)

lemma utf8_len_cases:
  assumes "utf8_len (a # bs) \<noteq> 0"
  obtains "a < 128"
    | b r where "bs = b # r" "\<not> a < 128" "194 \<le> a \<and> a \<le> 223" "cont b"
    | b c r where "bs = b # c # r" "\<not> a < 128" "\<not> (194 \<le> a \<and> a \<le> 223)" "224 \<le> a \<and> a \<le> 239"
        "cont b \<and> cont c \<and> (a = 224 \<longrightarrow> 160 \<le> b) \<and> (a = 237 \<longrightarrow> b \<le> 159)"
    | b c d r where "bs = b # c # d # r" "\<not> a < 128" "\<not> (194 \<le> a \<and> a \<le> 223)" "\<not> (224 \<le> a \<and> a \<le> 239)"
        "240 \<le> a \<and> a \<le> 244" "cont b \<and> cont c \<and> cont d \<and> (a = 240 \<longrightarrow> 144 \<le> b) \<and> (a = 244 \<longrightarrow> b \<le> 143)"
proof -
  note utf8_len.simps(2) [simp]
  show thesis
  proof (cases "a < 128")
    case False
    then obtain b r where b: "bs = b # r" using assms by (cases bs) auto
    show thesis
    proof (cases "194 \<le> a \<and> a \<le> 223")
      case False2: False
      then obtain c r' where c: "r = c # r'" using assms False b by (cases r) auto
      show thesis
      proof (cases "224 \<le> a \<and> a \<le> 239")
        case True
        then show ?thesis using that(3) [of b c r'] assms False False2 b c by (simp split: if_splits)
      next
        case False3: False
        then obtain d r'' where d: "r' = d # r''" using assms False False2 b c by (cases r') auto
        then show ?thesis using that(4) [of b c d r''] assms False False2 False3 b c by (simp split: if_splits)
      qed
    qed (use assms False b that(2) in \<open>simp split: if_splits\<close>)
  qed (rule that(1))
qed

lemma utf8_len_take:
  assumes "utf8_len (b # bs) \<noteq> 0"
  shows "utf8_len (take (utf8_len (b # bs)) (b # bs) @ t) = utf8_len (b # bs)"
  using assms by (cases rule: utf8_len_cases, simp_all add: utf8_len.simps(2), auto)

lemma utf8_len_le: "utf8_len (b # bs) \<le> Suc (length bs)"
proof (cases "utf8_len (b # bs) = 0")
  case False
  then show ?thesis by (cases rule: utf8_len_cases) (simp_all add: utf8_len.simps(2))
qed simp

lemma utf8_len_ascii [simp]: "b < 128 \<Longrightarrow> utf8_len (b # bs) = 1"
  by (simp add: utf8_len.simps(2))

lemma utf8_high:
  assumes "128 \<le> b"
  shows "list_all (\<lambda>b. 128 \<le> b) (take (utf8_len (b # bs)) (b # bs))"
proof (cases "utf8_len (b # bs) = 0")
  case False
  then show ?thesis using assms by (cases rule: utf8_len_cases) (simp_all add: cont_def not_less utf8_len.simps(2))
qed simp

lemma is_hex_ascii [simp]: "is_hex 50" "is_hex 48" "is_hex 56" "is_hex 57" "is_hex 102" "is_hex 100"
  by (simp_all add: is_hex_def hex_val_def)

lemma enc_str_lex: "lex_str (enc_str s @ 34 # rest) = Some (enc_str s, rest)"
proof (induction s rule: enc_str.induct)
  case (2 b bs)
  show ?case
  proof (cases "b < 128")
    case True
    with 2(1) show ?thesis by (simp add: enc_str.simps(2) lex_str_esc)
  next
    case False
    with utf8_high [of b bs] have "list_all (\<lambda>b. 128 \<le> b) (take (utf8_len (b # bs)) (b # bs))" by (simp add: not_less)
    from lex_str_high [OF this] 2(2-) False show ?thesis
      by (auto simp: enc_str.simps(2))
  qed
qed simp

lemma next_u4_simps [simp]:
  "e \<noteq> 117 \<Longrightarrow> next_u4 (92 # e # s) = None"
  "next_u4 (92 # 117 # a # b # c # d # s) = map_option (\<lambda>r. (r, s)) (hex4 a b c d)"
  by (simp_all add: next_u4_def split: list.splits)

lemma unquote_simps [simp]:
  "e \<noteq> 117 \<Longrightarrow> unquote (92 # e # s) = esc_byte e # unquote s"
  "hex4 a b c d = Some r \<Longrightarrow> \<not> is_surrogate r \<Longrightarrow> unquote (92 # 117 # a # b # c # d # s) = utf8_enc r @ unquote s"
  "b < 128 \<Longrightarrow> b \<noteq> 92 \<Longrightarrow> unquote (b # s) = b # unquote s"
  by (simp_all add: unquote.simps(2))

lemma unquote_esc:
  assumes "b < 128"
  shows "unquote (esc_ascii b @ s) = b # unquote s"
proof -
  have n: "unat b < 128" using assms by (simp add: word_less_nat_alt)
  then have h: "unat b div 16 < 16" "unat b mod 16 < 16" by simp_all
  have "hex4 48 48 (hex_digit (unat b div 16)) (hex_digit (unat b mod 16)) = Some (unat b)"
    using h by (simp add: hex4_def hex_val_def [of 48] mult.commute)
  moreover have "\<not> is_surrogate (unat b)" "utf8_enc (unat b) = [b]"
    using n by (simp_all add: is_surrogate_def utf8_enc_def)
  ultimately show ?thesis using assms by (simp add: esc_ascii_def esc_byte_def)
qed

lemma unquote_rune:
  assumes "\<not> b < 128" and "utf8_len (b # bs) \<noteq> 0"
  shows "unquote (take (utf8_len (b # bs)) (b # bs) @ t) = take (utf8_len (b # bs)) (b # bs) @ unquote t"
proof -
  obtain m where m: "utf8_len (b # bs) = Suc m" using assms(2) not0_implies_Suc by blast
  have l: "length (take m bs) = m"
    using utf8_len_le [of b bs] m by simp
  have "b \<noteq> 92" using assms(1) by auto
  moreover have "utf8_len (b # take m bs @ t) = Suc m" using utf8_len_take [OF assms(2), of t] m by simp
  ultimately show ?thesis using assms(1) l by (simp add: m unquote.simps(2))
qed

lemma unquote_enc_str: "valid_utf8 s \<Longrightarrow> unquote (enc_str s) = s"
proof (induction s rule: enc_str.induct)
  case (2 b bs)
  show ?case
  proof (cases "b < 128")
    case True
    with 2 show ?thesis by (simp add: enc_str.simps(2) unquote_esc valid_utf8.simps(2))
  next
    case high: False
    have v: "utf8_len (b # bs) \<noteq> 0" "valid_utf8 (drop (utf8_len (b # bs) - 1) bs)"
      using 2(6) by (simp_all add: valid_utf8.simps(2))
    show ?thesis
    proof (cases "take 3 (b # bs) = [226, 128, 168] \<or> take 3 (b # bs) = [226, 128, 169]")
      case True
      then obtain c r where b: "b = 226" "bs = 128 # c # r" and c: "c = 168 \<or> c = 169"
        by (cases bs; cases "tl bs") (auto simp: numeral_3_eq_3)
      have len: "utf8_len (226 # 128 # c # r) = 3" using c by (auto simp: cont_def utf8_len.simps(2))
      have r: "drop 2 bs = r" "take 3 (b # bs) = [226, 128, c]" by (simp_all add: b)
      have "valid_utf8 r" using v(2) len by (simp add: b)
      then have r': "unquote (enc_str r) = r" using c 2(3) [OF high v(1)] 2(4) [OF high v(1)] r by fastforce
      have "unquote (92 # 117 # 50 # 48 # 50 # 56 # enc_str r) = 226 # 128 # 168 # r"
        "unquote (92 # 117 # 50 # 48 # 50 # 57 # enc_str r) = 226 # 128 # 169 # r"
        by (simp_all add: unquote.simps(2) next_u4_def hex4_def hex_val_def is_surrogate_def utf8_enc_def r')
      moreover have "enc_str (b # bs) = (if c = 168 then [92, 117, 50, 48, 50, 56] else [92, 117, 50, 48, 50, 57]) @ enc_str r"
        using c high v(1) r by (auto simp: enc_str.simps(2))
      ultimately show ?thesis using c b by auto
    next
      case False
      then have enc: "enc_str (b # bs) = take (utf8_len (b # bs)) (b # bs) @ enc_str (drop (utf8_len (b # bs) - 1) bs)"
        using high v(1) by (subst enc_str.simps(2)) auto
      have "take (utf8_len (b # bs)) (b # bs) @ drop (utf8_len (b # bs) - 1) bs = b # bs"
        using v(1) by (cases "utf8_len (b # bs)") simp_all
      moreover have "unquote (enc_str (drop (utf8_len (b # bs) - 1) bs)) = drop (utf8_len (b # bs) - 1) bs"
        using False 2(5) [OF high v(1)] v(2) by blast
      ultimately show ?thesis by (simp only: enc unquote_rune [OF high v(1)])
    qed
  qed
qed simp

lemma p_val_enc_str:
  "valid_utf8 s \<Longrightarrow> p_val (Suc n) (quoted (enc_str s) @ c # r) = Some (JStr s, c # r)"
  by (simp add: quoted_def enc_str_lex unquote_enc_str p_val.simps(2))

subsection \<open>Objects\<close>

text \<open>The text of an object from its names and the texts of its values, and how it parses.\<close>

fun obj_members :: "(bytes \<times> bytes) list \<Rightarrow> bytes" where
  "obj_members [] = []"
| "obj_members [(k, v)] = quoted k @ 58 # v"
| "obj_members ((k, v) # ms) = quoted k @ 58 # v @ 44 # obj_members ms"

definition obj_text :: "(bytes \<times> bytes) list \<Rightarrow> bytes" where
  "obj_text ms = 123 # obj_members ms @ [125]"

definition member_ok :: "(bytes \<Rightarrow> json) \<Rightarrow> bytes \<times> bytes \<Rightarrow> bool" where
  "member_ok J kv \<longleftrightarrow> plain_str (fst kv) \<and>
     (\<forall>n c r. c \<in> {44, 125} \<longrightarrow> p_val (Suc n) (snd kv @ c # r) = Some (J (snd kv), c # r))"

lemma p_obj_members:
  assumes "ms \<noteq> []" and "length ms \<le> n" and "list_all (member_ok J) ms"
  shows "p_members (Suc n) (obj_members ms @ 125 # rest) = Some (map (map_prod id J) ms, rest)"
  using assms
proof (induction ms arbitrary: n rule: obj_members.induct)
  case (2 k v)
  then obtain m where n: "n = Suc m" by (cases n) auto
  show ?case unfolding n using 2(3) p_members_last [of k "Suc m" v rest "J v"] by (simp add: member_ok_def)
next
  case (3 k v kv ms)
  then obtain m where n: "n = Suc m" by (cases n) auto
  have IH: "p_members (Suc m) (obj_members (kv # ms) @ 125 # rest) = Some (map (map_prod id J) (kv # ms), rest)"
    by (rule 3(1)) (use 3(3,4) n in simp_all)
  have "plain_str k" "p_val (Suc m) (v @ 44 # obj_members (kv # ms) @ 125 # rest) = Some (J v, 44 # obj_members (kv # ms) @ 125 # rest)"
    using 3(4) by (simp_all add: member_ok_def)
  from p_members_more [OF this] IH show ?case unfolding n by (simp add: id_def)
qed simp

lemma parse_obj_text:
  assumes "ms \<noteq> []" and "list_all (member_ok J) ms"
  shows "parse_json (obj_text ms) = Some (JObj (map (map_prod id J) ms))"
proof -
  have len: "length ms \<le> length (obj_members ms)"
    by (induction ms rule: obj_members.induct) (auto simp: quoted_def)
  then obtain n where n: "2 * length (obj_text ms) = Suc n" "length ms \<le> n"
    by (cases "2 * length (obj_text ms)") (auto simp: obj_text_def)
  obtain s where s: "obj_members ms = 34 # s"
    using assms(1) by (cases ms rule: obj_members.cases) (auto simp: quoted_def)
  have "p_members (Suc n) (obj_members ms @ 125 # []) = Some (map (map_prod id J) ms, [])"
    by (rule p_obj_members [OF assms(1) n(2) assms(2)])
  then have "p_val (Suc (Suc n)) (obj_text ms) = Some (JObj (map (map_prod id J) ms), [])"
    using p_val_object [of "Suc n" "s @ [125]"] s by (simp add: obj_text_def)
  then show ?thesis by (simp add: parse_json_def n(1))
qed

end
