(* ===== verification/Go_Net.thy ===== *)
theory Go_Net
  imports Go_Json
begin

text \<open>
  The parts of \<open>net\<close>, \<open>strconv\<close> and \<open>strings\<close> that read addresses and numbers: \<open>SplitHostPort\<close>,
  \<open>Atoi\<close>/\<open>ParseInt\<close> and \<open>Split\<close>. A number error does not say whether the text or the range was at
  fault: no caller distinguishes the two.
\<close>

subsection \<open>Positions in strings\<close>

fun index_byte :: "char \<Rightarrow> string \<Rightarrow> nat option" where
  "index_byte c [] = None"
| "index_byte c (x # xs) = (if x = c then Some 0 else map_option Suc (index_byte c xs))"

fun last_index_byte :: "char \<Rightarrow> string \<Rightarrow> nat option" where
  "last_index_byte c [] = None"
| "last_index_byte c (x # xs) =
     (case last_index_byte c xs of
        Some i \<Rightarrow> Some (Suc i)
      | None \<Rightarrow> if x = c then Some 0 else None)"

lemma index_byte_first: "c \<notin> set xs \<Longrightarrow> index_byte c (xs @ c # ys) = Some (length xs)"
  by (induction xs) auto

lemma last_index_byte_none [simp]: "last_index_byte c xs = None \<longleftrightarrow> c \<notin> set xs"
  by (induction xs) (auto split: option.splits)

lemma last_index_byte_last: "c \<notin> set ys \<Longrightarrow> last_index_byte c (xs @ c # ys) = Some (length xs)"
  by (induction xs) (auto split: option.splits)

subsection \<open>Host and port\<close>

definition addrErr :: "string \<Rightarrow> string \<Rightarrow> go_err" where
  "addrErr addr why = Errorf ''address %s: %s'' [AStr addr, AStr why]"

definition check_brackets :: "string \<Rightarrow> nat \<Rightarrow> string \<Rightarrow> nat \<Rightarrow> nat \<Rightarrow> (string \<times> string) result" where
  "check_brackets hostport i host j k =
     (if CHR ''['' \<in> set (drop j hostport) then Inl (addrErr hostport ''unexpected '[' in address'')
      else if CHR '']'' \<in> set (drop k hostport) then Inl (addrErr hostport ''unexpected ']' in address'')
      else Inr (host, drop (Suc i) hostport))"

definition SplitHostPort :: "string \<Rightarrow> (string \<times> string) result" where
  "SplitHostPort hostport =
     (case last_index_byte CHR '':'' hostport of
        None \<Rightarrow> Inl (addrErr hostport ''missing port in address'')
      | Some i \<Rightarrow>
          if hostport ! 0 = CHR ''['' then
            (case index_byte CHR '']'' hostport of
               None \<Rightarrow> Inl (addrErr hostport ''missing ']' in address'')
             | Some end \<Rightarrow>
                 if Suc end = length hostport then Inl (addrErr hostport ''missing port in address'')
                 else if Suc end = i then check_brackets hostport i (drop 1 (take end hostport)) 1 (Suc end)
                 else if hostport ! Suc end = CHR '':'' then Inl (addrErr hostport ''too many colons in address'')
                 else Inl (addrErr hostport ''missing port in address''))
          else if CHR '':'' \<in> set (take i hostport) then Inl (addrErr hostport ''too many colons in address'')
          else check_brackets hostport i (take i hostport) 0 0)"

definition plain_host :: "string \<Rightarrow> bool" where
  "plain_host h \<longleftrightarrow> CHR ''['' \<notin> set h \<and> CHR '']'' \<notin> set h"

lemma SplitHostPort_plain:
  assumes "plain_host h" and "CHR '':'' \<notin> set h" and "plain_host p" and "CHR '':'' \<notin> set p"
  shows "SplitHostPort (h @ CHR '':'' # p) = Inr (h, p)"
proof -
  have "(h @ CHR '':'' # p) ! 0 \<noteq> CHR ''[''"
    using assms(1) by (cases h) (auto simp: plain_host_def)
  then show ?thesis
    using assms by (simp add: SplitHostPort_def last_index_byte_last check_brackets_def plain_host_def)
qed

lemma SplitHostPort_bracketed:
  assumes "plain_host h" and "plain_host p" and "CHR '':'' \<notin> set p"
  shows "SplitHostPort (CHR ''['' # h @ CHR '']'' # CHR '':'' # p) = Inr (h, p)"
proof -
  let ?s = "CHR ''['' # h @ CHR '']'' # CHR '':'' # p"
  have "last_index_byte CHR '':'' ?s = Some (Suc (Suc (length h)))"
    using last_index_byte_last [OF assms(3), of "CHR ''['' # h @ [CHR '']'']"] by simp
  moreover have "index_byte CHR '']'' ?s = Some (Suc (length h))"
    using assms(1) index_byte_first [of "CHR '']''" "CHR ''['' # h"] by (simp add: plain_host_def)
  ultimately show ?thesis
    using assms by (simp add: SplitHostPort_def check_brackets_def plain_host_def)
qed

text \<open>Every host and port that come out of a split are pieces of the address, and the port has no colon.\<close>

lemma last_index_byte_port:
  "last_index_byte c s = Some i \<Longrightarrow> i < length s \<and> s ! i = c \<and> c \<notin> set (drop (Suc i) s)"
  by (induction s arbitrary: i) (auto split: option.splits if_splits)

lemma check_brackets_ok:
  "check_brackets s i host j k = Inr (h, p) \<Longrightarrow> h = host \<and> p = drop (Suc i) s"
  by (auto simp: check_brackets_def split: if_splits)

lemma SplitHostPort_port:
  assumes "SplitHostPort s = Inr (h, p)"
  shows "\<exists>pre. s = pre @ CHR '':'' # p \<and> CHR '':'' \<notin> set p"
proof -
  obtain i where i: "last_index_byte CHR '':'' s = Some i" "p = drop (Suc i) s"
    using assms by (auto simp: SplitHostPort_def split: option.splits if_splits dest: check_brackets_ok)
  note at = last_index_byte_port [OF i(1)]
  then have "s = take i s @ s ! i # drop (Suc i) s" using id_take_nth_drop by blast
  with i at show ?thesis by metis
qed

subsection \<open>Numbers\<close>

definition ParseInt :: "string \<Rightarrow> int result" where
  "ParseInt s =
     (let (neg, ds) = (case s of
          [] \<Rightarrow> (False, [])
        | c # cs \<Rightarrow> if c = CHR ''-'' then (True, cs) else if c = CHR ''+'' then (False, cs) else (False, s))
      in case digits_val (bytes_of ds) of
           None \<Rightarrow> Inl (Errorf ''strconv: parsing %q'' [AStr s])
         | Some n \<Rightarrow>
             (let i = if neg then - int n else int n
              in if int64_range i then Inr i else Inl (Errorf ''strconv: parsing %q'' [AStr s])))"

lemma ParseInt_show_int:
  assumes "int64_range i"
  shows "ParseInt (show_int i) = Inr i"
proof (cases "i < 0")
  case True
  with assms show ?thesis by (simp add: ParseInt_def show_int_def digits_val_show_nat)
next
  case False
  obtain c cs where s: "show_nat (nat i) = c # cs" by (cases "show_nat (nat i)") auto
  then have "c \<noteq> CHR ''-'' \<and> c \<noteq> CHR ''+''" using show_nat_set [of c "nat i"] by auto
  moreover have "digits_val (bytes_of (c # cs)) = Some (nat i)" using digits_val_show_nat [of "nat i"] s by simp
  ultimately show ?thesis using False assms by (simp add: ParseInt_def show_int_def s)
qed

lemma ParseInt_range: "ParseInt s = Inr i \<Longrightarrow> int64_range i"
  by (auto simp: ParseInt_def Let_def split: prod.splits option.splits if_splits)

subsection \<open>Splitting at a separator\<close>

fun strings_Split :: "string \<Rightarrow> char \<Rightarrow> string list" where
  "strings_Split [] sep = [[]]"
| "strings_Split (c # cs) sep =
     (if c = sep then [] # strings_Split cs sep
      else case strings_Split cs sep of
             p # ps \<Rightarrow> (c # p) # ps
           | [] \<Rightarrow> [[c]])"

lemma strings_Split_not_Nil [simp]: "strings_Split s sep \<noteq> []"
  by (induction s sep rule: strings_Split.induct) (auto split: list.splits)

fun strings_Join :: "string list \<Rightarrow> char \<Rightarrow> string" where
  "strings_Join [] sep = []"
| "strings_Join [p] sep = p"
| "strings_Join (p # ps) sep = p @ sep # strings_Join ps sep"

lemma strings_Split_piece: "sep \<notin> set p \<Longrightarrow> strings_Split (p @ sep # s) sep = p # strings_Split s sep"
  by (induction p) auto

lemma strings_Split_one: "sep \<notin> set p \<Longrightarrow> strings_Split p sep = [p]"
  by (induction p) auto

lemma strings_Split_Join:
  "ps \<noteq> [] \<Longrightarrow> \<forall>p \<in> set ps. sep \<notin> set p \<Longrightarrow> strings_Split (strings_Join ps sep) sep = ps"
  by (induction ps sep rule: strings_Join.induct) (simp_all add: strings_Split_piece strings_Split_one)

end
