(* ===== verification/Resolver.thy ===== *)
theory Resolver
  imports Prelude
begin

text \<open>
  Address resolution, \<open>resolver/resolver.go\<close>: the static resolver, and what an address book
  promises its clients. The (address, ok) pair of a lookup is an option. The mutex makes every
  operation one step.
\<close>

subsection \<open>The static resolver\<close>

record StaticResolver =
  res_addrs :: "(string \<times> string) list"

definition NewStaticResolver :: "(string \<times> string) list \<Rightarrow> StaticResolver" where
  "NewStaticResolver initial = \<lparr>res_addrs = fold (\<lambda>(k, v) addrs. map_set k v addrs) initial []\<rparr>"

definition static_GetGRPCAddr :: "StaticResolver \<Rightarrow> string \<Rightarrow> string option" where
  "static_GetGRPCAddr r nodeID = map_of (res_addrs r) nodeID"

definition static_SetGRPCAddr :: "string \<Rightarrow> string \<Rightarrow> StaticResolver \<Rightarrow> StaticResolver" where
  "static_SetGRPCAddr nodeID grpcAddr r = r\<lparr>res_addrs := map_set nodeID grpcAddr (res_addrs r)\<rparr>"

definition static_RemoveAddr :: "string \<Rightarrow> StaticResolver \<Rightarrow> StaticResolver" where
  "static_RemoveAddr nodeID r = r\<lparr>res_addrs := map_del nodeID (res_addrs r)\<rparr>"

text \<open>A Go map is ranged over in any order, but its keys are distinct, so the copy looks up alike.\<close>

lemma fold_map_set:
  "distinct (map fst kvs) \<Longrightarrow> map_of (fold (\<lambda>(k, v) m. map_set k v m) kvs m) = map_of m ++ map_of kvs"
proof (induction kvs arbitrary: m)
  case (Cons kv kvs)
  then have "fst kv \<notin> dom (map_of kvs)" by (simp add: dom_map_of_conv_image_fst)
  with Cons show ?case by (cases kv) (auto simp: map_add_def fun_eq_iff split: option.splits)
qed simp

lemma static_New_get [simp]:
  "distinct (map fst initial) \<Longrightarrow> static_GetGRPCAddr (NewStaticResolver initial) = map_of initial"
  by (rule ext) (simp add: static_GetGRPCAddr_def NewStaticResolver_def fold_map_set)

subsection \<open>Address books\<close>

text \<open>
  An address book is updated by entries that name a node and its address. What a lookup returns
  after a run of updates depends on the last one that names the node.
\<close>

datatype 'e book_event = Put 'e | Del 'e

fun book_entry :: "'e book_event \<Rightarrow> 'e" where
  "book_entry (Put e) = e"
| "book_entry (Del e) = e"

definition last_event :: "('e \<Rightarrow> string) \<Rightarrow> string \<Rightarrow> 'e book_event list \<Rightarrow> 'e book_event option" where
  "last_event ident n evs = List.find (\<lambda>ev. ident (book_entry ev) = n) (rev evs)"

definition book_step :: "('e \<Rightarrow> 's \<Rightarrow> 's) \<Rightarrow> ('e \<Rightarrow> 's \<Rightarrow> 's) \<Rightarrow> 'e book_event \<Rightarrow> 's \<Rightarrow> 's" where
  "book_step put del ev s = (case ev of Put e \<Rightarrow> put e s | Del e \<Rightarrow> del e s)"

definition book_run :: "('e \<Rightarrow> 's \<Rightarrow> 's) \<Rightarrow> ('e \<Rightarrow> 's \<Rightarrow> 's) \<Rightarrow> 'e book_event list \<Rightarrow> 's \<Rightarrow> 's" where
  "book_run put del evs s = fold (book_step put del) evs s"

locale address_book =
  fixes get :: "'s \<Rightarrow> string \<Rightarrow> string option"
    and put del :: "'e \<Rightarrow> 's \<Rightarrow> 's"
    and ident addr :: "'e \<Rightarrow> string"
  assumes get_put: "get (put e s) = (get s)(ident e \<mapsto> addr e)"
    and get_del: "get (del e s) = (get s)(ident e := None)"
begin

lemma get_step:
  "get (book_step put del ev s) n =
    (if ident (book_entry ev) = n then (case ev of Put e \<Rightarrow> Some (addr e) | Del e \<Rightarrow> None) else get s n)"
  by (cases ev) (auto simp: book_step_def get_put get_del)

lemma get_run:
  "get (book_run put del evs s) n =
    (case last_event ident n evs of
       None \<Rightarrow> get s n
     | Some (Put e) \<Rightarrow> Some (addr e)
     | Some (Del e) \<Rightarrow> None)"
proof (induction evs rule: rev_induct)
  case (snoc ev evs)
  have "book_run put del (evs @ [ev]) s = book_step put del ev (book_run put del evs s)"
    by (simp add: book_run_def)
  with snoc show ?case by (auto simp: get_step last_event_def split: book_event.splits)
qed (simp add: book_run_def last_event_def)

end

interpretation static: address_book static_GetGRPCAddr
    "\<lambda>(n, a). static_SetGRPCAddr n a" "\<lambda>(n, a). static_RemoveAddr n" fst snd
  by unfold_locales (auto simp: static_GetGRPCAddr_def static_SetGRPCAddr_def static_RemoveAddr_def fun_eq_iff)

end
