(* ===== verification/Gossip.thy ===== *)
theory Gossip
  imports Go_Json_Enc Go_Net Resolver
begin

text \<open>
  Node discovery, \<open>gossip/gossip.go\<close>. The membership library is not part of the sources: the events
  it delivers, the handle it creates and the outcome of a join are arguments. A callback is a record
  of its calls, since the engine's callbacks only log.
\<close>

subsection \<open>Node metadata\<close>

record NodeMeta =
  nm_NodeID :: string
  nm_RaftAddr :: string
  nm_GRPCAddr :: string

definition set_NodeMeta_field :: "bytes \<Rightarrow> json \<Rightarrow> NodeMeta \<Rightarrow> go_err option \<times> NodeMeta" where
  "set_NodeMeta_field k v m =
     (if field_is ''node_id'' k then map_prod id (\<lambda>x. m\<lparr>nm_NodeID := x\<rparr>) (dec_string v (nm_NodeID m))
      else if field_is ''raft_addr'' k then map_prod id (\<lambda>x. m\<lparr>nm_RaftAddr := x\<rparr>) (dec_string v (nm_RaftAddr m))
      else if field_is ''grpc_addr'' k then map_prod id (\<lambda>x. m\<lparr>nm_GRPCAddr := x\<rparr>) (dec_string v (nm_GRPCAddr m))
      else (None, m))"

definition unmarshal_NodeMeta :: "bytes \<Rightarrow> NodeMeta result" where
  "unmarshal_NodeMeta = unmarshal set_NodeMeta_field \<lparr>nm_NodeID = [], nm_RaftAddr = [], nm_GRPCAddr = []\<rparr>"

definition marshal_NodeMeta :: "NodeMeta \<Rightarrow> bytes" where
  "marshal_NodeMeta m = obj_text
     [(bytes_of ''node_id'', quoted (enc_str (bytes_of (nm_NodeID m)))),
      (bytes_of ''raft_addr'', quoted (enc_str (bytes_of (nm_RaftAddr m)))),
      (bytes_of ''grpc_addr'', quoted (enc_str (bytes_of (nm_GRPCAddr m))))]"

definition valid_meta :: "NodeMeta \<Rightarrow> bool" where
  "valid_meta m \<longleftrightarrow> valid_utf8 (bytes_of (nm_NodeID m)) \<and> valid_utf8 (bytes_of (nm_RaftAddr m)) \<and>
     valid_utf8 (bytes_of (nm_GRPCAddr m))"

subsection \<open>The node table\<close>

datatype gossip_call = JoinCall NodeMeta | LeaveCall NodeMeta

record Gossip =
  g_localMeta :: NodeMeta
  g_nodes :: "(string \<times> NodeMeta) list"
  g_onJoin :: bool
  g_onLeave :: bool
  g_calls :: "gossip_call list"

definition node_joined :: "NodeMeta \<Rightarrow> Gossip \<Rightarrow> Gossip" where
  "node_joined meta g =
     (let g1 = g\<lparr>g_nodes := map_set (nm_NodeID meta) meta (g_nodes g)\<rparr>
      in if g_onJoin g1 then g1\<lparr>g_calls := g_calls g1 @ [JoinCall meta]\<rparr> else g1)"

definition NotifyJoin :: "bytes \<Rightarrow> Gossip \<Rightarrow> Gossip" where
  "NotifyJoin node_Meta g =
     (if length node_Meta = 0 then g
      else case unmarshal_NodeMeta node_Meta of Inl e \<Rightarrow> g | Inr meta \<Rightarrow> node_joined meta g)"

definition node_left :: "NodeMeta \<Rightarrow> Gossip \<Rightarrow> Gossip" where
  "node_left meta g =
     (let g1 = g\<lparr>g_nodes := map_del (nm_NodeID meta) (g_nodes g)\<rparr>
      in if g_onLeave g1 then g1\<lparr>g_calls := g_calls g1 @ [LeaveCall meta]\<rparr> else g1)"

definition NotifyLeave :: "bytes \<Rightarrow> Gossip \<Rightarrow> Gossip" where
  "NotifyLeave node_Meta g =
     (if length node_Meta = 0 then g
      else case unmarshal_NodeMeta node_Meta of Inl e \<Rightarrow> g | Inr meta \<Rightarrow> node_left meta g)"

definition NotifyUpdate :: "bytes \<Rightarrow> Gossip \<Rightarrow> Gossip" where
  "NotifyUpdate node_Meta g = NotifyJoin node_Meta g"

definition delegate_NodeMeta :: "Gossip \<Rightarrow> nat \<Rightarrow> bytes" where
  "delegate_NodeMeta g limit = marshal_NodeMeta (g_localMeta g)"

definition OnJoin :: "Gossip \<Rightarrow> Gossip" where
  "OnJoin g = g\<lparr>g_onJoin := True\<rparr>"

definition OnLeave :: "Gossip \<Rightarrow> Gossip" where
  "OnLeave g = g\<lparr>g_onLeave := True\<rparr>"

definition gossip_GetGRPCAddr :: "Gossip \<Rightarrow> string \<Rightarrow> string option" where
  "gossip_GetGRPCAddr g nodeID =
     (case map_of (g_nodes g) nodeID of
        None \<Rightarrow> None
      | Some meta \<Rightarrow> Some (nm_GRPCAddr meta))"

text \<open>The order of \<open>GetAllNodes\<close> is that of a Go map, which is any order.\<close>

definition GetAllNodes :: "Gossip \<Rightarrow> NodeMeta list" where
  "GetAllNodes g = map snd (g_nodes g)"

subsection \<open>Starting\<close>

record GossipConfig =
  gc_BindAddr :: string
  gc_BindPort :: int
  gc_AdvertiseAddr :: string
  gc_AdvertisePort :: int
  gc_Seeds :: "string list"
  gc_NodeMeta :: NodeMeta

record MlConfig =
  ml_Name :: string
  ml_BindAddr :: string
  ml_BindPort :: int
  ml_AdvertiseAddr :: string
  ml_AdvertisePort :: int

definition ml_config :: "MlConfig \<Rightarrow> GossipConfig \<Rightarrow> MlConfig" where
  "ml_config dflt cfg =
     (let c = dflt\<lparr>ml_Name := nm_NodeID (gc_NodeMeta cfg), ml_BindAddr := gc_BindAddr cfg, ml_BindPort := gc_BindPort cfg\<rparr>;
          c1 = (if gc_AdvertiseAddr cfg \<noteq> [] then c\<lparr>ml_AdvertiseAddr := gc_AdvertiseAddr cfg\<rparr> else c)
      in if gc_AdvertisePort cfg > 0 then c1\<lparr>ml_AdvertisePort := gc_AdvertisePort cfg\<rparr> else c1)"

text \<open>
  The loop that joins the seeds: \<open>join i\<close> is the outcome of attempt \<open>i\<close>. It gives the number of
  joined nodes, if any attempt succeeded, and the seconds slept between attempts.
\<close>

function join_seeds :: "(nat \<Rightarrow> nat result) \<Rightarrow> nat \<Rightarrow> nat option \<times> nat list" where
  "join_seeds join i =
     (if i < 5 then
        (case join i of
           Inl e \<Rightarrow> map_prod id (\<lambda>zs. Suc i # zs) (join_seeds join (Suc i))
         | Inr n \<Rightarrow> (Some n, []))
      else (None, []))"
  by pat_completeness auto
termination
  by (relation "measure (\<lambda>(join, i). 5 - i)") auto

declare join_seeds.simps [simp del]

definition gossip_New :: "MlConfig \<Rightarrow> (MlConfig \<Rightarrow> 'ml result) \<Rightarrow> GossipConfig \<Rightarrow> (Gossip \<times> 'ml) result" where
  "gossip_New dflt create cfg =
     (case create (ml_config dflt cfg) of
        Inl e \<Rightarrow> Inl e
      | Inr ml \<Rightarrow>
          Inr (\<lparr>g_localMeta = gc_NodeMeta cfg, g_nodes = map_set (nm_NodeID (gc_NodeMeta cfg)) (gc_NodeMeta cfg) [],
                g_onJoin = False, g_onLeave = False, g_calls = []\<rparr>, ml))"

definition ParseHostPort :: "string \<Rightarrow> (string \<times> int) result" where
  "ParseHostPort addr =
     (case SplitHostPort addr of
        Inl e \<Rightarrow> Inl e
      | Inr (host, portStr) \<Rightarrow>
          (case ParseInt portStr of
             Inl e \<Rightarrow> Inl e
           | Inr port \<Rightarrow> Inr (host, port)))"

subsection \<open>The resolver interface\<close>

text \<open>
  \<open>AddressResolver\<close> has two implementations, the static map and \<open>GossipResolver\<close>, which asks the node
  table and ignores updates.
\<close>

datatype AddressResolver = StaticR StaticResolver | GossipResolver Gossip

fun GetGRPCAddr :: "AddressResolver \<Rightarrow> string \<Rightarrow> string option" where
  "GetGRPCAddr (StaticR r) nodeID = static_GetGRPCAddr r nodeID"
| "GetGRPCAddr (GossipResolver g) nodeID = gossip_GetGRPCAddr g nodeID"

fun SetGRPCAddr :: "string \<Rightarrow> string \<Rightarrow> AddressResolver \<Rightarrow> AddressResolver" where
  "SetGRPCAddr nodeID grpcAddr (StaticR r) = StaticR (static_SetGRPCAddr nodeID grpcAddr r)"
| "SetGRPCAddr nodeID grpcAddr (GossipResolver g) = GossipResolver g"

fun RemoveAddr :: "string \<Rightarrow> AddressResolver \<Rightarrow> AddressResolver" where
  "RemoveAddr nodeID (StaticR r) = StaticR (static_RemoveAddr nodeID r)"
| "RemoveAddr nodeID (GossipResolver g) = GossipResolver g"

subsection \<open>Metadata is read back\<close>

lemma plain_meta_names [simp]:
  "plain_str (bytes_of ''node_id'')" "plain_str (bytes_of ''raft_addr'')" "plain_str (bytes_of ''grpc_addr'')"
  by (simp_all add: bytes_of_def byte_of_def)

lemma field_is_meta [simp]:
  "field_is s (bytes_of s)"
  "\<not> field_is ''node_id'' (bytes_of ''raft_addr'')" "\<not> field_is ''node_id'' (bytes_of ''grpc_addr'')"
  "\<not> field_is ''raft_addr'' (bytes_of ''grpc_addr'')"
  by (simp_all add: field_is_def bytes_of_def byte_of_def)

lemma member_ok_string:
  assumes "plain_str k" and "valid_utf8 s"
  shows "member_ok (\<lambda>v. JStr (unquote (butlast (tl v)))) (k, quoted (enc_str s))"
proof -
  have "JStr (unquote (butlast (tl (quoted (enc_str s))))) = JStr s"
    using unquote_enc_str [OF assms(2)] by (simp add: quoted_def)
  then show ?thesis using assms(1) by (simp add: member_ok_def p_val_enc_str [OF assms(2)])
qed

lemma unmarshal_marshal_NodeMeta [go_simps]:
  assumes "valid_meta m"
  shows "unmarshal_NodeMeta (marshal_NodeMeta m) = Inr m"
proof -
  have q: "unquote (butlast (tl (quoted (enc_str (bytes_of s))))) = bytes_of s" if "valid_utf8 (bytes_of s)" for s
    using unquote_enc_str [OF that] by (simp add: quoted_def)
  have "parse_json (marshal_NodeMeta m) = Some (JObj
      [(bytes_of ''node_id'', JStr (bytes_of (nm_NodeID m))), (bytes_of ''raft_addr'', JStr (bytes_of (nm_RaftAddr m))),
       (bytes_of ''grpc_addr'', JStr (bytes_of (nm_GRPCAddr m)))])"
    unfolding marshal_NodeMeta_def using assms
    by (subst parse_obj_text [where J = "\<lambda>v. JStr (unquote (butlast (tl v)))"])
       (simp_all add: member_ok_string valid_meta_def q)
  then show ?thesis
    by (simp add: unmarshal_NodeMeta_def unmarshal_def dec_members_def set_NodeMeta_field_def dec_string_def first_err_def)
qed

lemma marshal_NodeMeta_not_Nil [simp]: "marshal_NodeMeta m \<noteq> []"
  by (simp add: marshal_NodeMeta_def obj_text_def)

subsection \<open>The table is an address book\<close>

interpretation gsp: address_book gossip_GetGRPCAddr node_joined node_left nm_NodeID nm_GRPCAddr
  by unfold_locales (auto simp: gossip_GetGRPCAddr_def node_joined_def node_left_def Let_def fun_eq_iff)

text \<open>What the library delivers, and the update of the address book that an event makes, if any.\<close>

datatype ml_event = EvJoin bytes | EvLeave bytes | EvUpdate bytes

fun notify :: "ml_event \<Rightarrow> Gossip \<Rightarrow> Gossip" where
  "notify (EvJoin m) g = NotifyJoin m g"
| "notify (EvLeave m) g = NotifyLeave m g"
| "notify (EvUpdate m) g = NotifyUpdate m g"

definition decode_meta :: "bytes \<Rightarrow> NodeMeta option" where
  "decode_meta m = (if m = [] then None else case unmarshal_NodeMeta m of Inl e \<Rightarrow> None | Inr meta \<Rightarrow> Some meta)"

fun book_event_of :: "ml_event \<Rightarrow> NodeMeta book_event option" where
  "book_event_of (EvJoin m) = map_option Put (decode_meta m)"
| "book_event_of (EvLeave m) = map_option Del (decode_meta m)"
| "book_event_of (EvUpdate m) = map_option Put (decode_meta m)"

lemma notify_book:
  "notify ev g = (case book_event_of ev of None \<Rightarrow> g | Some b \<Rightarrow> book_step node_joined node_left b g)"
  by (cases ev) (auto simp: NotifyJoin_def NotifyLeave_def NotifyUpdate_def decode_meta_def book_step_def split: sum.splits)

lemma notify_run:
  "fold notify evs g = book_run node_joined node_left (List.map_filter book_event_of evs) g"
  by (induction evs arbitrary: g) (auto simp: notify_book book_run_def map_filter_simps split: option.splits)

end
