(* ===== verification/Go_Json_Indent.thy ===== *)
theory Go_Json_Indent
  imports Go_Json_Enc Go_Net "HOL-Library.List_Lexorder" "HOL-Library.Char_ord"
begin

text \<open>
  \<open>json.MarshalIndent\<close> with no prefix and an indentation of four spaces, for the values the sources hand to
  it: numbers, strings, booleans, slices, and maps, whose keys are written in order. What is written is valid
  JSON text and parses back to the value.
\<close>

subsection \<open>Values\<close>

datatype gval =
    GNil
  | GBool bool
  | GInt int
  | GStr string
  | GSlice "gval list"
  | GObj "(string \<times> gval) list"

text \<open>A map is written with its keys sorted.\<close>

definition GMap :: "(string \<times> gval) list \<Rightarrow> gval" where
  "GMap ms = GObj (sort_key fst ms)"

fun gfield :: "gval \<Rightarrow> string \<Rightarrow> gval option" where
  "gfield (GObj ms) k = map_of ms k"
| "gfield _ k = None"

subsection \<open>Writing\<close>

definition newline :: "nat \<Rightarrow> bytes" where
  "newline depth = 10 # replicate (4 * depth) 32"

fun ind_val :: "nat \<Rightarrow> gval \<Rightarrow> bytes"
and ind_elems :: "nat \<Rightarrow> gval list \<Rightarrow> bytes"
and ind_members :: "nat \<Rightarrow> (string \<times> gval) list \<Rightarrow> bytes" where
  "ind_val d GNil = bytes_of ''null''"
| "ind_val d (GBool b) = bytes_of (if b then ''true'' else ''false'')"
| "ind_val d (GInt i) = bytes_of (show_int i)"
| "ind_val d (GStr s) = quoted (enc_str (bytes_of s))"
| "ind_val d (GSlice vs) = (if vs = [] then [91, 93] else 91 # newline (Suc d) @ ind_elems (Suc d) vs @ newline d @ [93])"
| "ind_val d (GObj ms) = (if ms = [] then [123, 125] else 123 # newline (Suc d) @ ind_members (Suc d) ms @ newline d @ [125])"
| "ind_elems d [] = []"
| "ind_elems d (v # vs) = ind_val d v @ (if vs = [] then [] else 44 # newline d @ ind_elems d vs)"
| "ind_members d [] = []"
| "ind_members d ((k, v) # ms) =
     quoted (enc_str (bytes_of k)) @ [58, 32] @ ind_val d v @ (if ms = [] then [] else 44 # newline d @ ind_members d ms)"

definition MarshalIndent :: "gval \<Rightarrow> bytes" where
  "MarshalIndent v = ind_val 0 v"

subsection \<open>Reading back\<close>

fun json_of :: "gval \<Rightarrow> json" where
  "json_of GNil = JNull"
| "json_of (GBool b) = JBool b"
| "json_of (GInt i) = JNum (bytes_of (show_int i))"
| "json_of (GStr s) = JStr (bytes_of s)"
| "json_of (GSlice vs) = JArr (map json_of vs)"
| "json_of (GObj ms) = JObj (map (\<lambda>(k, v). (bytes_of k, json_of v)) ms)"

fun utf8_val :: "gval \<Rightarrow> bool" where
  "utf8_val (GStr s) = valid_utf8 (bytes_of s)"
| "utf8_val (GSlice vs) = list_all utf8_val vs"
| "utf8_val (GObj ms) = list_all (\<lambda>(k, v). valid_utf8 (bytes_of k) \<and> utf8_val v) ms"
| "utf8_val _ = True"

lemma skip_ws_newline [simp]: "skip_ws (newline d @ s) = skip_ws s"
proof -
  have "skip_ws (replicate n 32 @ s) = skip_ws s" for n
    by (induction n) (simp_all add: is_ws_def)
  then show ?thesis by (simp add: newline_def is_ws_def)
qed

lemma p_skip_ws:
  "skip_ws s = skip_ws t \<Longrightarrow> p_val n s = p_val n t"
  "skip_ws s = skip_ws t \<Longrightarrow> p_members n s = p_members n t"
  by (cases n; simp add: p_val.simps(2) p_members.simps(2))+

lemma p_elems_skip_ws: "skip_ws s = skip_ws t \<Longrightarrow> p_elems n s = p_elems n t"
  by (cases n) (simp_all add: p_elems.simps(2) p_skip_ws(1) [of s t])

lemma p_newline [simp]:
  "p_val n (newline d @ s) = p_val n s" "p_val n (32 # s) = p_val n s" "p_members n (newline d @ s) = p_members n s"
  "p_elems n (newline d @ s) = p_elems n s"
  by (rule p_skip_ws p_elems_skip_ws, simp add: is_ws_def)+

lemma newline_head: "\<exists>r. newline d @ s = 10 # r"
  by (simp add: newline_def)

lemma num_end_simps [simp]: "num_end 44" "num_end 10" "num_end 93" "num_end 125"
  by (simp_all add: num_end_def is_digit_def)

lemma p_val_literals:
  "p_val (Suc n) (bytes_of ''null'' @ s) = Some (JNull, s)"
  "p_val (Suc n) (bytes_of ''true'' @ s) = Some (JBool True, s)"
  "p_val (Suc n) (bytes_of ''false'' @ s) = Some (JBool False, s)"
  by (simp_all add: p_val.simps(2) bytes_of_def byte_of_def is_ws_def)

text \<open>The first byte of a value is no white space and closes nothing.\<close>

lemma ind_val_head: "\<exists>b bs. ind_val d v = b # bs \<and> \<not> is_ws b \<and> b \<noteq> 93 \<and> b \<noteq> 125"
proof (cases v)
  case (GInt i)
  obtain b bs where b: "bytes_of (show_int i) = b # bs" "b = 45 \<or> is_digit b" by (rule show_int_head)
  from b(2) have "\<not> is_ws b \<and> b \<noteq> 93 \<and> b \<noteq> 125" by (auto simp: is_ws_def is_digit_def)
  with GInt b(1) show ?thesis by simp
qed (auto simp: bytes_of_def byte_of_def is_ws_def quoted_def)

lemma p_elems_more:
  "p_val n (v @ 44 # r) = Some (j, 44 # r) \<Longrightarrow>
   p_elems (Suc n) (v @ 44 # r) = map_option (map_prod (\<lambda>vs. j # vs) id) (p_elems n r)"
  by (simp add: p_elems.simps(2))

lemma p_elems_end:
  "p_val n (v @ newline e @ 93 # r) = Some (j, newline e @ 93 # r) \<Longrightarrow> p_elems (Suc n) (v @ newline e @ 93 # r) = Some ([j], r)"
  by (simp add: p_elems.simps(2))

lemma p_members_more_ind:
  "valid_utf8 k \<Longrightarrow> p_val n (v @ 44 # r) = Some (j, 44 # r) \<Longrightarrow>
   p_members (Suc n) (quoted (enc_str k) @ 58 # 32 # v @ 44 # r) = map_option (map_prod (\<lambda>ms. (k, j) # ms) id) (p_members n r)"
  by (simp add: p_members.simps(2) quoted_def enc_str_lex unquote_enc_str)

lemma p_members_end_ind:
  "valid_utf8 k \<Longrightarrow> p_val n (v @ newline e @ 125 # r) = Some (j, newline e @ 125 # r) \<Longrightarrow>
   p_members (Suc n) (quoted (enc_str k) @ 58 # 32 # v @ newline e @ 125 # r) = Some ([(k, j)], r)"
  by (simp add: p_members.simps(2) quoted_def enc_str_lex unquote_enc_str)

lemma ind_elems_head:
  assumes "vs \<noteq> []"
  obtains b bs where "ind_elems d vs = b # bs" and "\<not> is_ws b" and "b \<noteq> 93"
proof (cases vs)
  case (Cons v vs')
  obtain b bs where "ind_val d v = b # bs" "\<not> is_ws b" "b \<noteq> 93" using ind_val_head by blast
  with that Cons show ?thesis by simp
qed (use assms in simp)

lemma p_ind:
  shows "utf8_val v \<Longrightarrow> num_end c \<Longrightarrow> 2 * length (ind_val d v @ c # r) < n \<Longrightarrow>
      p_val n (ind_val d v @ c # r) = Some (json_of v, c # r)"
    and "list_all utf8_val vs \<Longrightarrow> vs \<noteq> [] \<Longrightarrow> 2 * length (ind_elems d vs @ newline e @ 93 # r) + 1 < n \<Longrightarrow>
      p_elems n (ind_elems d vs @ newline e @ 93 # r) = Some (map json_of vs, r)"
    and "list_all (\<lambda>(k, v). valid_utf8 (bytes_of k) \<and> utf8_val v) ms \<Longrightarrow> ms \<noteq> [] \<Longrightarrow>
      2 * length (ind_members d ms @ newline e @ 125 # r) + 1 < n \<Longrightarrow>
      p_members n (ind_members d ms @ newline e @ 125 # r) = Some (map (\<lambda>(k, v). (bytes_of k, json_of v)) ms, r)"
proof (induction d v and d vs and d ms arbitrary: c r n and e r n and e r n rule: ind_val_ind_elems_ind_members.induct)
  case (1 d)
  then obtain m where "n = Suc m" by (cases n) auto
  then show ?case by (simp add: p_val_literals del: bytes_of_append)
next
  case (2 d b)
  then obtain m where "n = Suc m" by (cases n) auto
  then show ?case by (simp add: p_val_literals)
next
  case (3 d i)
  then obtain m where "n = Suc m" by (cases n) auto
  with 3 show ?case by (simp add: p_val_int)
next
  case (4 d s)
  then obtain m where "n = Suc m" by (cases n) auto
  with 4 show ?case by (simp add: p_val_enc_str)
next
  case (5 d vs)
  then obtain m where n: "n = Suc m" by (cases n) auto
  show ?case
  proof (cases "vs = []")
    case False
    obtain b bs where b: "ind_elems (Suc d) vs = b # bs" "\<not> is_ws b" "b \<noteq> 93" using ind_elems_head [OF False] .
    have "p_elems m (ind_elems (Suc d) vs @ newline d @ 93 # c # r) = Some (map json_of vs, c # r)"
      using 5 False n by (intro 5(1)) (auto simp: newline_def)
    then have "p_elems m (newline (Suc d) @ ind_elems (Suc d) vs @ newline d @ 93 # c # r) = Some (map json_of vs, c # r)" by simp
    with False b show ?thesis by (simp add: n p_val.simps(2) del: p_newline)
  qed (simp add: n p_val.simps(2))
next
  case (6 d ms)
  then obtain m where n: "n = Suc m" by (cases n) auto
  show ?case
  proof (cases "ms = []")
    case False
    then obtain bs where b: "ind_members (Suc d) ms = 34 # bs" by (cases ms) (auto simp: quoted_def)
    have "p_members m (ind_members (Suc d) ms @ newline d @ 125 # c # r) = Some (map (\<lambda>(k, v). (bytes_of k, json_of v)) ms, c # r)"
      using 6 False n by (intro 6(1)) (auto simp: newline_def)
    then have "p_members m (newline (Suc d) @ ind_members (Suc d) ms @ newline d @ 125 # c # r)
        = Some (map (\<lambda>(k, v). (bytes_of k, json_of v)) ms, c # r)" by simp
    with False b show ?thesis by (simp add: n p_val.simps(2) del: p_newline)
  qed (simp add: n p_val.simps(2))
next
  case (8 d v vs)
  then obtain m where n: "n = Suc m" by (cases n) auto
  show ?case
  proof (cases "vs = []")
    case True
    obtain s where s: "newline e @ 93 # r = 10 # s" using newline_head by blast
    have "p_val m (ind_val d v @ newline e @ 93 # r) = Some (json_of v, newline e @ 93 # r)"
      unfolding s using 8 True n s by (intro 8(1)) auto
    with True show ?thesis by (simp add: n p_elems_end)
  next
    case False
    let ?s = "newline d @ ind_elems d vs @ newline e @ 93 # r"
    have "p_val m (ind_val d v @ 44 # ?s) = Some (json_of v, 44 # ?s)"
      using 8 False n by (intro 8(1)) auto
    moreover have "p_elems m (ind_elems d vs @ newline e @ 93 # r) = Some (map json_of vs, r)"
      using 8 False n by (intro 8(2)) auto
    ultimately show ?thesis using False p_elems_more [of m "ind_val d v" ?s] by (simp add: n)
  qed
next
  case (10 d k v ms)
  then obtain m where n: "n = Suc m" by (cases n) auto
  show ?case
  proof (cases "ms = []")
    case True
    obtain s where s: "newline e @ 125 # r = 10 # s" using newline_head by blast
    have "p_val m (ind_val d v @ newline e @ 125 # r) = Some (json_of v, newline e @ 125 # r)"
      unfolding s using 10 True n s by (intro 10(1)) auto
    with True 10 show ?thesis by (simp add: n p_members_end_ind)
  next
    case False
    let ?s = "newline d @ ind_members d ms @ newline e @ 125 # r"
    have "p_val m (ind_val d v @ 44 # ?s) = Some (json_of v, 44 # ?s)"
      using 10 False n by (intro 10(1)) auto
    moreover have "p_members m (ind_members d ms @ newline e @ 125 # r) = Some (map (\<lambda>(k, v). (bytes_of k, json_of v)) ms, r)"
      using 10 False n by (intro 10(2)) auto
    ultimately show ?thesis using False 10 p_members_more_ind [of "bytes_of k" m "ind_val d v" ?s] by (simp add: n)
  qed
qed simp_all

lemma parse_MarshalIndent:
  assumes "utf8_val (GObj ms)"
  shows "parse_json (MarshalIndent (GObj ms)) = Some (json_of (GObj ms))"
proof (cases "ms = []")
  case False
  let ?t = "ind_members 1 ms @ newline 0 @ [125]" and ?s = "MarshalIndent (GObj ms)"
  have s: "?s = 123 # newline 1 @ ?t" using False by (simp add: MarshalIndent_def)
  obtain bs where b: "ind_members 1 ms = 34 # bs" using False by (cases ms) (auto simp: quoted_def)
  have "p_members (2 * length ?s) ?t = Some (map (\<lambda>(k, v). (bytes_of k, json_of v)) ms, [])"
    using p_ind(3) [of ms 1 0 "[]" "2 * length ?s"] assms False by (simp add: s)
  then have "p_members (2 * length ?s) (newline 1 @ ?t) = Some (map (\<lambda>(k, v). (bytes_of k, json_of v)) ms, [])" by simp
  then have "p_val (Suc (2 * length ?s)) ?s = Some (json_of (GObj ms), [])"
    using b by (simp add: s p_val.simps(2) del: p_newline)
  then show ?thesis by (simp add: parse_json_def)
next
  case True
  have "parse_json [123, 125] = Some (JObj [])" by code_simp
  with True show ?thesis by (simp add: MarshalIndent_def)
qed

text \<open>A member of an object is found in the text under its name.\<close>

definition jfield :: "json \<Rightarrow> string \<Rightarrow> json option" where
  "jfield j k = (case j of JObj ms \<Rightarrow> map_of ms (bytes_of k) | _ \<Rightarrow> None)"

lemma jfield_json_of: "jfield (json_of v) k = map_option json_of (gfield v k)"
proof (cases v)
  case (GObj ms)
  have "map_of (map (\<lambda>(k, v). (bytes_of k, json_of v)) ms) (bytes_of k) = map_option json_of (map_of ms k)"
    by (induction ms) auto
  with GObj show ?thesis by (simp add: jfield_def)
qed (simp_all add: jfield_def)

lemma gfield_GMap: "distinct (map fst ms) \<Longrightarrow> gfield (GMap ms) k = map_of ms k"
proof -
  assume d: "distinct (map fst ms)"
  then have "distinct (map fst (sort_key fst ms))"
    by (metis distinct_map distinct_sort inj_on_def set_sort)
  then show ?thesis
    using d by (simp add: GMap_def) (metis map_of_eqI map_of_eq_Some_iff set_sort not_None_eq option.exhaust)
qed

end
