(* ===== verification/Service.thy ===== *)
theory Service
  imports Conn_Cache Gossip Go_Json_Indent
begin

text \<open>
  The RPC handlers \<open>Add\<close>, \<open>Get\<close> and \<open>Stat\<close> of \<open>service/service.go\<close> and the forwarding of requests to the
  leader. The key-value interface \<open>KV\<close> is a record of operations on a server state; the engine
  provides it. A remote call, the state and dialling of connections and \<open>strcase.ToCamel\<close> belong to
  libraries: they are arguments.
\<close>

subsection \<open>Messages\<close>

record AddRequest =
  areq_Key :: string
  areq_Val :: string

record AddResponse =
  aresp_CommitIndex :: u64

record GetRequest =
  greq_Key :: string
  greq_Linearizable :: bool

record GetResponse =
  gresp_ReadAtIndex :: u64
  gresp_Value :: string

record StatResponse =
  sresp_Stats :: string

subsection \<open>Contexts and the key-value interface\<close>

text \<open>A context is its deadline, if it has one, in nanoseconds.\<close>

record Ctx =
  ctx_deadline :: "int option"

record ('k, 'stats) KV =
  kv_Apply :: "Ctx \<Rightarrow> string \<Rightarrow> string \<Rightarrow> 'k \<Rightarrow> u64 result \<times> 'k"
  kv_Query :: "Ctx \<Rightarrow> bytes \<Rightarrow> bool \<Rightarrow> 'k \<Rightarrow> (u64 \<times> bytes) result \<times> 'k"
  kv_Stats :: "'k \<Rightarrow> 'stats result \<times> 'k"
  kv_GetLeader :: "'k \<Rightarrow> bool \<times> string \<times> go_err option"

subsection \<open>Forwarding\<close>

datatype pb_type = AddRequestT | AddResponseT | GetRequestT | GetResponseT | StatRequestT | StatResponseT
  | WatchRequestT | WatchResponseT

text \<open>The methods of the service \<open>Example\<close> with their output types, from \<open>proto/service.proto\<close>.\<close>

definition pb_methods :: "(string \<times> pb_type) list" where
  "pb_methods = [(''Add'', AddResponseT), (''Get'', GetResponseT), (''Stat'', StatResponseT), (''Watch'', WatchResponseT)]"

definition protoTypes :: "pb_type list" where
  "protoTypes = [AddRequestT, AddResponseT, GetRequestT, GetResponseT, WatchRequestT, WatchResponseT]"

definition messageFromDescriptor :: "pb_type \<Rightarrow> pb_type result" where
  "messageFromDescriptor d =
     (case List.find (\<lambda>m. m = d) protoTypes of
        Some m \<Rightarrow> Inr m
      | None \<Rightarrow> Inl (Panic ''unknown type; please add it to protoTypes''))"

record rpc_env =
  re_toCamel :: "string \<Rightarrow> string"
  re_state :: "nat \<Rightarrow> conn_state"
  re_state' :: "nat \<Rightarrow> conn_state"
  re_dial :: "string \<Rightarrow> go_err option"

definition find_method :: "(string \<Rightarrow> string) \<Rightarrow> string \<Rightarrow> (string \<times> pb_type) option" where
  "find_method toCamel meth =
     (case List.find (\<lambda>m. fst m = meth) pb_methods of
        Some m \<Rightarrow> Some m
      | None \<Rightarrow> List.find (\<lambda>m. fst m = toCamel meth) pb_methods)"

text \<open>The result is (forwarded, response, error) and the connections.\<close>

definition forwardRequestToLeader ::
  "('k, 'stats) KV \<Rightarrow> AddressResolver \<Rightarrow> rpc_env \<Rightarrow> (nat \<Rightarrow> string \<Rightarrow> 'req \<Rightarrow> 'resp result) \<Rightarrow> string \<Rightarrow> 'req \<Rightarrow> 'k \<Rightarrow> conns
   \<Rightarrow> (bool \<times> 'resp option \<times> go_err option) \<times> conns" where
  "forwardRequestToLeader K res E invoke meth req k cc =
     (case find_method (re_toCamel E) meth of
        None \<Rightarrow> ((False, None, Some (Errorf ''unknown command %q'' [AStr meth])), cc)
      | Some (name, output) \<Rightarrow>
          (case kv_GetLeader K k of (isLeader, leader, rpcErr) \<Rightarrow>
             if isLeader then ((False, None, None), cc)
             else case rpcErr of
               Some e \<Rightarrow> ((False, None, Some e), cc)
             | None \<Rightarrow>
                 (case GetGRPCAddr res leader of
                    None \<Rightarrow> ((False, None, Some (Errorf ''unknown leader gRPC address for raft addr %s'' [AStr leader])), cc)
                  | Some grpcAddr \<Rightarrow>
                      (case getOrCreateConn (re_state E) (re_state' E) (re_dial E) grpcAddr cc of
                         (Inl e, cc1) \<Rightarrow> ((False, None, Some e), cc1)
                       | (Inr conn, cc1) \<Rightarrow>
                           (case messageFromDescriptor output of
                              Inl e \<Rightarrow> ((False, None, Some e), cc1)
                            | Inr _ \<Rightarrow>
                                (case invoke conn (''/Example/'' @ name) req of
                                   Inl e \<Rightarrow> ((False, None, Some e), cc1)
                                 | Inr resp \<Rightarrow> ((True, Some resp, None), cc1)))))))"

subsection \<open>Handlers\<close>

definition Add ::
  "('k, 'stats) KV \<Rightarrow> AddressResolver \<Rightarrow> rpc_env \<Rightarrow> (nat \<Rightarrow> string \<Rightarrow> AddRequest \<Rightarrow> AddResponse result) \<Rightarrow> Ctx \<Rightarrow> AddRequest
   \<Rightarrow> 'k \<Rightarrow> conns \<Rightarrow> AddResponse result \<times> 'k \<times> conns" where
  "Add K res E invoke ctx req k cc =
     (case forwardRequestToLeader K res E invoke ''Add'' req k cc of
        ((done, resp, Some e), cc1) \<Rightarrow> (Inl e, k, cc1)
      | ((done, resp, None), cc1) \<Rightarrow>
          if done then (Inr (the resp), k, cc1)
          else case kv_Apply K ctx (areq_Key req) (areq_Val req) k of
                 (Inl e, k1) \<Rightarrow> (Inl e, k1, cc1)
               | (Inr index, k1) \<Rightarrow> (Inr \<lparr>aresp_CommitIndex = index\<rparr>, k1, cc1))"

definition get_local ::
  "('k, 'stats) KV \<Rightarrow> Ctx \<Rightarrow> GetRequest \<Rightarrow> 'k \<Rightarrow> conns \<Rightarrow> GetResponse result \<times> 'k \<times> conns" where
  "get_local K ctx req k cc =
     (case kv_Query K ctx (bytes_of (greq_Key req)) (greq_Linearizable req) k of
        (Inl e, k1) \<Rightarrow> (Inl e, k1, cc)
      | (Inr (index, val), k1) \<Rightarrow> (Inr \<lparr>gresp_ReadAtIndex = index, gresp_Value = string_of val\<rparr>, k1, cc))"

definition Get ::
  "('k, 'stats) KV \<Rightarrow> AddressResolver \<Rightarrow> rpc_env \<Rightarrow> (nat \<Rightarrow> string \<Rightarrow> GetRequest \<Rightarrow> GetResponse result) \<Rightarrow> Ctx \<Rightarrow> GetRequest
   \<Rightarrow> 'k \<Rightarrow> conns \<Rightarrow> GetResponse result \<times> 'k \<times> conns" where
  "Get K res E invoke ctx req k cc =
     (if greq_Linearizable req then
        (case forwardRequestToLeader K res E invoke ''Get'' req k cc of
           ((done, resp, err), cc1) \<Rightarrow>
             if done then (case err of Some e \<Rightarrow> (Inl e, k, cc1) | None \<Rightarrow> (Inr (the resp), k, cc1))
             else get_local K ctx req k cc1)
      else get_local K ctx req k cc)"

definition Stat :: "('k, gval) KV \<Rightarrow> 'k \<Rightarrow> StatResponse result \<times> 'k" where
  "Stat K k =
     (case kv_Stats K k of
        (Inl e, k1) \<Rightarrow> (Inl e, k1)
      | (Inr stats, k1) \<Rightarrow> (Inr \<lparr>sresp_Stats = string_of (MarshalIndent stats)\<rparr>, k1))"

definition NewGrpcService :: "(string \<times> string) list \<Rightarrow> AddressResolver" where
  "NewGrpcService staticLookup = StaticR (NewStaticResolver staticLookup)"

subsection \<open>What forwarding does\<close>

lemma find_Add [simp]: "find_method f ''Add'' = Some (''Add'', AddResponseT)"
  and find_Get [simp]: "find_method f ''Get'' = Some (''Get'', GetResponseT)"
  by (simp_all add: find_method_def pb_methods_def)

lemma output_known [simp]:
  "messageFromDescriptor AddResponseT = Inr AddResponseT" "messageFromDescriptor GetResponseT = Inr GetResponseT"
  by (simp_all add: messageFromDescriptor_def protoTypes_def)

lemma forward_leader:
  assumes "find_method (re_toCamel E) meth = Some m" and "fst (kv_GetLeader K k)"
  shows "forwardRequestToLeader K res E invoke meth req k cc = ((False, None, None), cc)"
  using assms by (auto simp: forwardRequestToLeader_def split: prod.splits)

lemma forward_done:
  assumes "forwardRequestToLeader K res E invoke meth req k cc = ((True, resp, err), cc')"
  shows "err = None \<and> \<not> fst (kv_GetLeader K k) \<and> snd (snd (kv_GetLeader K k)) = None \<and>
    (\<exists>a c name r. GetGRPCAddr res (fst (snd (kv_GetLeader K k))) = Some a \<and>
      getOrCreateConn (re_state E) (re_state' E) (re_dial E) a cc = (Inr c, cc') \<and>
      invoke c (''/Example/'' @ name) req = Inr r \<and> resp = Some r)"
  using assms
  by (auto simp: forwardRequestToLeader_def split: option.splits prod.splits if_splits sum.splits)

lemma forward_error_not_done:
  "forwardRequestToLeader K res E invoke meth req k cc = ((done, resp, Some e), cc') \<Longrightarrow> \<not> done"
  by (auto simp: forwardRequestToLeader_def split: option.splits prod.splits if_splits sum.splits)

lemma forward_follower:
  assumes "\<not> fst (kv_GetLeader K k)"
    and "forwardRequestToLeader K res E invoke meth req k cc = ((done, resp, err), cc')"
  shows "done \<and> err = None \<and> resp \<noteq> None \<or> \<not> done \<and> err \<noteq> None"
  using assms by (auto simp: forwardRequestToLeader_def split: option.splits prod.splits if_splits sum.splits)

subsection \<open>What a server promises the handlers\<close>

text \<open>
  The handlers rely on two things of the key-value server: it says that it is the leader only if it is,
  and a consistent query on a server that is not the leader fails.
\<close>

locale kv_server =
  fixes K :: "('k, 'stats) KV" and leads :: "'k \<Rightarrow> bool"
  assumes leader_leads: "fst (kv_GetLeader K k) = leads k"
    and query_refused: "\<not> leads k \<Longrightarrow> \<exists>e k'. kv_Query K ctx key True k = (Inl e, k')"
begin

lemma linearizable_get:
  assumes "Get K res E invoke ctx req k cc = (Inr resp, k', cc')" and "greq_Linearizable req" and follower: "\<not> leads k"
  shows "k' = k \<and> (\<exists>c. invoke c ''/Example/Get'' req = Inr resp)"
proof -
  obtain fwd r err cc1 where f: "forwardRequestToLeader K res E invoke ''Get'' req k cc = ((fwd, r, err), cc1)"
    by (metis surj_pair)
  show ?thesis
  proof (cases fwd)
    case True
    with f assms show ?thesis
      by (auto simp: Get_def forwardRequestToLeader_def split: option.splits prod.splits if_splits sum.splits)
  next
    case False
    with f assms have "get_local K ctx req k cc1 = (Inr resp, k', cc')" by (simp add: Get_def)
    moreover obtain e k1 where "kv_Query K ctx (bytes_of (greq_Key req)) True k = (Inl e, k1)"
      using query_refused [OF follower] by blast
    ultimately show ?thesis using assms(2) by (simp add: get_local_def)
  qed
qed

end

end
