(* ===== verification/Engine_Kv.thy ===== *)
theory Engine_Kv
  imports Fsm_Replica Service
begin

text \<open>
  The key-value server of the engine, \<open>engine/kv.go\<close> and \<open>engine/linearizable.go\<close>. The raft library is a
  record of operations on its own state; \<open>rf_Apply\<close> also runs the state machine, since the library calls
  it. Clock readings are arguments, in nanoseconds.
\<close>

subsection \<open>The server and the library it uses\<close>

record raft_server =
  srv_ID :: string
  srv_Address :: string
  srv_Voter :: bool

record ('r, 'db) raft_ops =
  rf_leader :: "'r \<Rightarrow> bool"
  rf_LeaderWithID :: "'r \<Rightarrow> string \<times> string"
  rf_AppliedIndex :: "'r \<Rightarrow> u64"
  rf_VerifyLeader :: "'r \<Rightarrow> go_err option \<times> 'r"
  rf_Apply :: "bytes \<Rightarrow> int \<Rightarrow> 'r \<times> StateMachine \<times> 'db world \<Rightarrow> (u64 \<times> CommandResponse) result \<times> 'r \<times> StateMachine \<times> 'db world"
  rf_GetConfiguration :: "'r \<Rightarrow> raft_server list result"

record ('r, 'db) raftServer =
  nd_raftId :: string
  nd_raftAddr :: string
  nd_raftDir :: string
  nd_dbAppliedIndex :: u64
  nd_store :: StateMachine
  nd_raft :: 'r
  nd_ready :: u32
  nd_world :: "'db world"

record Server =
  sv_ID :: string
  sv_Addr :: string
  sv_Suffrage :: string

definition second :: int where "second = 1000000000"

definition rpcHoldTimeout :: int where "rpcHoldTimeout = 5 * second"
definition raftApplyTimeout :: int where "raftApplyTimeout = 3 * second"
definition jitterFraction :: int where "jitterFraction = 16"

subsection \<open>Timeouts\<close>

text \<open>\<open>time.Until\<close> saturates; a context without a deadline has the zero time, long past.\<close>

definition time_Until :: "int \<Rightarrow> int option \<Rightarrow> int" where
  "time_Until now deadline =
     (case deadline of
        None \<Rightarrow> - (2 ^ 63)
      | Some d \<Rightarrow> max (- (2 ^ 63)) (min (2 ^ 63 - 1) (d - now)))"

definition ctxTimeout :: "int \<Rightarrow> Ctx \<Rightarrow> int" where
  "ctxTimeout now ctx = (let timeout = time_Until now (ctx_deadline ctx) in if timeout \<le> 0 then 0 else timeout)"

definition apply_timeout :: "int \<Rightarrow> Ctx \<Rightarrow> int" where
  "apply_timeout now ctx =
     (let timeout = ctxTimeout now ctx in if timeout \<le> raftApplyTimeout then raftApplyTimeout else timeout)"

subsection \<open>Writes\<close>

definition raft_Apply ::
  "('r, 'db) raft_ops \<Rightarrow> int \<Rightarrow> Ctx \<Rightarrow> string \<Rightarrow> string \<Rightarrow> ('r, 'db) raftServer \<Rightarrow> u64 result \<times> ('r, 'db) raftServer" where
  "raft_Apply R now ctx key val s =
     (case rf_Apply R (insert_command key val) (apply_timeout now ctx) (nd_raft s, nd_store s, nd_world s) of
        (Inl e, r, m, w) \<Rightarrow>
          (Inl (Errorf ''Apply %s: %s'' [AStr (nd_raftAddr s), AErr e]), s\<lparr>nd_raft := r, nd_store := m, nd_world := w\<rparr>)
      | (Inr (index, res), r, m, w) \<Rightarrow>
          (let s1 = s\<lparr>nd_raft := r, nd_store := m, nd_world := w, nd_dbAppliedIndex := index\<rparr>
           in case resp_Error res of
                Some e \<Rightarrow> (Inl e, s1)
              | None \<Rightarrow> (Inr index, s1)))"

subsection \<open>Consistent reads\<close>

text \<open>
  The polls of \<open>consistentReadWithContext\<close>: what happens before the deadline, in order. The context has
  a deadline, so the end of the list is \<open>ctx.Done\<close>.
\<close>

datatype cr_event = CrTick bool | CrShutdown

fun cr_poll :: "cr_event list \<Rightarrow> go_err option" where
  "cr_poll [] = Some ErrNotReadyForConsistentReads"
| "cr_poll (CrTick isReady # evs) = (if isReady then None else cr_poll evs)"
| "cr_poll (CrShutdown # evs) = Some (ErrNew ''shutdown waiting for leader'')"

definition isReadyForConsistentReads :: "('r, 'db) raftServer \<Rightarrow> bool" where
  "isReadyForConsistentReads s = (nd_ready s = 1)"

definition consistentReadWithContext ::
  "('r, 'db) raft_ops \<Rightarrow> int \<Rightarrow> cr_event list \<Rightarrow> ('r, 'db) raftServer \<Rightarrow> go_err option \<times> ('r, 'db) raftServer" where
  "consistentReadWithContext R pollFor evs s =
     (case rf_VerifyLeader R (nd_raft s) of
        (Some e, r) \<Rightarrow> (Some e, s\<lparr>nd_raft := r\<rparr>)
      | (None, r) \<Rightarrow>
          (let s1 = s\<lparr>nd_raft := r\<rparr>
           in if isReadyForConsistentReads s1 then (None, s1)
              else if pollFor div jitterFraction \<le> 0 then (Some ErrNotReadyForConsistentReads, s1)
              else (cr_poll evs, s1)))"

text \<open>\<open>elapsed\<close> is the time the verification took.\<close>

definition ConsistentRead ::
  "('r, 'db) raft_ops \<Rightarrow> int \<Rightarrow> cr_event list \<Rightarrow> ('r, 'db) raftServer \<Rightarrow> go_err option \<times> ('r, 'db) raftServer" where
  "ConsistentRead R elapsed evs s = consistentReadWithContext R (rpcHoldTimeout - elapsed) evs s"

definition local_read ::
  "('r, 'db) raft_ops \<Rightarrow> ('db, 'b) pebble \<Rightarrow> bytes \<Rightarrow> ('r, 'db) raftServer \<Rightarrow> (u64 \<times> bytes) result" where
  "local_read R P key s =
     (let res = ReadLocal P (nd_store s) key (nd_world s)
      in case resp_Error res of
           Some e \<Rightarrow> Inl e
         | None \<Rightarrow> Inr (rf_AppliedIndex R (nd_raft s), resp_Val res))"

definition raft_Query ::
  "('r, 'db) raft_ops \<Rightarrow> ('db, 'b) pebble \<Rightarrow> int \<Rightarrow> cr_event list \<Rightarrow> Ctx \<Rightarrow> bytes \<Rightarrow> bool \<Rightarrow> ('r, 'db) raftServer
   \<Rightarrow> (u64 \<times> bytes) result \<times> ('r, 'db) raftServer" where
  "raft_Query R P elapsed evs ctx key consistent s =
     (if \<not> consistent then (local_read R P key s, s)
      else case ConsistentRead R elapsed evs s of
             (Some e, s1) \<Rightarrow> (Inl (Errorf ''ConsistentRead %s: %s'' [AStr (nd_raftAddr s), AErr e]), s1)
           | (None, s1) \<Rightarrow> (local_read R P key s1, s1))"

subsection \<open>Leader and members\<close>

definition IsLeader :: "('r, 'db) raft_ops \<Rightarrow> ('r, 'db) raftServer \<Rightarrow> bool" where
  "IsLeader R s = rf_leader R (nd_raft s)"

definition GetLeader :: "('r, 'db) raft_ops \<Rightarrow> ('r, 'db) raftServer \<Rightarrow> bool \<times> string \<times> go_err option" where
  "GetLeader R s =
     (if IsLeader R s then (True, [], None)
      else (let leader = fst (rf_LeaderWithID R (nd_raft s))
            in if leader = [] then (False, [], Some ErrNoLeader) else (False, leader, None)))"

definition Nodes :: "('r, 'db) raft_ops \<Rightarrow> ('r, 'db) raftServer \<Rightarrow> Server list result" where
  "Nodes R s =
     (case rf_GetConfiguration R (nd_raft s) of
        Inl e \<Rightarrow> Inl e
      | Inr rs \<Rightarrow>
          Inr (sort_key sv_ID (map (\<lambda>x. \<lparr>sv_ID = srv_ID x, sv_Addr = srv_Address x,
                 sv_Suffrage = (if srv_Voter x then ''Voter'' else ''Nonvoter'')\<rparr>) rs)))"

definition IsVoter :: "('r, 'db) raft_ops \<Rightarrow> ('r, 'db) raftServer \<Rightarrow> bool result" where
  "IsVoter R s =
     (case rf_GetConfiguration R (nd_raft s) of
        Inl e \<Rightarrow> Inl e
      | Inr rs \<Rightarrow>
          (case List.find (\<lambda>srv. srv_ID srv = nd_raftId s) rs of
             Some srv \<Rightarrow> Inr (srv_Voter srv)
           | None \<Rightarrow> Inr False))"

subsection \<open>The interface the handlers use\<close>

definition raft_kv ::
  "('r, 'db) raft_ops \<Rightarrow> ('db, 'b) pebble \<Rightarrow> int \<Rightarrow> int \<Rightarrow> cr_event list \<Rightarrow> (('r, 'db) raftServer \<Rightarrow> 'stats result \<times> ('r, 'db) raftServer)
   \<Rightarrow> (('r, 'db) raftServer, 'stats) KV" where
  "raft_kv R P now elapsed evs stats =
     \<lparr>kv_Apply = raft_Apply R now, kv_Query = raft_Query R P elapsed evs, kv_Stats = stats,
      kv_GetLeader = GetLeader R\<rparr>"

text \<open>
  What the engine relies on of the raft library: leadership is verified only on the leader, and a
  command whose future succeeds was applied to the state machine as the last of some entries, with the
  response of the state machine. The state after the call is the one in which the command is the last that was
  applied: entries that the library applies before the caller goes on are not part of the call.
\<close>

locale raft_lib = pebble_live P view pend
  for P :: "('db, 'b) pebble" and view pend +
  fixes R :: "('r, 'db) raft_ops"
  assumes verify_leader: "\<not> rf_leader R r \<Longrightarrow> fst (rf_VerifyLeader R r) \<noteq> None"
    and apply_runs: "rf_Apply R data t (r, m, w) = (Inr (i, resp), r', m', w') \<Longrightarrow>
      \<exists>ls resps. apply_log P (ls @ [\<lparr>log_Index = i, log_Data = data\<rparr>]) m w = (resps @ [resp], m', w')"
begin

lemma query_refused:
  "\<not> rf_leader R (nd_raft s) \<Longrightarrow> \<exists>e s'. raft_Query R P elapsed evs ctx key True s = (Inl e, s')"
  using verify_leader [of "nd_raft s"]
  by (auto simp: raft_Query_def ConsistentRead_def consistentReadWithContext_def split: prod.splits option.splits)

lemma spec_log_last:
  assumes "spec_log (ds @ [insert_command key val]) m = (resps, m')"
  shows "m' (bytes_of key) = Some (bytes_of val)"
  using assms by (auto simp: spec_log_append spec_apply_insert_command split: prod.splits)

lemma apply_writes:
  assumes run: "raft_Apply R now ctx key val s = (Inr i, s')"
    and inv: "machine_inv (nd_store s) (nd_world s)" and op: "sm_open (nd_store s)"
  shows "machine_inv (nd_store s') (nd_world s') \<and> sm_open (nd_store s') \<and> nd_dbAppliedIndex s' = i \<and>
    sm_kv view (nd_store s') (nd_world s') (bytes_of key) = Some (bytes_of val)"
proof -
  obtain res r m w where r: "rf_Apply R (insert_command key val) (apply_timeout now ctx) (nd_raft s, nd_store s, nd_world s)
      = (Inr (i, res), r, m, w)" and s': "s' = s\<lparr>nd_raft := r, nd_store := m, nd_world := w, nd_dbAppliedIndex := i\<rparr>"
    using run by (auto simp: raft_Apply_def Let_def split: prod.splits sum.splits option.splits)
  obtain ls resps where l: "apply_log P (ls @ [\<lparr>log_Index = i, log_Data = insert_command key val\<rparr>]) (nd_store s) (nd_world s)
      = (resps @ [res], m, w)"
    using apply_runs [OF r] by blast
  note ref = apply_log_refines [OF inv op l]
  have "machine_inv m w" "sm_open m" using ref by blast+
  moreover have "sm_kv view m w (bytes_of key) = Some (bytes_of val)"
    using ref spec_log_last [of "map log_Data ls" key val] by auto
  ultimately show ?thesis by (simp add: s')
qed

lemma local_read_live:
  assumes "machine_inv (nd_store s) (nd_world s)" and "sm_open (nd_store s)"
  shows "local_read R P key s = Inr (rf_AppliedIndex R (nd_raft s),
    (case sm_kv view (nd_store s) (nd_world s) key of Some v \<Rightarrow> v | None \<Rightarrow> []))"
proof -
  have "store_ok (sm_store (nd_store s)) (nd_world s)" using assms(1) store_inv_ok by (auto simp: machine_inv_def)
  then show ?thesis using assms(2) by (simp add: local_read_def ReadLocal_def store_query_live)
qed

end

sublocale raft_lib \<subseteq> kv: kv_server "raft_kv R P now elapsed evs stats" "\<lambda>s. rf_leader R (nd_raft s)"
  for now elapsed evs stats
  by unfold_locales (auto simp: raft_kv_def GetLeader_def IsLeader_def Let_def query_refused)

context raft_lib
begin

lemma follower_get:
  assumes "Get (raft_kv R P now elapsed evs stats) res E invoke ctx req s cc = (Inr resp, s', cc')"
    and "greq_Linearizable req" and "\<not> rf_leader R (nd_raft s)"
  shows "s' = s \<and> (\<exists>c. invoke c ''/Example/Get'' req = Inr resp)"
  by (rule kv.linearizable_get [OF assms])

end

subsection \<open>A library that satisfies the contract\<close>

text \<open>A cluster of one node: the leader applies a command at once, any other node refuses it.\<close>

record ref_raft_state =
  rr_leader :: bool
  rr_index :: u64
  rr_known :: string
  rr_servers :: "raft_server list"

definition ref_raft :: "(ref_raft_state, ref_db) raft_ops" where
  "ref_raft =
     \<lparr>rf_leader = rr_leader, rf_LeaderWithID = (\<lambda>r. (rr_known r, [])), rf_AppliedIndex = rr_index,
      rf_VerifyLeader = (\<lambda>r. (if rr_leader r then None else Some ErrNotLeader, r)),
      rf_Apply = (\<lambda>data t (r, m, w).
        if rr_leader r
        then (case Apply ref_pebble \<lparr>log_Index = rr_index r + 1, log_Data = data\<rparr> m w of
                (resp, m1, w1) \<Rightarrow> (Inr (rr_index r + 1, resp), r\<lparr>rr_index := rr_index r + 1\<rparr>, m1, w1))
        else (Inl ErrNotLeader, r, m, w)),
      rf_GetConfiguration = (\<lambda>r. Inr (rr_servers r))\<rparr>"

interpretation one: raft_lib ref_pebble map_of "\<lambda>b. b" ref_raft
proof unfold_locales
  fix data t r m w i resp r' m' w'
  assume "rf_Apply ref_raft data t (r, m, w) = (Inr (i, resp), r', m', w')"
  then have "apply_log ref_pebble ([] @ [\<lparr>log_Index = i, log_Data = data\<rparr>]) m w = ([] @ [resp], m', w')"
    by (auto simp: ref_raft_def split: if_splits prod.splits)
  then show "\<exists>ls resps. apply_log ref_pebble (ls @ [\<lparr>log_Index = i, log_Data = data\<rparr>]) m w = (resps @ [resp], m', w')"
    by blast
qed (simp add: ref_raft_def)

end
