(* ===== verification/Engine_Start.thy ===== *)
theory Engine_Start
  imports Engine_Kv
begin

text \<open>
  Starting and closing the engine, \<open>engine/raft.go\<close> (\<open>newRaft\<close>, \<open>close\<close>), \<open>engine/engine.go\<close> and \<open>app.go\<close>. The
  outcome of every call of a library is an argument. What has been opened is recorded, so that it
  shows what a failing start leaves open.
\<close>

subsection \<open>Configuration\<close>

definition millisecond :: int where "millisecond = 1000000"

record raft_Config =
  rc_HeartbeatTimeout :: int
  rc_ElectionTimeout :: int
  rc_CommitTimeout :: int
  rc_MaxAppendEntries :: nat
  rc_BatchApplyCh :: bool
  rc_ShutdownOnRemove :: bool
  rc_TrailingLogs :: nat
  rc_SnapshotInterval :: int
  rc_SnapshotThreshold :: nat
  rc_LeaderLeaseTimeout :: int
  rc_LocalID :: string
  rc_NoSnapshotRestoreOnStart :: bool
  rc_PreVoteDisabled :: bool

definition raft_config :: "string \<Rightarrow> raft_Config" where
  "raft_config nodeId =
     \<lparr>rc_HeartbeatTimeout = 1000 * millisecond, rc_ElectionTimeout = 3000 * millisecond,
      rc_CommitTimeout = 50 * millisecond, rc_MaxAppendEntries = 64, rc_BatchApplyCh = True, rc_ShutdownOnRemove = True,
      rc_TrailingLogs = 10240, rc_SnapshotInterval = 120 * second, rc_SnapshotThreshold = 8192,
      rc_LeaderLeaseTimeout = 1500 * millisecond, rc_LocalID = nodeId, rc_NoSnapshotRestoreOnStart = False,
      rc_PreVoteDisabled = False\<rparr>"

definition raftDBPath :: string where "raftDBPath = ''raftdb''"
definition raftSnapshotPath :: string where "raftSnapshotPath = ''raft-snapshot''"

record 'ml lib_calls =
  lc_NewPebbleStore :: "string \<Rightarrow> go_err option"
  lc_NewFileSnapshotStore :: "string \<Rightarrow> go_err option"
  lc_ResolveTCPAddr :: "string \<Rightarrow> go_err option"
  lc_NewTCPTransport :: "string \<Rightarrow> go_err option"
  lc_NewRaft :: "raft_Config \<Rightarrow> go_err option"
  lc_BootstrapCluster :: "raft_server list \<Rightarrow> go_err option"
  lc_AppliedIndex :: u64
  lc_DefaultLANConfig :: MlConfig
  lc_memberlist_Create :: "MlConfig \<Rightarrow> 'ml result"
  lc_Listen :: "string \<Rightarrow> go_err option"

datatype opened = RaftDB | Transport | Raft | GossipRunning | Listener

subsection \<open>newRaft\<close>

text \<open>On success the state machine, with its index moved to the applied one; with what was opened.\<close>

definition newRaft ::
  "'ml lib_calls \<Rightarrow> string \<Rightarrow> string \<Rightarrow> string \<Rightarrow> StateMachine \<Rightarrow> bool \<Rightarrow> StateMachine result \<times> opened list" where
  "newRaft L baseDir nodeId raftAddr rfsm raftBootstrap =
     (case lc_NewPebbleStore L (filepath_Join baseDir raftDBPath) of
        Some e \<Rightarrow> (Inl (Errorf ''pebbledb.NewPebbleStore(%q): %v'' [AStr (filepath_Join baseDir raftDBPath), AErr e]), [])
      | None \<Rightarrow>
          (case lc_NewFileSnapshotStore L (filepath_Join baseDir raftSnapshotPath) of
             Some e \<Rightarrow> (Inl (Errorf ''raft.NewFileSnapshotStore(%q, ...): %v''
                               [AStr (filepath_Join baseDir raftSnapshotPath), AErr e]), [RaftDB])
           | None \<Rightarrow>
               (case lc_ResolveTCPAddr L raftAddr of
                  Some e \<Rightarrow> (Inl (Errorf ''Could not resolve address: %s'' [AErr e]), [RaftDB])
                | None \<Rightarrow>
                    (case lc_NewTCPTransport L raftAddr of
                       Some e \<Rightarrow> (Inl (Errorf ''Could not create tcp transport: %s'' [AErr e]), [RaftDB])
                     | None \<Rightarrow>
                         (case lc_NewRaft L (raft_config nodeId) of
                            Some e \<Rightarrow> (Inl (Errorf ''raft.NewRaft: %v'' [AErr e]), [RaftDB, Transport])
                          | None \<Rightarrow>
                              (case (if raftBootstrap
                                     then lc_BootstrapCluster L [\<lparr>srv_ID = nodeId, srv_Address = raftAddr, srv_Voter = True\<rparr>]
                                     else None) of
                                 Some e \<Rightarrow> (Inl (Errorf ''raft.Raft.BootstrapCluster: %v'' [AErr e]), [RaftDB, Transport, Raft])
                               | None \<Rightarrow> (Inr (UpdateFsmIndex (lc_AppliedIndex L) rfsm), [RaftDB, Transport, Raft])))))))"

subsection \<open>The engine\<close>

record EngineConfig =
  ec_RaftDir :: string
  ec_NodeID :: string
  ec_RaftAddr :: string
  ec_GRPCAddr :: string
  ec_RaftBootstrap :: bool
  ec_GossipEnabled :: bool
  ec_GossipAddr :: string
  ec_GossipSeeds :: "string list"
  ec_StaticLookup :: "(string \<times> string) list"

text \<open>\<open>eng_resolver\<close> is the engine's own resolver, \<open>eng_service\<close> the one the registered service uses.\<close>

record Engine =
  eng_fsm :: StateMachine
  eng_gossip :: "Gossip option"
  eng_resolver :: AddressResolver
  eng_service :: AddressResolver
  eng_listen :: string
  eng_closed :: bool

definition setupGossip :: "'ml lib_calls \<Rightarrow> EngineConfig \<Rightarrow> Gossip result" where
  "setupGossip L cfg =
     (case ParseHostPort (ec_GossipAddr cfg) of
        Inl e \<Rightarrow> Inl (Errorf ''invalid gossip address: %v'' [AErr e])
      | Inr (host, port) \<Rightarrow>
          (case gossip_New (lc_DefaultLANConfig L) (lc_memberlist_Create L)
                  \<lparr>gc_BindAddr = host, gc_BindPort = port, gc_AdvertiseAddr = [], gc_AdvertisePort = 0,
                   gc_Seeds = ec_GossipSeeds cfg,
                   gc_NodeMeta = \<lparr>nm_NodeID = ec_NodeID cfg, nm_RaftAddr = ec_RaftAddr cfg, nm_GRPCAddr = ec_GRPCAddr cfg\<rparr>\<rparr> of
             Inl e \<Rightarrow> Inl e
           | Inr (g, ml) \<Rightarrow> Inr (OnLeave (OnJoin g))))"

text \<open>From the resolver on; \<open>ops\<close> is what \<open>newRaft\<close> has opened.\<close>

definition engine_serve ::
  "'ml lib_calls \<Rightarrow> EngineConfig \<Rightarrow> StateMachine \<Rightarrow> opened list \<Rightarrow> Gossip option \<Rightarrow> Engine result \<times> opened list" where
  "engine_serve L cfg m ops g =
     (let res = (case g of Some x \<Rightarrow> GossipResolver x | None \<Rightarrow> StaticR (NewStaticResolver []));
          svc = (case g of Some x \<Rightarrow> res | None \<Rightarrow> NewGrpcService (ec_StaticLookup cfg))
      in case SplitHostPort (ec_GRPCAddr cfg) of
           Inl e \<Rightarrow> (Inl (Errorf ''failed to parse grpc address (%q): %v'' [AStr (ec_GRPCAddr cfg), AErr e]), ops)
         | Inr (_, port) \<Rightarrow>
             (case lc_Listen L (CHR '':'' # port) of
                Some e \<Rightarrow> (Inl (Errorf ''failed to listen: %v'' [AErr e]), ops)
              | None \<Rightarrow>
                  (Inr \<lparr>eng_fsm = m, eng_gossip = g, eng_resolver = res, eng_service = svc,
                        eng_listen = CHR '':'' # port, eng_closed = False\<rparr>, ops @ [Listener])))"

definition NewEngineWithConfig ::
  "('db, 'b) pebble \<Rightarrow> 'ml lib_calls \<Rightarrow> EngineConfig \<Rightarrow> u64 \<Rightarrow> int \<Rightarrow> 'db world \<Rightarrow> Engine result \<times> opened list \<times> 'db world" where
  "NewEngineWithConfig P L cfg rn ct w =
     (let dir = filepath_Join (ec_RaftDir cfg) (ec_NodeID cfg)
      in case NewStateMachine P (ec_RaftAddr cfg) (ec_NodeID cfg) (filepath_Join dir ''user_data'') rn ct w of
           (Inl e, w1) \<Rightarrow> (Inl e, [], w1)
         | (Inr m, w1) \<Rightarrow>
             (case newRaft L (filepath_Join dir ''meta_data'') (ec_NodeID cfg) (ec_RaftAddr cfg) m (ec_RaftBootstrap cfg) of
                (Inl e, ops) \<Rightarrow> (Inl e, ops, w1)
              | (Inr m1, ops) \<Rightarrow>
                  (if ec_GossipEnabled cfg
                   then (case setupGossip L cfg of
                           Inl e \<Rightarrow> (Inl (Errorf ''failed to setup gossip: %v'' [AErr e]), ops, w1)
                         | Inr g \<Rightarrow> (case engine_serve L cfg m1 (ops @ [GossipRunning]) (Some g) of (r, ops1) \<Rightarrow> (r, ops1, w1)))
                   else (case engine_serve L cfg m1 ops None of (r, ops1) \<Rightarrow> (r, ops1, w1)))))"

definition GetResolver :: "Engine \<Rightarrow> AddressResolver" where
  "GetResolver e = eng_resolver e"

definition GetGossip :: "Engine \<Rightarrow> Gossip option" where
  "GetGossip e = eng_gossip e"

subsection \<open>Closing\<close>

text \<open>
  The order of \<open>Close\<close>. Requests that are in flight are served until the gRPC server has stopped; \<open>reqs\<close>
  is what they do to the connection cache. \<open>graceful\<close> says that the server stopped before its deadline.
\<close>

datatype close_act = ActStopCh | ActConns | ActGraceful | ActForce | ActListener | ActLeave | ActGossip
  | ActRaftStopCh | ActRaftShutdown | ActTransport | ActRaftDB | ActFsm

definition raft_close :: "close_act list" where
  "raft_close = [ActRaftStopCh, ActRaftShutdown, ActTransport, ActRaftDB]"

definition close_acts :: "bool \<Rightarrow> bool \<Rightarrow> close_act list" where
  "close_acts graceful gossip =
     [ActStopCh, ActConns] @ (if graceful then [ActGraceful] else [ActGraceful, ActForce]) @ [ActListener] @
     (if gossip then [ActLeave, ActGossip] else []) @ raft_close @ [ActFsm]"

definition engine_Close ::
  "bool \<Rightarrow> conn_op list \<Rightarrow> Engine \<Rightarrow> conns \<Rightarrow> 'db world \<Rightarrow> close_act list \<times> Engine \<times> conns \<times> 'db world" where
  "engine_Close graceful reqs e cc w =
     (if eng_closed e then ([], e, cc, w)
      else (let cc1 = fold conn_step reqs (CloseAllConns cc)
            in case Close (eng_fsm e) w of
                 (_, m, w1) \<Rightarrow> (close_acts graceful (eng_gossip e \<noteq> None), e\<lparr>eng_fsm := m, eng_closed := True\<rparr>, cc1, w1)))"

subsection \<open>The program\<close>

record flags =
  fl_raft_addr :: string
  fl_grpc_addr :: string
  fl_raft_id :: string
  fl_raft_data_dir :: string
  fl_raft_bootstrap :: bool
  fl_gossip_addr :: string
  fl_gossip_seeds :: string

definition defaultStaticLookup :: "(string \<times> string) list" where
  "defaultStaticLookup =
     [(''127.0.0.1:50051'', ''127.0.0.1:40051''), (''127.0.0.1:50052'', ''127.0.0.1:40052''), (''127.0.0.1:50053'', ''127.0.0.1:40053'')]"

text \<open>What \<open>main\<close> hands to the engine, or the fatal message it ends with.\<close>

definition main_config :: "flags \<Rightarrow> EngineConfig result" where
  "main_config f =
     (if fl_raft_id f = [] then Inl (ErrNew ''flag --raft_id is required'')
      else if fl_raft_addr f = [] then Inl (ErrNew ''flag --raft_addr is required'')
      else if fl_grpc_addr f = [] then Inl (ErrNew ''flag --grpc_addr is required'')
      else (let cfg = \<lparr>ec_RaftDir = fl_raft_data_dir f, ec_NodeID = fl_raft_id f, ec_RaftAddr = fl_raft_addr f,
                       ec_GRPCAddr = fl_grpc_addr f, ec_RaftBootstrap = fl_raft_bootstrap f, ec_GossipEnabled = False,
                       ec_GossipAddr = [], ec_GossipSeeds = [], ec_StaticLookup = defaultStaticLookup\<rparr>
            in Inr (if fl_gossip_addr f \<noteq> []
                    then (let cfg1 = cfg\<lparr>ec_GossipEnabled := True, ec_GossipAddr := fl_gossip_addr f\<rparr>
                          in if fl_gossip_seeds f \<noteq> []
                             then cfg1\<lparr>ec_GossipSeeds := strings_Split (fl_gossip_seeds f) CHR '',''\<rparr> else cfg1)
                    else cfg)))"

subsection \<open>What a start gives\<close>

lemma engine_serve_ok:
  assumes "engine_serve L cfg m ops g = (Inr e, ops')"
  shows "eng_fsm e = m \<and> eng_gossip e = g \<and> ops' = ops @ [Listener] \<and> \<not> eng_closed e \<and>
    (case g of Some x \<Rightarrow> eng_resolver e = GossipResolver x \<and> eng_service e = GossipResolver x
     | None \<Rightarrow> eng_resolver e = StaticR (NewStaticResolver []) \<and> eng_service e = NewGrpcService (ec_StaticLookup cfg))"
  using assms by (auto simp: engine_serve_def Let_def split: option.splits sum.splits)

lemma NewEngine_static:
  assumes "NewEngineWithConfig P L cfg rn ct w = (Inr e, ops, w')" and "\<not> ec_GossipEnabled cfg"
  shows "eng_gossip e = None \<and> eng_resolver e = StaticR (NewStaticResolver []) \<and>
    eng_service e = NewGrpcService (ec_StaticLookup cfg)"
  using assms engine_serve_ok [of L cfg _ _ None e]
  by (auto simp: NewEngineWithConfig_def Let_def split: prod.splits sum.splits)

lemma NewEngine_gossip:
  assumes "NewEngineWithConfig P L cfg rn ct w = (Inr e, ops, w')" and "ec_GossipEnabled cfg"
  shows "\<exists>g. eng_gossip e = Some g \<and> eng_service e = GossipResolver g \<and> setupGossip L cfg = Inr g"
  using assms engine_serve_ok [of L cfg _ _ "Some _" e]
  by (auto simp: NewEngineWithConfig_def Let_def split: prod.splits sum.splits)

end
