(* ===== verification/Go_Time.thy ===== *)
theory Go_Time
  imports Go_Json_Enc
begin

text \<open>
  Go's \<open>time\<close> as far as the statistics use it: \<open>Duration.String\<close> and the layout RFC3339. A duration is a
  number of nanoseconds, an instant the nanoseconds since the zero time, 1 January of year 1, UTC.
\<close>

subsection \<open>Durations\<close>

definition digit_char :: "nat \<Rightarrow> char" where
  "digit_char n = char_of (48 + n)"

text \<open>The fraction of \<open>v / 10 ^ prec\<close> in front of \<open>buf\<close>, without trailing zeros, and the integer part.\<close>

fun fmtFrac :: "nat \<Rightarrow> nat \<Rightarrow> bool \<Rightarrow> string \<Rightarrow> string \<times> nat" where
  "fmtFrac 0 v print buf = (if print then CHR ''.'' # buf else buf, v)"
| "fmtFrac (Suc prec) v print buf =
     (let print1 = print \<or> v mod 10 \<noteq> 0
      in fmtFrac prec (v div 10) print1 (if print1 then digit_char (v mod 10) # buf else buf))"

definition fmtInt :: "nat \<Rightarrow> string \<Rightarrow> string" where
  "fmtInt v buf = show_nat v @ buf"

definition small_unit :: "nat \<Rightarrow> string \<times> nat" where
  "small_unit u =
     (if u < 1000 then (''ns'', 0)
      else if u < 1000000 then ([char_of (0xC2 :: nat), char_of (0xB5 :: nat), CHR ''s''], 3)
      else (''ms'', 6))"

definition Duration_String :: "int \<Rightarrow> string" where
  "Duration_String d =
     (let u = nat \<bar>d\<bar>
      in if u = 0 then ''0s''
         else (if d < 0 then ''-'' else []) @
           (if u < 1000000000
            then (case small_unit u of (unit, prec) \<Rightarrow>
                    (case fmtFrac prec u False unit of (buf, v) \<Rightarrow> fmtInt v buf))
            else (case fmtFrac 9 u False ''s'' of (buf, secs) \<Rightarrow>
                    (let buf1 = fmtInt (secs mod 60) buf; mins = secs div 60
                     in if mins = 0 then buf1
                        else (let buf2 = fmtInt (mins mod 60) (CHR ''m'' # buf1); hours = mins div 60
                              in if hours = 0 then buf2 else fmtInt hours (CHR ''h'' # buf2))))))"

subsection \<open>Dates\<close>

definition isLeap :: "int \<Rightarrow> bool" where
  "isLeap year = (year mod 4 = 0 \<and> (year mod 100 \<noteq> 0 \<or> year mod 400 = 0))"

definition daysBefore :: "nat list" where
  "daysBefore = [0, 31, 59, 90, 120, 151, 181, 212, 243, 273, 304, 334, 365]"

text \<open>The year and the day in it, from the days since 1 January of year 1.\<close>

definition year_yday :: "int \<Rightarrow> int \<times> nat" where
  "year_yday days =
     (let n400 = days div 146097; d1 = days mod 146097;
          n100 = d1 div 36524 - d1 div 36524 div 4; d2 = d1 - 36524 * n100;
          n4 = d2 div 1461; d3 = d2 - 1461 * n4;
          n1 = d3 div 365 - d3 div 365 div 4; d4 = d3 - 365 * n1
      in (400 * n400 + 100 * n100 + 4 * n4 + n1 + 1, nat d4))"

text \<open>The month and the day of the month, both from 1, from the day in the year.\<close>

definition month_day :: "bool \<Rightarrow> nat \<Rightarrow> nat \<times> nat" where
  "month_day leap yday =
     (if leap \<and> yday = 59 then (2, 29)
      else (let day = (if leap \<and> 59 < yday then yday - 1 else yday);
                month = day div 31; after = daysBefore ! Suc month
            in if after \<le> day then (month + 2, day - after + 1)
               else (month + 1, day - daysBefore ! month + 1)))"

definition pad :: "nat \<Rightarrow> nat \<Rightarrow> string" where
  "pad width n = replicate (width - length (show_nat n)) (CHR ''0'') @ show_nat n"

definition zone_text :: "int \<Rightarrow> string" where
  "zone_text offset =
     (if offset = 0 then ''Z''
      else (let mins = nat (\<bar>offset\<bar> div 60)
            in (if offset < 0 \<and> mins \<noteq> 0 then CHR ''-'' else CHR ''+'') # pad 2 (mins div 60) @ CHR '':'' # pad 2 (mins mod 60)))"

definition Format_RFC3339 :: "int \<Rightarrow> int \<Rightarrow> string" where
  "Format_RFC3339 offset t =
     (let secs = t div 1000000000 + offset; days = secs div 86400; s = nat (secs mod 86400)
      in case year_yday days of (year, yday) \<Rightarrow>
           (case month_day (isLeap year) yday of (month, day) \<Rightarrow>
              (if year < 0 then CHR ''-'' # pad 4 (nat (- year)) else pad 4 (nat year)) @ CHR ''-'' # pad 2 month @ CHR ''-'' # pad 2 day @
              CHR ''T'' # pad 2 (s div 3600) @ CHR '':'' # pad 2 (s div 60 mod 60) @ CHR '':'' # pad 2 (s mod 60) @ zone_text offset))"

subsection \<open>Dates are right\<close>

text \<open>The days before a date, by the rule of the calendar.\<close>

definition days_to_year :: "int \<Rightarrow> int" where
  "days_to_year year = 365 * (year - 1) + (year - 1) div 4 - (year - 1) div 100 + (year - 1) div 400"

definition month_length :: "bool \<Rightarrow> nat \<Rightarrow> nat" where
  "month_length leap m = (if m = 2 then if leap then 29 else 28 else if m \<in> {4, 6, 9, 11} then 30 else 31)"

definition days_before_month :: "bool \<Rightarrow> nat \<Rightarrow> nat" where
  "days_before_month leap m = sum_list (map (month_length leap) [1..<m])"

lemma days_before_month_table:
  assumes "1 \<le> m" and "m \<le> 13"
  shows "days_before_month leap m = daysBefore ! (m - 1) + (if leap \<and> 2 < m then 1 else 0)"
proof -
  have "list_all (\<lambda>m. days_before_month leap m = daysBefore ! (m - 1) + (if leap \<and> 2 < m then 1 else 0)) [1..<14]" for leap
    by (cases leap; simp only:; code_simp)
  then show ?thesis using assms by (simp add: list_all_iff)
qed

lemma nat_upto_11:
  "(q :: nat) \<le> 11 \<Longrightarrow> q = 0 \<or> q = 1 \<or> q = 2 \<or> q = 3 \<or> q = 4 \<or> q = 5 \<or> q = 6 \<or> q = 7 \<or> q = 8 \<or> q = 9 \<or> q = 10 \<or> q = 11"
  by presburger

lemma common_month:
  assumes "day < 365"
  defines "m \<equiv> (if daysBefore ! Suc (day div 31) \<le> day then day div 31 + 1 else day div 31)"
  shows "daysBefore ! m \<le> day \<and> day < daysBefore ! Suc m \<and> m < 12"
proof -
  define q where "q = day div 31"
  have "31 * q \<le> day" "day < 31 * q + 31" unfolding q_def by linarith+
  moreover have "q \<le> 11" using assms(1) by (simp add: q_def)
  note nat_upto_11 [OF this]
  ultimately show ?thesis
    using assms(1) unfolding m_def q_def [symmetric]
    by (elim disjE) (simp_all add: daysBefore_def)
qed

lemma month_day_right:
  assumes "yday < (if leap then 366 else 365)" and "month_day leap yday = (m, d)"
  shows "yday + 1 = days_before_month leap m + d \<and> 1 \<le> d \<and> d \<le> month_length leap m \<and> m \<in> {1..12}"
proof (cases "leap \<and> yday = 59")
  case True
  then have "m = 2" "d = 29" using assms(2) by (simp_all add: month_day_def)
  then show ?thesis using True by (simp add: days_before_month_table daysBefore_def month_length_def)
next
  case False
  define day where "day = (if leap \<and> 59 < yday then yday - 1 else yday)"
  define k where "k = (if daysBefore ! Suc (day div 31) \<le> day then day div 31 + 1 else day div 31)"
  have "day < 365" using assms(1) False by (auto simp: day_def split: if_splits)
  note c = common_month [OF this, folded k_def]
  have md: "m = Suc k" "d = day - daysBefore ! k + 1"
    using assms(2) False by (auto simp: month_day_def day_def [symmetric] Let_def k_def split: if_splits)
  have feb: "2 < m \<longleftrightarrow> 59 \<le> day"
  proof -
    have "sorted daysBefore" by (simp add: daysBefore_def)
    moreover have "length daysBefore = 13" "daysBefore ! 2 = 59" by (simp_all add: daysBefore_def)
    ultimately have "k \<le> 1 \<Longrightarrow> daysBefore ! Suc k \<le> 59" "2 \<le> k \<Longrightarrow> 59 \<le> daysBefore ! k"
      using c sorted_nth_mono [of daysBefore "Suc k" 2] sorted_nth_mono [of daysBefore 2 k] by simp_all
    then show ?thesis using c md(1) by linarith
  qed
  have len: "daysBefore ! Suc k + (if leap \<and> 2 < Suc m then 1 else 0) = daysBefore ! k + (if leap \<and> 2 < m then 1 else 0) + month_length leap m"
    using days_before_month_table [of m leap] days_before_month_table [of "Suc m" leap] c md(1)
    by (simp add: days_before_month_def)
  have "days_before_month leap m = daysBefore ! k + (if leap \<and> 2 < m then 1 else 0)"
    using days_before_month_table [of m leap] c md(1) by simp
  then show ?thesis using c md len feb False by (auto simp: day_def split: if_splits)
qed

text \<open>A cycle of four parts, of which the last may be one day longer.\<close>

lemma cycle_part:
  assumes "0 \<le> (d :: int)" and "d \<le> 4 * k" and "1 < k"
  defines "b \<equiv> d div k - d div k div 4"
  shows "0 \<le> b \<and> b \<le> 3 \<and> 0 \<le> d - k * b \<and> d - k * b \<le> k \<and> (d - k * b = k \<longrightarrow> b = 3 \<and> d = 4 * k)"
proof (cases "d = 4 * k")
  case True
  then show ?thesis using assms(3) by (simp add: b_def)
next
  case False
  then have "d < 4 * k" using assms(2) by simp
  have "d div k < 4"
  proof (rule ccontr)
    assume "\<not> d div k < 4"
    then have "k * 4 \<le> k * (d div k)" using assms(3) by (intro mult_left_mono) auto
    moreover have "0 \<le> d mod k" using assms(3) by simp
    ultimately show False using \<open>d < 4 * k\<close> mult_div_mod_eq [of k d] by linarith
  qed
  moreover have "0 \<le> d div k" using assms(1,3) by (simp add: pos_imp_zdiv_nonneg_iff)
  ultimately have b: "b = d div k" "0 \<le> b" "b \<le> 3" by (simp_all add: b_def)
  moreover have "d - k * b = d mod k" by (simp add: b(1) minus_mult_div_eq_mod)
  moreover have "0 \<le> d mod k" "d mod k < k" using assms(3) by simp_all
  ultimately show ?thesis by simp
qed

lemma year_yday_right:
  assumes "year_yday days = (y, n)"
  shows "days = days_to_year y + int n \<and> n < (if isLeap y then 366 else 365)"
proof -
  define a where "a = days div 146097"
  define d1 where "d1 = days mod 146097"
  define b where "b = d1 div 36524 - d1 div 36524 div 4"
  define d2 where "d2 = d1 - 36524 * b"
  define c where "c = d2 div 1461"
  define d3 where "d3 = d2 - 1461 * c"
  define e where "e = d3 div 365 - d3 div 365 div 4"
  define d4 where "d4 = d3 - 365 * e"
  have y: "y = 400 * a + 100 * b + 4 * c + e + 1" "n = nat d4"
    using assms unfolding year_yday_def Let_def a_def [symmetric] d1_def [symmetric] b_def [symmetric] d2_def [symmetric]
      c_def [symmetric] d3_def [symmetric] e_def [symmetric] d4_def [symmetric]
    by (simp_all only: prod.inject)
  have d1: "0 \<le> d1" "d1 \<le> 4 * 36524" "days = 146097 * a + d1"
    using pos_mod_bound [of 146097 days] by (simp_all add: d1_def a_def)
  have b: "0 \<le> b" "b \<le> 3" "0 \<le> d2" "d2 \<le> 36524" "d2 = 36524 \<longrightarrow> b = 3"
    using cycle_part [OF d1(1,2)] by (simp_all add: b_def [symmetric] d2_def [symmetric])
  have d3: "d3 = d2 mod 1461" by (simp add: d3_def c_def minus_mult_div_eq_mod)
  have m: "d2 = 1461 * c + d3" "0 \<le> d3" "d3 < 1461" by (simp add: d3_def) (simp_all add: d3)
  have c1: "0 \<le> c" using b(3) by (simp add: c_def pos_imp_zdiv_nonneg_iff)
  have c2: "c \<le> 24" using zdiv_mono1 [OF b(4), of 1461] by (simp add: c_def)
  have c3: "d3 \<le> 4 * 365" using m(3) by simp
  have c4: "c = 24 \<and> d3 = 1460 \<longrightarrow> d2 = 36524" unfolding m(1) by simp
  note c = c1 c2 m(2) c3 c4
  have e: "0 \<le> e" "e \<le> 3" "0 \<le> d4" "d4 \<le> 365" "d4 = 365 \<longrightarrow> e = 3 \<and> d3 = 1460"
    using cycle_part [OF c(3,4)] by (simp_all add: e_def [symmetric] d4_def [symmetric])
  have q4: "(y - 1) div 4 = 100 * a + 25 * b + c"
    by (rule int_div_pos_eq [where r = e]) (use e(1,2) in \<open>simp_all add: y(1)\<close>)
  have q100: "(y - 1) div 100 = 4 * a + b"
    by (rule int_div_pos_eq [where r = "4 * c + e"]) (use e(1,2) c(1,2) in \<open>simp_all add: y(1)\<close>)
  have q400: "(y - 1) div 400 = a"
    by (rule int_div_pos_eq [where r = "100 * b + 4 * c + e"]) (use e(1,2) c(1,2) b(1,2) in \<open>simp_all add: y(1)\<close>)
  have leap: "isLeap y" if "d4 = 365"
  proof -
    have "e = 3" "c = 24 \<longrightarrow> b = 3" using that e(5) c(5) b(5) by blast+
    then have four: "y = 4 * (100 * a + 25 * b + c + 1)" by (simp add: y(1))
    show ?thesis
    proof (cases "c = 24")
      case True
      with \<open>c = 24 \<longrightarrow> b = 3\<close> have "y = 400 * (a + 1)" by (simp add: four)
      then show ?thesis by (simp add: isLeap_def)
    next
      case False
      then have "y mod 100 = 4 * (c + 1)"
        by (intro int_mod_pos_eq [where q = "4 * a + b"]) (use c(1,2) in \<open>simp_all add: four\<close>)
      moreover have "y mod 4 = 0" unfolding four by simp
      ultimately show ?thesis using c(1) by (simp add: isLeap_def)
    qed
  qed
  have "days = 146097 * a + 36524 * b + 1461 * c + 365 * e + d4" using d1(3) by (simp add: d2_def d3_def d4_def)
  moreover have "days_to_year y = 146097 * a + 36524 * b + 1461 * c + 365 * e"
    unfolding days_to_year_def q4 q100 q400 by (simp add: y(1))
  moreover have n: "int n = d4" using e(3) y(2) by simp
  moreover have "n < (if isLeap y then 366 else 365)"
  proof (cases "d4 = 365")
    case True
    with leap n show ?thesis by simp
  next
    case False
    with e(4) n have "n < 365" by linarith
    then show ?thesis by simp
  qed
  ultimately show ?thesis by linarith
qed

subsection \<open>The texts are UTF-8\<close>

lemma utf8_len_append:
  assumes "utf8_len (b # bs) \<noteq> 0"
  shows "utf8_len (b # bs @ t) = utf8_len (b # bs)"
proof -
  let ?n = "utf8_len (b # bs)"
  have "b # bs @ t = take ?n (b # bs) @ (drop ?n (b # bs) @ t)" by (metis append_Cons append_assoc append_take_drop_id)
  then show ?thesis using utf8_len_take [OF assms] by metis
qed

lemma valid_utf8_append [intro]: "valid_utf8 a \<Longrightarrow> valid_utf8 b \<Longrightarrow> valid_utf8 (a @ b)"
proof (induction a rule: valid_utf8.induct)
  case (2 c bs)
  have v: "utf8_len (c # bs) \<noteq> 0" "valid_utf8 (drop (utf8_len (c # bs) - 1) bs)"
    using 2(2) by (simp_all add: valid_utf8.simps(2))
  have "utf8_len (c # bs) - 1 \<le> length bs" using utf8_len_le [of c bs] by simp
  then have "drop (utf8_len (c # bs) - 1) (bs @ b) = drop (utf8_len (c # bs) - 1) bs @ b" by simp
  then show ?case using v 2 by (simp add: valid_utf8.simps(2) utf8_len_append)
qed simp

lemma valid_utf8_ascii: "list_all (\<lambda>b. b < 128) s \<Longrightarrow> valid_utf8 s"
  by (induction s) (simp_all add: valid_utf8.simps(2))

definition ascii :: "string \<Rightarrow> bool" where
  "ascii s \<longleftrightarrow> list_all (\<lambda>c. byte_of c < 128) s"

lemma ascii_simps [simp]:
  "ascii []" "ascii (c # s) \<longleftrightarrow> byte_of c < 128 \<and> ascii s" "ascii (s @ t) \<longleftrightarrow> ascii s \<and> ascii t" "ascii (replicate n CHR ''0'')"
  by (auto simp: ascii_def byte_of_def list_all_iff)

lemma ascii_utf8: "ascii s \<Longrightarrow> valid_utf8 (bytes_of s)"
  by (rule valid_utf8_ascii) (simp add: ascii_def bytes_of_def list.pred_map comp_def)

lemma ascii_show_nat [simp]: "ascii (show_nat n)"
proof -
  have "b < 128" if "is_digit b" for b using that by (auto simp: is_digit_def intro: order.strict_trans1)
  then show ?thesis using show_nat_digits [of n] by (auto simp: ascii_def bytes_of_def list_all_iff)
qed

lemma ascii_pad [simp]: "ascii (pad w n)"
  by (simp add: pad_def)

lemma ascii_zone [simp]: "ascii (zone_text offset)"
  by (auto simp: zone_text_def Let_def byte_of_def)

lemma ascii_date:
  "ascii ((if neg then CHR ''-'' # pad 4 y else pad 4 z) @ CHR ''-'' # pad 2 m @ CHR ''-'' # pad 2 d @
     CHR ''T'' # pad 2 a @ CHR '':'' # pad 2 b @ CHR '':'' # pad 2 c @ zone_text offset)"
  by (simp add: byte_of_def)

lemma ascii_RFC3339: "ascii (Format_RFC3339 offset t)"
  unfolding Format_RFC3339_def Let_def split_def by (rule ascii_date)

lemma fmtFrac_utf8:
  "fmtFrac p v pr buf = (buf', v') \<Longrightarrow> valid_utf8 (bytes_of buf) \<Longrightarrow> valid_utf8 (bytes_of buf')"
proof (induction p arbitrary: v pr buf)
  case 0
  have "byte_of CHR ''.'' < 128" by (simp add: byte_of_def)
  with 0 show ?case by (auto simp: bytes_of_def valid_utf8.simps(2) split: if_splits)
next
  case (Suc p)
  have "byte_of (digit_char (v mod 10)) < 128"
    using digit_byte [of "v mod 10"] by (simp add: digit_char_def word_less_nat_alt)
  with Suc show ?case by (auto simp: Let_def bytes_of_def valid_utf8.simps(2) split: if_splits)
qed

lemma fmtInt_utf8: "valid_utf8 (bytes_of buf) \<Longrightarrow> valid_utf8 (bytes_of (fmtInt v buf))"
  by (simp add: fmtInt_def valid_utf8_append ascii_utf8)

lemma unit_utf8: "small_unit u = (unit, prec) \<Longrightarrow> valid_utf8 (bytes_of unit)"
  by (auto simp: small_unit_def bytes_of_def byte_of_def valid_utf8.simps(2) utf8_len.simps(2) cont_def split: if_splits)

lemma cons_utf8: "byte_of c < 128 \<Longrightarrow> valid_utf8 (bytes_of s) \<Longrightarrow> valid_utf8 (bytes_of (c # s))"
  by (simp add: bytes_of_def valid_utf8.simps(2))

lemma Duration_utf8: "valid_utf8 (bytes_of (Duration_String d))"
proof -
  have lit: "byte_of CHR ''m'' < 128" "byte_of CHR ''h'' < 128" "byte_of CHR ''-'' < 128" "valid_utf8 (bytes_of ''s'')" "valid_utf8 (bytes_of ''0s'')"
      "valid_utf8 (bytes_of (if d < 0 then ''-'' else []))"
    by (simp_all add: ascii_utf8 byte_of_def)
  obtain buf secs where f: "fmtFrac 9 (nat \<bar>d\<bar>) False ''s'' = (buf, secs)" by (metis surj_pair)
  obtain unit prec where u: "small_unit (nat \<bar>d\<bar>) = (unit, prec)" by (metis surj_pair)
  obtain buf' v where g: "fmtFrac prec (nat \<bar>d\<bar>) False unit = (buf', v)" by (metis surj_pair)
  have b: "valid_utf8 (bytes_of buf)" "valid_utf8 (bytes_of buf')"
    using fmtFrac_utf8 [OF f lit(4)] fmtFrac_utf8 [OF g unit_utf8 [OF u]] .
  show ?thesis
    unfolding Duration_String_def Let_def f u g prod.case bytes_of_append if_distrib [of bytes_of]
    using lit b by (auto intro!: valid_utf8_append fmtInt_utf8 cons_utf8)
qed

end
