(* ===== verification/Fsm_Stats.thy ===== *)
theory Fsm_Stats
  imports Fsm_Machine Go_Time Go_Json_Indent
begin

text \<open>
  \<open>DirSize\<close> of \<open>src/fsm/utils.go\<close> and \<open>Stats\<close> of \<open>src/fsm/fsm.go\<close>. The files inside the directory of a database
  belong to the store library: their total size is an argument. Sizes are added in 64 bits.
\<close>

subsection \<open>Walking a directory\<close>

text \<open>\<open>Lstat\<close>: whether it is a directory, and the size of a file.\<close>

definition os_Lstat :: "string \<Rightarrow> 'db world \<Rightarrow> (bool \<times> u64) result \<times> 'db world" where
  "os_Lstat p = os_call (\<lambda>w.
     (if w_key w p = [] then Inr (True, 0)
      else case map_of (w_nodes w) (w_key w p) of
        None \<Rightarrow> Inl OsNotExist
      | Some (RegFile bs) \<Rightarrow> Inr (False, of_nat (length bs))
      | Some (Directory _) \<Rightarrow> Inr (True, 0), w))"

text \<open>What the callback makes of an error: a file that disappeared is ignored.\<close>

definition walk_err :: "go_err \<Rightarrow> go_err option" where
  "walk_err e = (if os_IsNotExist e then None else Some e)"

definition own_size :: "('db \<Rightarrow> u64) \<Rightarrow> string \<Rightarrow> 'db world \<Rightarrow> u64" where
  "own_size D p w = (case map_of (w_nodes w) (w_key w p) of Some (Directory (Some db)) \<Rightarrow> D db | _ \<Rightarrow> 0)"

text \<open>
  \<open>filepath.Walk\<close> with the callback of \<open>DirSize\<close>. The fuel is a bound on the depth of the tree; one more than the
  length of the longest path is enough.
\<close>

function walk ::
  "nat \<Rightarrow> ('db \<Rightarrow> u64) \<Rightarrow> string \<Rightarrow> bool \<times> u64 \<Rightarrow> u64 \<Rightarrow> 'db world \<Rightarrow> go_err option \<times> u64 \<times> 'db world"
and walk_names ::
  "nat \<Rightarrow> ('db \<Rightarrow> u64) \<Rightarrow> string \<Rightarrow> string list \<Rightarrow> u64 \<Rightarrow> 'db world \<Rightarrow> go_err option \<times> u64 \<times> 'db world" where
  "walk 0 D path info sz w = (Some (Panic ''walk''), sz, w)"
| "walk (Suc n) D path info sz w =
     (if \<not> fst info then (None, sz + snd info, w)
      else case os_ReadDir path w of
             (Inl e, w1) \<Rightarrow> (walk_err e, sz, w1)
           | (Inr names, w1) \<Rightarrow> walk_names n D path (map fst names) (sz + own_size D path w1) w1)"
| "walk_names n D path [] sz w = (None, sz, w)"
| "walk_names n D path (name # names) sz w =
     (case os_Lstat (filepath_Join path name) w of
        (Inl e, w1) \<Rightarrow>
          (case walk_err e of
             Some e1 \<Rightarrow> (Some e1, sz, w1)
           | None \<Rightarrow> walk_names n D path names sz w1)
      | (Inr info, w1) \<Rightarrow>
          (case walk n D (filepath_Join path name) info sz w1 of
             (Some e, sz1, w2) \<Rightarrow> (Some e, sz1, w2)
           | (None, sz1, w2) \<Rightarrow> walk_names n D path names sz1 w2))"
  by pat_completeness auto
termination
  by (relation "measures [\<lambda>x. case x of Inl (n, _) \<Rightarrow> n | Inr (n, _) \<Rightarrow> n,
        \<lambda>x. case x of Inl _ \<Rightarrow> 0 | Inr (_, _, _, names, _) \<Rightarrow> Suc (length names)]") auto

declare walk.simps(2) [simp del] walk_names.simps(2) [simp del]

definition walk_depth :: "'db world \<Rightarrow> nat" where
  "walk_depth w = Suc (Suc (fold max (map (\<lambda>e. length (fst e)) (w_nodes w)) 0))"

definition DirSize :: "('db \<Rightarrow> u64) \<Rightarrow> string \<Rightarrow> 'db world \<Rightarrow> (u64 \<times> go_err option) \<times> 'db world" where
  "DirSize D path w =
     (case os_Lstat path w of
        (Inl e, w1) \<Rightarrow> ((0, walk_err e), w1)
      | (Inr info, w1) \<Rightarrow>
          (case walk (walk_depth w) D path info 0 w1 of (err, sz, w2) \<Rightarrow> ((sz, err), w2)))"

subsection \<open>What it adds up\<close>

definition node_size :: "('db \<Rightarrow> u64) \<Rightarrow> 'db nodes \<Rightarrow> fskey \<Rightarrow> u64" where
  "node_size D ns k =
     (case map_of ns k of
        Some (RegFile bs) \<Rightarrow> of_nat (length bs)
      | Some (Directory (Some db)) \<Rightarrow> D db
      | _ \<Rightarrow> 0)"

abbreviation keys :: "'db nodes \<Rightarrow> fskey set" where
  "keys ns \<equiv> dom (map_of ns)"

definition tree_size :: "('db \<Rightarrow> u64) \<Rightarrow> 'db nodes \<Rightarrow> fskey \<Rightarrow> u64" where
  "tree_size D ns d = (\<Sum>k \<in> {k \<in> keys ns. below d k}. node_size D ns k)"

text \<open>A file system whose nodes all stand in a directory.\<close>

definition tree_ok :: "'db nodes \<Rightarrow> bool" where
  "tree_ok ns \<longleftrightarrow> (\<forall>k \<in> keys ns. k \<noteq> [] \<and> list_all plain_name k \<and> is_dir ns (butlast k))"

lemma is_dir_known: "is_dir ns k \<Longrightarrow> k \<noteq> [] \<Longrightarrow> k \<in> keys ns"
  by (auto simp: is_dir_def split: option.splits)

lemma tree_okD:
  assumes "tree_ok ns" and "k @ [n] \<in> keys ns"
  shows "is_dir ns k" and "plain_name n"
  using assms unfolding tree_ok_def by (metis butlast_snoc, metis list_all_append list.pred_inject(2))

lemma tree_prefix:
  assumes "tree_ok ns" and "k @ l \<in> keys ns" and "k \<noteq> []"
  shows "k \<in> keys ns"
  using assms(2)
proof (induction l rule: rev_induct)
  case (snoc a l)
  then have "is_dir ns (k @ l)" using tree_okD(1) [OF assms(1), of "k @ l" a] by simp
  then show ?case using snoc(1) is_dir_known assms(3) by blast
qed simp

lemma below_snocD: "below (d @ [n]) k \<Longrightarrow> below d k"
  unfolding below_def by (metis append_assoc append_eq_conv_conj append_take_drop_id)

lemma below_cases:
  assumes t: "tree_ok ns" and k: "k \<in> keys ns" and b: "below d k" and "k \<noteq> d"
  obtains n where "d @ [n] \<in> keys ns" and "below (d @ [n]) k"
proof -
  obtain l where l: "k = d @ l" using b by (metis append_take_drop_id below_def)
  with assms(4) obtain n l' where n: "l = n # l'" by (cases l) auto
  have "d @ [n] \<in> keys ns" using tree_prefix [OF t, of "d @ [n]" l'] k l n by simp
  moreover have "below (d @ [n]) k" using l n below_append [of "d @ [n]" l'] by simp
  ultimately show ?thesis by (rule that)
qed

lemma below_split:
  assumes "tree_ok ns"
  shows "{k \<in> keys ns. below d k} =
    {k \<in> keys ns. k = d} \<union> (\<Union>n \<in> {n. d @ [n] \<in> keys ns}. {k \<in> keys ns. below (d @ [n]) k})"
proof (intro equalityI subsetI)
  fix k assume "k \<in> {k \<in> keys ns. below d k}"
  then show "k \<in> {k \<in> keys ns. k = d} \<union> (\<Union>n \<in> {n. d @ [n] \<in> keys ns}. {k \<in> keys ns. below (d @ [n]) k})"
    using below_cases [OF assms, of k d] by blast
qed (use below_snocD in auto)

lemma tree_size_split:
  assumes "tree_ok ns"
  shows "tree_size D ns d = (if d \<in> keys ns then node_size D ns d else 0) +
    (\<Sum>n \<in> {n. d @ [n] \<in> keys ns}. tree_size D ns (d @ [n]))"
proof -
  let ?K = "keys ns" and ?N = "{n. d @ [n] \<in> keys ns}"
  have finK: "finite ?K" by (rule finite_dom_map_of)
  have "inj_on (\<lambda>n. d @ [n]) ?N" by (simp add: inj_on_def)
  then have fin: "finite ?N" by (rule inj_on_finite [where B = ?K]) (use finK in auto)
  have disj: "{k \<in> ?K. below (d @ [n]) k} \<inter> {k \<in> ?K. below (d @ [m]) k} = {}" if "n \<noteq> m" for n m
  proof -
    have "below (d @ [n]) k \<Longrightarrow> below (d @ [m]) k \<Longrightarrow> n = m" for k
      by (simp add: below_def)
    then show ?thesis using that by auto
  qed
  have "\<not> below (d @ [n]) d" for n by (simp add: below_def)
  then have "{k \<in> ?K. k = d} \<inter> (\<Union>n \<in> ?N. {k \<in> ?K. below (d @ [n]) k}) = {}" by auto
  then have "tree_size D ns d = (\<Sum>k \<in> {k \<in> ?K. k = d}. node_size D ns k) +
      (\<Sum>k \<in> (\<Union>n \<in> ?N. {k \<in> ?K. below (d @ [n]) k}). node_size D ns k)"
    unfolding tree_size_def below_split [OF assms, of d] using fin finK by (intro sum.union_disjoint) auto
  also have "(\<Sum>k \<in> (\<Union>n \<in> ?N. {k \<in> ?K. below (d @ [n]) k}). node_size D ns k) = (\<Sum>n \<in> ?N. tree_size D ns (d @ [n]))"
    unfolding tree_size_def using fin finK disj by (intro sum.UNION_disjoint) auto
  also have "{k \<in> ?K. k = d} = (if d \<in> ?K then {d} else {})" by auto
  finally show ?thesis by simp
qed

subsection \<open>The walk visits everything once\<close>

definition lstat_info :: "'db nodes \<Rightarrow> fskey \<Rightarrow> bool \<times> u64" where
  "lstat_info ns k = (is_dir ns k, case map_of ns k of Some (RegFile bs) \<Rightarrow> of_nat (length bs) | _ \<Rightarrow> 0)"

lemma root_unknown: "tree_ok ns \<Longrightarrow> map_of ns [] = None"
  by (auto simp: tree_ok_def)

lemma os_Lstat_healthy:
  assumes "healthy w" and "w_nodes w = ns" and "w_key w p = k" and "tree_ok ns"
  shows "os_Lstat p w = (if k = [] \<or> k \<in> keys ns then Inr (lstat_info ns k) else Inl OsNotExist, tick w)"
  using assms root_unknown [OF assms(4)]
  by (auto simp: os_Lstat_def fs_simps lstat_info_def is_dir_def split: option.splits node.splits)

text \<open>A file has nothing below it.\<close>

lemma file_size:
  assumes "tree_ok ns" and "\<not> is_dir ns k"
  shows "tree_size D ns k = snd (lstat_info ns k)"
proof -
  have none: "{n. k @ [n] \<in> keys ns} = {}" using tree_okD(1) [OF assms(1)] assms(2) by blast
  show ?thesis
    unfolding tree_size_split [OF assms(1), of D k] none
    using assms(2) by (auto simp: lstat_info_def node_size_def is_dir_def split: option.splits node.splits)
qed

definition walks :: "('db \<Rightarrow> u64) \<Rightarrow> 'db nodes \<Rightarrow> nat \<Rightarrow> bool" where
  "walks D ns n \<longleftrightarrow> (\<forall>path k sz w. healthy w \<longrightarrow> w_nodes w = ns \<longrightarrow> w_key w path = k \<longrightarrow> (k = [] \<or> k \<in> keys ns) \<longrightarrow>
     (\<forall>k' \<in> keys ns. below k k' \<longrightarrow> length k' \<le> length k + n) \<longrightarrow>
     (\<exists>w'. walk (Suc n) D path (lstat_info ns k) sz w = (None, sz + tree_size D ns k, w') \<and> quiet w w'))"

lemma walk_names_size:
  assumes "walks D ns n" and t: "tree_ok ns" and "healthy w" and "w_nodes w = ns" and "w_key w path = d"
    and "list_all (\<lambda>a. d @ [a] \<in> keys ns) names" and deep: "\<forall>k' \<in> keys ns. below d k' \<longrightarrow> length k' \<le> length d + Suc n"
  shows "\<exists>w'. walk_names (Suc n) D path names sz w = (None, sz + (\<Sum>a\<leftarrow>names. tree_size D ns (d @ [a])), w') \<and> quiet w w'"
  using assms(3-6)
proof (induction names arbitrary: sz w)
  case (Cons a names)
  have a: "d @ [a] \<in> keys ns" using Cons.prems(4) by simp
  have key: "w_key w (filepath_Join path a) = d @ [a]" using Cons.prems(3) tree_okD(2) [OF t a] by simp
  have st: "os_Lstat (filepath_Join path a) w = (Inr (lstat_info ns (d @ [a])), tick w)"
    using os_Lstat_healthy [OF Cons.prems(1,2) key t] a by simp
  have "\<forall>k' \<in> keys ns. below (d @ [a]) k' \<longrightarrow> length k' \<le> length (d @ [a]) + n"
    using deep below_snocD by fastforce
  moreover have "healthy (tick w)" "w_nodes (tick w) = ns" "w_key (tick w) (filepath_Join path a) = d @ [a]"
    using Cons.prems(1,2) key by simp_all
  ultimately obtain w1 where w1: "walk (Suc n) D (filepath_Join path a) (lstat_info ns (d @ [a])) sz (tick w)
      = (None, sz + tree_size D ns (d @ [a]), w1)" and q: "quiet (tick w) w1"
    using assms(1) a unfolding walks_def by metis
  have q1: "quiet w w1" using quiet_trans [OF quiet_tick q] .
  then obtain w2 where "walk_names (Suc n) D path names (sz + tree_size D ns (d @ [a])) w1
      = (None, sz + tree_size D ns (d @ [a]) + (\<Sum>a\<leftarrow>names. tree_size D ns (d @ [a])), w2)" "quiet w1 w2"
    using Cons.IH [of w1] Cons.prems quiet_healthy [OF q1] quiet_key [OF q1] by (auto simp: quiet_def)
  with st w1 q1 show ?case by (auto simp: walk_names.simps(2) add.assoc intro: quiet_trans)
qed simp

lemma dir_entries_names:
  "distinct (map fst (dir_entries d ns))" "set (map fst (dir_entries d ns)) = {n. d @ [n] \<in> keys ns}"
proof -
  show "distinct (map fst (dir_entries d ns))" by (simp add: dir_entries_def comp_def)
  show "set (map fst (dir_entries d ns)) = {n. d @ [n] \<in> keys ns}"
  proof (intro equalityI subsetI)
    fix n assume "n \<in> set (map fst (dir_entries d ns))"
    then obtain b where "(n, b) \<in> set (dir_entries d ns)" by auto
    then show "n \<in> {n. d @ [n] \<in> keys ns}" by (simp only: dir_entries_iff dom_map_of_conv_image_fst mem_Collect_eq)
  next
    fix n assume "n \<in> {n. d @ [n] \<in> keys ns}"
    then have "(n, is_dir ns (d @ [n])) \<in> set (dir_entries d ns)"
      by (simp only: dir_entries_iff dom_map_of_conv_image_fst mem_Collect_eq)
    then show "n \<in> set (map fst (dir_entries d ns))" by (auto intro: rev_image_eqI)
  qed
qed

lemma dir_size:
  assumes "tree_ok ns" and "is_dir ns k"
  shows "tree_size D ns k = (case map_of ns k of Some (Directory (Some db)) \<Rightarrow> D db | _ \<Rightarrow> 0) +
    (\<Sum>a\<leftarrow>map fst (dir_entries k ns). tree_size D ns (k @ [a]))"
proof -
  have "(if k \<in> keys ns then node_size D ns k else 0) = (case map_of ns k of Some (Directory (Some db)) \<Rightarrow> D db | _ \<Rightarrow> 0)"
    using assms root_unknown [OF assms(1)] by (auto simp: node_size_def is_dir_def split: option.splits node.splits)
  moreover have "(\<Sum>a\<leftarrow>map fst (dir_entries k ns). tree_size D ns (k @ [a])) = (\<Sum>n \<in> {n. k @ [n] \<in> keys ns}. tree_size D ns (k @ [n]))"
    using dir_entries_names [of k ns] by (simp only: sum_list_distinct_conv_sum_set)
  ultimately show ?thesis using tree_size_split [OF assms(1), of D k] by simp
qed

lemma walk_file:
  assumes "tree_ok ns" and "\<not> is_dir ns k"
  shows "walk (Suc n) D path (lstat_info ns k) sz w = (None, sz + tree_size D ns k, w)"
  using file_size [OF assms, of D] assms(2) by (simp add: walk.simps(2) lstat_info_def)

lemma walk_dir:
  assumes "healthy w" and "w_nodes w = ns" and "w_key w path = k" and "is_dir ns k"
  shows "walk (Suc n) D path (lstat_info ns k) sz w = walk_names n D path (map fst (dir_entries k ns))
    (sz + (case map_of ns k of Some (Directory (Some db)) \<Rightarrow> D db | _ \<Rightarrow> 0)) (tick w)"
  using assms by (simp add: walk.simps(2) lstat_info_def os_ReadDir_def fs_simps own_size_def)

lemma walk_size:
  assumes t: "tree_ok ns"
  shows "walks D ns n"
proof (induction n)
  case 0
  show ?case
    unfolding walks_def
  proof (intro allI impI)
    fix path k sz and w :: "'a world"
    assume w: "healthy w" "w_nodes w = ns" "w_key w path = k"
      and deep: "\<forall>k' \<in> keys ns. below k k' \<longrightarrow> length k' \<le> length k + 0"
    show "\<exists>w'. walk (Suc 0) D path (lstat_info ns k) sz w = (None, sz + tree_size D ns k, w') \<and> quiet w w'"
    proof (cases "is_dir ns k")
      case True
      have "k @ [n] \<notin> keys ns" for n using deep below_append [of k "[n]"] by fastforce
      then have "map fst (dir_entries k ns) = []" using dir_entries_names(2) [of k ns] by (metis (no_types, lifting) Collect_empty_eq set_empty)
      with walk_dir [OF w True] dir_size [OF t True, of D] show ?thesis by auto
    qed (use walk_file [OF t] in auto)
  qed
next
  case (Suc n)
  show ?case
    unfolding walks_def
  proof (intro allI impI)
    fix path k sz and w :: "'a world"
    assume w: "healthy w" "w_nodes w = ns" "w_key w path = k"
      and deep: "\<forall>k' \<in> keys ns. below k k' \<longrightarrow> length k' \<le> length k + Suc n"
    show "\<exists>w'. walk (Suc (Suc n)) D path (lstat_info ns k) sz w = (None, sz + tree_size D ns k, w') \<and> quiet w w'"
    proof (cases "is_dir ns k")
      case True
      let ?own = "case map_of ns k of Some (Directory (Some db)) \<Rightarrow> D db | _ \<Rightarrow> 0"
      have names: "list_all (\<lambda>a. k @ [a] \<in> keys ns) (map fst (dir_entries k ns))"
        using dir_entries_names(2) [of k ns] by (simp only: list_all_iff) blast
      have w': "healthy (tick w)" "w_nodes (tick w) = ns" "w_key (tick w) path = k" using w by simp_all
      obtain w2 where "walk_names (Suc n) D path (map fst (dir_entries k ns)) (sz + ?own) (tick w)
          = (None, sz + ?own + (\<Sum>a\<leftarrow>map fst (dir_entries k ns). tree_size D ns (k @ [a])), w2)" "quiet (tick w) w2"
        using walk_names_size [OF Suc.IH t w' names deep] by blast
      with walk_dir [OF w True, of "Suc n" D sz] dir_size [OF t True, of D] show ?thesis
        by (auto simp: add.assoc intro: quiet_trans [OF quiet_tick])
    qed (use walk_file [OF t] in auto)
  qed
qed

lemma fold_max_le: "x \<in> set xs \<or> x \<le> y \<Longrightarrow> x \<le> fold max xs (y :: nat)"
proof (induction xs arbitrary: y)
  case (Cons a xs)
  have "x \<in> set xs \<or> x \<le> max a y" using Cons.prems by auto
  then show ?case using Cons.IH by simp
qed simp

text \<open>The depth that is chosen is enough, and the result is the sum over everything below the path.\<close>

lemma DirSize_sum:
  assumes h: "healthy w" and t: "tree_ok (w_nodes w)"
  shows "\<exists>w'. DirSize D path w = ((tree_size D (w_nodes w) (w_key w path), None), w') \<and> quiet w w'"
proof (cases "w_key w path = [] \<or> w_key w path \<in> keys (w_nodes w)")
  case True
  let ?ns = "w_nodes w" and ?k = "w_key w path"
  have st: "os_Lstat path w = (Inr (lstat_info ?ns ?k), tick w)" using os_Lstat_healthy [OF h refl refl t] True by simp
  obtain n where n: "walk_depth w = Suc n" by (simp add: walk_depth_def)
  have "length k' \<le> length ?k + n" if k': "k' \<in> keys ?ns" for k'
  proof -
    obtain v where "(k', v) \<in> set ?ns" using k' map_of_SomeD by fastforce
    then have "length k' \<in> set (map (\<lambda>e. length (fst e)) ?ns)" by (force simp: image_iff)
    from fold_max_le [OF disjI1, OF this, of 0] n show ?thesis by (simp add: walk_depth_def)
  qed
  then obtain w' where "walk (Suc n) D path (lstat_info ?ns ?k) 0 (tick w) = (None, 0 + tree_size D ?ns ?k, w')" "quiet (tick w) w'"
    using walk_size [OF t, of D n] h True unfolding walks_def by (metis healthy_tick tick_simps)
  with st show ?thesis by (auto simp: DirSize_def n intro: quiet_trans [OF quiet_tick])
next
  case False
  have "{k \<in> keys (w_nodes w). below (w_key w path) k} = {}"
  proof -
    have "k \<notin> keys (w_nodes w)" if "below (w_key w path) k" for k
      using that False tree_prefix [OF t, of "w_key w path"] unfolding below_def by (metis append_take_drop_id)
    then show ?thesis by blast
  qed
  then have "tree_size D (w_nodes w) (w_key w path) = 0" unfolding tree_size_def by (simp only: sum.empty)
  with os_Lstat_healthy [OF h refl refl t, of path] False show ?thesis
    by (simp add: DirSize_def walk_err_def os_IsNotExist_def)
qed

subsection \<open>Statistics\<close>

text \<open>
  Times are nanoseconds since the zero time; one that was never set is the zero time, in UTC, any other has the
  local offset from UTC, in seconds. A size is a signed 64-bit number.
\<close>

definition time_text :: "int \<Rightarrow> int \<Rightarrow> string" where
  "time_text offset t = Format_RFC3339 (if t = 0 then 0 else offset) t"

definition GUint :: "u64 \<Rightarrow> gval" where
  "GUint n = GInt (uint n)"

definition GInt64 :: "u64 \<Rightarrow> gval" where
  "GInt64 n = GInt (sint n)"

definition fsm_Stats :: "('db \<Rightarrow> u64) \<Rightarrow> int \<Rightarrow> StateMachine \<Rightarrow> 'db world \<Rightarrow> gval result \<times> 'db world" where
  "fsm_Stats D offset r w =
     (case DirSize D (st_baseDir (sm_store r)) w of
        ((_, Some e), w1) \<Rightarrow> (Inl e, w1)
      | ((dirSz, None), w1) \<Rightarrow>
          (let metrics = sm_metrics r
           in (Inr (GMap
                [(''fsm_index'', GUint (GetFsmIndex r)),
                 (''fsm_dir'', GStr (st_baseDir (sm_store r))),
                 (''fsm_dir_size'', GInt64 dirSz),
                 (''snapshot_count'', GUint (mt_SnapshotCount metrics)),
                 (''restore_count'', GUint (mt_RestoreCount metrics)),
                 (''last_snapshot_duration'', GStr (Duration_String (mt_LastSnapshotDuration metrics))),
                 (''last_snapshot_size'', GInt64 (mt_LastSnapshotSize metrics)),
                 (''last_snapshot_records'', GUint (mt_LastSnapshotRecords metrics)),
                 (''last_snapshot_time'', GStr (time_text offset (mt_LastSnapshotTime metrics))),
                 (''last_restore_duration'', GStr (Duration_String (mt_LastRestoreDuration metrics))),
                 (''last_restore_time'', GStr (time_text offset (mt_LastRestoreTime metrics)))]), w1)))"

lemma utf8_numbers [simp]: "utf8_val (GUint n)" "utf8_val (GInt64 n)"
  by (simp_all add: GUint_def GInt64_def)

lemma utf8_GMap: "list_all (\<lambda>(k, v). valid_utf8 (bytes_of k) \<and> utf8_val v) ms \<Longrightarrow> utf8_val (GMap ms)"
  by (simp add: GMap_def list_all_iff)

lemma fsm_Stats_utf8:
  assumes "fsm_Stats D offset r w = (Inr v, w')" and "valid_utf8 (bytes_of (st_baseDir (sm_store r)))"
  shows "utf8_val v"
proof -
  have names: "valid_utf8 (bytes_of s)" if "ascii s" for s using that by (rule ascii_utf8)
  have time: "valid_utf8 (bytes_of (time_text offset t))" for t
    unfolding time_text_def by (intro ascii_utf8 ascii_RFC3339)
  show ?thesis
    using assms unfolding fsm_Stats_def Let_def
    by (auto simp: names time Duration_utf8 byte_of_def intro!: utf8_GMap split: prod.splits option.splits)
qed

end
