(* ===== verification/Engine_Stats.thy ===== *)
theory Engine_Stats
  imports Engine_Start Fsm_Stats
begin

text \<open>
  The statistics of a server, \<open>Stats\<close> of \<open>engine/kv.go\<close> with \<open>logSize\<close> of \<open>engine/raft.go\<close>. What the raft library reports
  about itself, and the counters of its observer, are arguments.
\<close>

record 'r raft_stats =
  rs_Stats :: "'r \<Rightarrow> (string \<times> string) list"
  rs_NumObserved :: "'r \<Rightarrow> u64"
  rs_NumDropped :: "'r \<Rightarrow> u64"

definition logSize :: "('db \<Rightarrow> u64) \<Rightarrow> ('r, 'db) raftServer \<Rightarrow> u64 result \<times> ('r, 'db) raftServer" where
  "logSize D s =
     (case DirSize D (filepath_Join (nd_raftDir s) raftDBPath) (nd_world s) of
        ((sz, None), w1) \<Rightarrow> (Inr sz, s\<lparr>nd_world := w1\<rparr>)
      | ((sz, Some e), w1) \<Rightarrow> (Inl e, s\<lparr>nd_world := w1\<rparr>))"

text \<open>A number where the text is one.\<close>

definition stat_number :: "string \<Rightarrow> gval" where
  "stat_number v = (case ParseInt v of Inl e \<Rightarrow> GStr v | Inr i \<Rightarrow> GInt i)"

text \<open>A server as an object; empty fields are left out.\<close>

definition server_val :: "Server \<Rightarrow> gval" where
  "server_val x = GObj (filter (\<lambda>(k, v). v \<noteq> GStr [])
     [(''id'', GStr (sv_ID x)), (''addr'', GStr (sv_Addr x)), (''suffrage'', GStr (sv_Suffrage x))])"

definition stats_val ::
  "('r, 'db) raft_ops \<Rightarrow> 'r raft_stats \<Rightarrow> ('r, 'db) raftServer \<Rightarrow> Server list \<Rightarrow> (string \<times> gval) list \<Rightarrow> u64 \<Rightarrow> gval \<Rightarrow> gval" where
  "stats_val R S s nodes raftStats dirSz fsmStats =
     GMap
       [(''node_id'', GStr (nd_raftId s)),
        (''raft'', GMap raftStats),
        (''db_applied_index'', GUint (nd_dbAppliedIndex s)),
        (''last_applied_index'', GUint (rf_AppliedIndex R (nd_raft s))),
        (''addr'', GStr (nd_raftAddr s)),
        (''leader'', GMap [(''node_id'', GStr (snd (rf_LeaderWithID R (nd_raft s)))),
                           (''addr'', GStr (fst (rf_LeaderWithID R (nd_raft s))))]),
        (''observer'', GMap [(''observed'', GUint (rs_NumObserved S (nd_raft s))),
                             (''dropped'', GUint (rs_NumDropped S (nd_raft s)))]),
        (''nodes'', GSlice (map server_val nodes)),
        (''raft_dir'', GStr (nd_raftDir s)),
        (''raft_dir_size'', GInt64 dirSz),
        (''fsm'', fsmStats)]"

definition raft_Stats ::
  "('r, 'db) raft_ops \<Rightarrow> 'r raft_stats \<Rightarrow> ('db \<Rightarrow> u64) \<Rightarrow> int \<Rightarrow> ('r, 'db) raftServer \<Rightarrow> gval result \<times> ('r, 'db) raftServer" where
  "raft_Stats R S D offset s =
     (case Nodes R s of
        Inl e \<Rightarrow> (Inl e, s)
      | Inr nodes \<Rightarrow>
          (let raftStats = map (\<lambda>(k, v). (k, stat_number v)) (rs_Stats S (nd_raft s))
           in case logSize D s of
                (Inl e, s1) \<Rightarrow> (Inl e, s1)
              | (Inr logSz, s1) \<Rightarrow>
                  (let raftStats1 = map_set ''log_size'' (GInt64 logSz) raftStats
                   in case IsVoter R s1 of
                        Inl e \<Rightarrow> (Inl e, s1)
                      | Inr voter \<Rightarrow>
                          (let raftStats2 = map_set ''voter'' (GBool voter) raftStats1
                           in case DirSize D (nd_raftDir s1) (nd_world s1) of
                                ((_, Some e), w2) \<Rightarrow> (Inl e, s1\<lparr>nd_world := w2\<rparr>)
                              | ((dirSz, None), w2) \<Rightarrow>
                                  (case fsm_Stats D offset (nd_store s1) w2 of
                                     (Inl e, w3) \<Rightarrow> (Inl e, s1\<lparr>nd_world := w3\<rparr>)
                                   | (Inr fsmStats, w3) \<Rightarrow>
                                       (Inr (stats_val R S s1 nodes raftStats2 dirSz fsmStats), s1\<lparr>nd_world := w3\<rparr>))))))"

subsection \<open>What is reported\<close>

text \<open>On a healthy file system only a failing configuration can stop the statistics, and they change nothing.\<close>

lemma raft_Stats_ok:
  assumes h: "healthy (nd_world s)" and t: "tree_ok (w_nodes (nd_world s))" and n: "Nodes R s = Inr nodes"
  shows "\<exists>voter fsmStats w0 w'. IsVoter R s = Inr voter \<and>
    fsm_Stats D offset (nd_store s) w0 = (Inr fsmStats, w') \<and> quiet (nd_world s) w' \<and>
    raft_Stats R S D offset s =
      (Inr (stats_val R S s nodes
         (map_set ''voter'' (GBool voter)
           (map_set ''log_size'' (GInt64 (tree_size D (w_nodes (nd_world s)) (w_key (nd_world s) (filepath_Join (nd_raftDir s) raftDBPath))))
             (map (\<lambda>(k, v). (k, stat_number v)) (rs_Stats S (nd_raft s)))))
         (tree_size D (w_nodes (nd_world s)) (w_key (nd_world s) (nd_raftDir s))) fsmStats),
       s\<lparr>nd_world := w'\<rparr>)"
proof -
  let ?w = "nd_world s"
  have "\<exists>voter. IsVoter R s = Inr voter"
    using n by (auto simp: Nodes_def IsVoter_def split: sum.splits option.splits)
  then obtain voter where v: "IsVoter R s = Inr voter" by blast
  have v': "IsVoter R (s\<lparr>nd_world := x\<rparr>) = Inr voter" for x using v by (simp add: IsVoter_def cong: sum.case_cong)
  obtain w1 where w1: "DirSize D (filepath_Join (nd_raftDir s) raftDBPath) ?w
      = ((tree_size D (w_nodes ?w) (w_key ?w (filepath_Join (nd_raftDir s) raftDBPath)), None), w1)" and q1: "quiet ?w w1"
    using DirSize_sum [OF h t] by blast
  have s1: "w_nodes w1 = w_nodes ?w" "w_key w1 p = w_key ?w p" for p using q1 by (auto simp: quiet_def same_env_def)
  obtain w2 where w2: "DirSize D (nd_raftDir s) w1 = ((tree_size D (w_nodes ?w) (w_key ?w (nd_raftDir s)), None), w2)" and q2: "quiet w1 w2"
    using DirSize_sum [OF quiet_healthy [OF q1 h], of D "nd_raftDir s"] t by (auto simp: s1)
  have s2: "w_nodes w2 = w_nodes w1" using q2 by (simp add: quiet_def)
  obtain w3 sz where w3: "DirSize D (st_baseDir (sm_store (nd_store s))) w2 = ((sz, None), w3)" and q3: "quiet w2 w3"
    using DirSize_sum [OF quiet_healthy [OF q2 quiet_healthy [OF q1 h]], of D] t by (force simp: s1 s2)
  obtain fsmStats where f: "fsm_Stats D offset (nd_store s) w2 = (Inr fsmStats, w3)"
    using w3 by (simp add: fsm_Stats_def Let_def)
  have "stats_val R S (s\<lparr>nd_world := x\<rparr>) = stats_val R S s" for x by (simp add: stats_val_def fun_eq_iff)
  then have "raft_Stats R S D offset s =
      (Inr (stats_val R S s nodes
         (map_set ''voter'' (GBool voter)
           (map_set ''log_size'' (GInt64 (tree_size D (w_nodes ?w) (w_key ?w (filepath_Join (nd_raftDir s) raftDBPath))))
             (map (\<lambda>(k, v). (k, stat_number v)) (rs_Stats S (nd_raft s)))))
         (tree_size D (w_nodes ?w) (w_key ?w (nd_raftDir s))) fsmStats),
       s\<lparr>nd_world := w3\<rparr>)"
    by (simp add: raft_Stats_def n logSize_def w1 v' w2 f Let_def)
  with v f quiet_trans [OF quiet_trans [OF q1 q2] q3] show ?thesis by blast
qed

text \<open>Every name that is reported is valid UTF-8.\<close>

definition reported :: "('r, 'db) raft_ops \<Rightarrow> 'r raft_stats \<Rightarrow> ('r, 'db) raftServer \<Rightarrow> string list" where
  "reported R S s =
     [nd_raftId s, nd_raftAddr s, nd_raftDir s, fst (rf_LeaderWithID R (nd_raft s)), snd (rf_LeaderWithID R (nd_raft s)),
      st_baseDir (sm_store (nd_store s))] @
     map fst (rs_Stats S (nd_raft s)) @ map snd (rs_Stats S (nd_raft s)) @
     (case Nodes R s of Inl e \<Rightarrow> [] | Inr nodes \<Rightarrow> map sv_ID nodes @ map sv_Addr nodes @ map sv_Suffrage nodes)"

abbreviation utf8_names :: "string list \<Rightarrow> bool" where
  "utf8_names ss \<equiv> list_all (\<lambda>s. valid_utf8 (bytes_of s)) ss"

lemma utf8_stat_number: "valid_utf8 (bytes_of v) \<Longrightarrow> utf8_val (stat_number v)"
  by (auto simp: stat_number_def split: sum.splits)

lemma utf8_map_set:
  "valid_utf8 (bytes_of k) \<Longrightarrow> utf8_val v \<Longrightarrow> list_all (\<lambda>(k, v). valid_utf8 (bytes_of k) \<and> utf8_val v) ms \<Longrightarrow>
   list_all (\<lambda>(k, v). valid_utf8 (bytes_of k) \<and> utf8_val v) (map_set k v ms)"
  by (auto simp: map_set_def list_all_iff)

lemma utf8_lib_stats:
  "utf8_names (map fst kvs) \<Longrightarrow> utf8_names (map snd kvs) \<Longrightarrow>
   list_all (\<lambda>(k, v). valid_utf8 (bytes_of k) \<and> utf8_val v) (map (\<lambda>(k, v). (k, stat_number v)) kvs)"
  by (induction kvs) (auto intro: utf8_stat_number)

lemma utf8_server_val:
  assumes "utf8_names [sv_ID x, sv_Addr x, sv_Suffrage x]"
  shows "utf8_val (server_val x)"
proof -
  have "valid_utf8 (bytes_of s)" if "ascii s" for s using that by (rule ascii_utf8)
  with assms show ?thesis by (simp add: server_val_def byte_of_def)
qed

lemma stats_val_utf8:
  assumes names: "utf8_names (reported R S s)" and n: "Nodes R s = Inr nodes" and f: "utf8_val fsmStats"
    and rs: "list_all (\<lambda>(k, v). valid_utf8 (bytes_of k) \<and> utf8_val v) raftStats"
  shows "utf8_val (stats_val R S s nodes raftStats dirSz fsmStats)"
proof -
  have asc: "valid_utf8 (bytes_of s)" if "ascii s" for s using that by (rule ascii_utf8)
  have ns: "list_all utf8_val (map server_val nodes)"
    using names n by (auto simp: reported_def list_all_iff intro!: utf8_server_val)
  have top: "utf8_names [nd_raftId s, nd_raftAddr s, nd_raftDir s, fst (rf_LeaderWithID R (nd_raft s)), snd (rf_LeaderWithID R (nd_raft s))]"
    using names by (simp add: reported_def)
  show ?thesis
    unfolding stats_val_def
    by (rule utf8_GMap) (use ns top f rs in \<open>auto simp: asc byte_of_def intro!: utf8_GMap\<close>)
qed

subsection \<open>Looking a value up\<close>

fun gpath :: "gval \<Rightarrow> string list \<Rightarrow> gval option" where
  "gpath v [] = Some v"
| "gpath v (k # ks) = (case gfield v k of None \<Rightarrow> None | Some v1 \<Rightarrow> gpath v1 ks)"

fun jpath :: "json \<Rightarrow> string list \<Rightarrow> json option" where
  "jpath j [] = Some j"
| "jpath j (k # ks) = (case jfield j k of None \<Rightarrow> None | Some j1 \<Rightarrow> jpath j1 ks)"

lemma jpath_json_of: "jpath (json_of v) ks = map_option json_of (gpath v ks)"
  by (induction v ks rule: gpath.induct) (auto simp: jfield_json_of split: option.splits)

lemma gpath_GMap [simp]:
  "distinct (map fst ms) \<Longrightarrow> gpath (GMap ms) (k # ks) = (case map_of ms k of None \<Rightarrow> None | Some v \<Rightarrow> gpath v ks)"
  by (simp add: gfield_GMap)

lemma stats_val_fields:
  assumes "distinct (map fst raftStats)"
  shows "gpath (stats_val R S s nodes raftStats dirSz fsmStats) [''node_id''] = Some (GStr (nd_raftId s))"
    and "gpath (stats_val R S s nodes raftStats dirSz fsmStats) [''raft'', k] = map_of raftStats k"
    and "gpath (stats_val R S s nodes raftStats dirSz fsmStats) [''db_applied_index''] = Some (GUint (nd_dbAppliedIndex s))"
    and "gpath (stats_val R S s nodes raftStats dirSz fsmStats) [''last_applied_index''] = Some (GUint (rf_AppliedIndex R (nd_raft s)))"
    and "gpath (stats_val R S s nodes raftStats dirSz fsmStats) [''leader'', ''addr''] = Some (GStr (fst (rf_LeaderWithID R (nd_raft s))))"
    and "gpath (stats_val R S s nodes raftStats dirSz fsmStats) [''nodes''] = Some (GSlice (map server_val nodes))"
    and "gpath (stats_val R S s nodes raftStats dirSz fsmStats) [''raft_dir_size''] = Some (GInt64 dirSz)"
    and "gpath (stats_val R S s nodes raftStats dirSz fsmStats) (''fsm'' # ks) = gpath fsmStats ks"
  using assms by (simp_all add: stats_val_def del: gpath.simps(2) split: option.splits)

lemma fsm_Stats_fields:
  assumes "fsm_Stats D offset r w = (Inr v, w')"
  shows "gpath v [''fsm_index''] = Some (GUint (GetFsmIndex r))"
    and "gpath v [''snapshot_count''] = Some (GUint (mt_SnapshotCount (sm_metrics r)))"
    and "gpath v [''last_snapshot_records''] = Some (GUint (mt_LastSnapshotRecords (sm_metrics r)))"
  using assms by (auto simp: fsm_Stats_def Let_def simp del: gpath.simps(2) split: prod.splits option.splits)

end
