(* ===== verification/Cmd.thy ===== *)
theory Cmd
  imports Prelude
begin

text \<open>
  The random identifiers of the client, \<open>cmd/cmd.go\<close>. The random source is an argument: \<open>src i\<close> is what the
  \<open>i\<close>-th call of \<open>randomBytes\<close> returns. The loop of \<open>randomBytesMod\<close> may run forever, so it has fuel.
\<close>

definition idChars :: string where
  "idChars = ''ABCDEFGHIJKLMNOPQRSTUVWXYZabcdefghijklmnopqrstuvwxyz0123456789''"

text \<open>The bytes of one call: \<open>b\<close> holds what was written so far, its length is the index \<open>i\<close> of the code.\<close>

fun scan_bytes :: "byte \<Rightarrow> byte \<Rightarrow> nat \<Rightarrow> bytes \<Rightarrow> bytes \<Rightarrow> bytes + bytes" where
  "scan_bytes maxrb m len [] b = Inl b"
| "scan_bytes maxrb m len (c # r) b =
     (if maxrb < c then scan_bytes maxrb m len r b
      else let b1 = b @ [c mod m]
           in if length b1 = len then Inr b1 else scan_bytes maxrb m len r b1)"

fun random_loop :: "nat \<Rightarrow> (nat \<Rightarrow> bytes) \<Rightarrow> byte \<Rightarrow> byte \<Rightarrow> nat \<Rightarrow> nat \<Rightarrow> bytes \<Rightarrow> bytes option" where
  "random_loop 0 src maxrb m len i b = None"
| "random_loop (Suc n) src maxrb m len i b =
     (case scan_bytes maxrb m len (src i) b of
        Inr b1 \<Rightarrow> Some b1
      | Inl b1 \<Rightarrow> random_loop n src maxrb m len (Suc i) b1)"

definition max_random :: "byte \<Rightarrow> byte" where
  "max_random m = 255 - of_nat (256 mod unat m)"

text \<open>The modulus is not 0; with 0 the code divides by zero.\<close>

definition randomBytesMod :: "nat \<Rightarrow> (nat \<Rightarrow> bytes) \<Rightarrow> nat \<Rightarrow> byte \<Rightarrow> bytes option" where
  "randomBytesMod fuel src len m = random_loop fuel src (max_random m) m len 0 []"

text \<open>The length of a call of \<open>randomBytes\<close> made for a result of some length.\<close>

definition request_length :: "nat \<Rightarrow> nat" where
  "request_length len = len + len div 4"

definition randomId :: "nat \<Rightarrow> (nat \<Rightarrow> bytes) \<Rightarrow> nat \<Rightarrow> string option" where
  "randomId fuel src idLen =
     map_option (map (\<lambda>c. idChars ! unat c)) (randomBytesMod fuel src idLen (of_nat (length idChars)))"

subsection \<open>What the loop returns\<close>

lemma scan_bytes_ok:
  assumes "0 < m" and "list_all (\<lambda>c. c < m) b" and "length b < len"
  shows "case scan_bytes maxrb m len r b of
      Inl b1 \<Rightarrow> list_all (\<lambda>c. c < m) b1 \<and> length b1 < len \<and> length b1 = length b + length (filter (\<lambda>c. c \<le> maxrb) r)
    | Inr b1 \<Rightarrow> list_all (\<lambda>c. c < m) b1 \<and> length b1 = len \<and> len \<le> length b + length (filter (\<lambda>c. c \<le> maxrb) r)"
  using assms
proof (induction r arbitrary: b)
  case (Cons c r)
  have "c mod m < m" using Cons.prems(1) by (simp add: word_mod_less_divisor)
  with Cons.IH [of b] Cons.IH [of "b @ [c mod m]"] Cons.prems show ?case
    by (auto simp: Let_def not_less split: sum.splits)
qed simp

lemma random_loop_ok:
  assumes "0 < m" and "random_loop n src maxrb m len i b = Some out" and "list_all (\<lambda>c. c < m) b" and "length b < len"
  shows "list_all (\<lambda>c. c < m) out \<and> length out = len"
  using assms(2-)
proof (induction n arbitrary: i b)
  case (Suc n)
  with scan_bytes_ok [OF assms(1), of b len maxrb "src i"] show ?case by (auto split: sum.splits)
qed simp

text \<open>The loop returns as soon as enough bytes at or below the bound have come.\<close>

lemma random_loop_returns:
  assumes "0 < m" and "list_all (\<lambda>c. c < m) b" and "length b < len"
    and "len \<le> length b + (\<Sum>j \<in> {i..<i + n}. length (filter (\<lambda>c. c \<le> maxrb) (src j)))"
  shows "\<exists>out. random_loop n src maxrb m len i b = Some out"
  using assms(2-)
proof (induction n arbitrary: i b)
  case (Suc n)
  have sum: "(\<Sum>j \<in> {i..<i + Suc n}. length (filter (\<lambda>c. c \<le> maxrb) (src j)))
      = length (filter (\<lambda>c. c \<le> maxrb) (src i)) + (\<Sum>j \<in> {Suc i..<Suc i + n}. length (filter (\<lambda>c. c \<le> maxrb) (src j)))"
    by (simp add: sum.atLeast_Suc_lessThan)
  show ?case
  proof (cases "scan_bytes maxrb m len (src i) b")
    case (Inl b1)
    with scan_bytes_ok [OF assms(1) Suc.prems(1,2), of maxrb "src i"] Suc.IH [of b1 "Suc i"] Suc.prems(3) sum
    show ?thesis by simp
  qed simp
qed simp

lemma max_random_nat:
  assumes "0 < m"
  shows "unat (max_random m) = 255 - 256 mod unat m"
proof -
  have "256 mod unat m < unat m" using assms by (simp add: word_less_nat_alt)
  moreover have "unat m \<le> 255" using unsigned_less [of m, where 'a = nat] by simp
  ultimately have "256 mod unat m \<le> 255" by linarith
  then show ?thesis by (simp add: max_random_def unat_sub unat_of_nat word_le_nat_alt)
qed

lemma randomId_returns:
  assumes "0 < idLen" and "idLen \<le> (\<Sum>j < fuel. length (filter (\<lambda>c. c \<le> max_random 62) (src j)))"
  shows "\<exists>s. randomId fuel src idLen = Some s \<and> length s = idLen \<and> set s \<subseteq> set idChars"
proof -
  have m: "(of_nat (length idChars) :: byte) = 62" by (simp add: idChars_def)
  obtain out where out: "random_loop fuel src (max_random 62) 62 idLen 0 [] = Some out"
    using random_loop_returns [where m = 62 and b = "[]" and len = idLen and i = 0 and n = fuel and maxrb = "max_random 62" and src = src] assms by (auto simp: lessThan_atLeast0)
  then have ok: "list_all (\<lambda>c. c < 62) out \<and> length out = idLen"
    using random_loop_ok [of 62 fuel src "max_random 62" idLen 0 "[]" out] assms(1) by simp
  have "idChars ! unat c \<in> set idChars" if "c < 62" for c :: byte
  proof (rule nth_mem)
    have "unat c < 62" using that by (simp add: word_less_nat_alt)
    then show "unat c < length idChars" by (simp add: idChars_def)
  qed
  with ok out show ?thesis unfolding randomId_def randomBytesMod_def m by (auto simp: list_all_iff)
qed

text \<open>Each residue is hit by equally many of the bytes that are kept.\<close>

lemma mod_block_card:
  assumes "0 < (m :: nat)" and "v < m"
  shows "card {c. c < k * m \<and> c mod m = v} = k"
proof -
  have "bij_betw (\<lambda>q. q * m + v) {..<k} {c. c < k * m \<and> c mod m = v}"
  proof (rule bij_betwI')
    fix x y assume "x \<in> {..<k}" "y \<in> {..<k}"
    then show "(x * m + v = y * m + v) = (x = y)" using assms by auto
  next
    fix x assume "x \<in> {..<k}"
    then have "x * m + v < Suc x * m" "Suc x * m \<le> k * m" using assms mult_le_mono1 [of "Suc x" k m] by simp_all
    then show "x * m + v \<in> {c. c < k * m \<and> c mod m = v}" using assms by auto
  next
    fix y assume y: "y \<in> {c. c < k * m \<and> c mod m = v}"
    then have "y = (y div m) * m + v" by (metis (mono_tags, lifting) div_mult_mod_eq mem_Collect_eq)
    moreover have "y div m < k" using y assms by (simp add: less_mult_imp_div_less)
    ultimately show "\<exists>x \<in> {..<k}. y = x * m + v" by blast
  qed
  then show ?thesis by (metis bij_betw_same_card card_lessThan)
qed

end
