(* ===== verification/Blocking_Query.thy ===== *)
theory Blocking_Query
  imports Fsm_Machine
begin

text \<open>
  Blocking queries, \<open>service/blocking_query.go\<close>, and the watches built on them. A query runs beside the
  state machine: its steps are interleaved with steps of the environment, which applies log entries,
  restores snapshots and lets the deadline pass.
\<close>

record BlockingQueryResult =
  bq_Value :: bytes
  bq_CurrentIndex :: u64
  bq_Abandoned :: bool

definition BlockingQueryTimeout :: int where
  "BlockingQueryTimeout = 5 * 60 * 1000000000"

subsection \<open>The query as a state machine\<close>

text \<open>
  \<open>be_query\<close> is what \<open>queryFn\<close> returns at this moment, \<open>be_expired\<close> says that the timeout context is done.
  A query is at its first call of \<open>queryFn\<close>, at the head of the loop, blocked in the select on the channel
  that \<open>AbandonCh\<close> gave when the select was entered, at a later call of \<open>queryFn\<close>, or finished.
\<close>

record bq_env =
  be_machine :: StateMachine
  be_expired :: bool
  be_query :: "(bytes \<times> u64) result"

datatype bq_pc =
    BqFirst
  | BqLoop bytes u64
  | BqSelect nat bytes u64
  | BqRequery
  | BqDone "BlockingQueryResult result"

datatype bq_case = OnDone | OnAbandon | OnTick

definition bq_timeout :: "int \<Rightarrow> int" where
  "bq_timeout timeout = (if timeout = 0 then BlockingQueryTimeout else timeout)"

text \<open>A step of the query; the case is the branch of the select that is taken, and must be ready.\<close>

fun BlockingQuery :: "u64 \<Rightarrow> bq_env \<Rightarrow> bq_case \<Rightarrow> bq_pc \<Rightarrow> bq_pc option" where
  "BlockingQuery minIndex e c BqFirst =
     Some (case be_query e of
        Inl err \<Rightarrow> BqDone (Inl err)
      | Inr (val, currentIndex) \<Rightarrow>
          if minIndex = 0 \<or> minIndex \<le> currentIndex
          then BqDone (Inr \<lparr>bq_Value = val, bq_CurrentIndex = currentIndex, bq_Abandoned = False\<rparr>)
          else BqLoop val currentIndex)"
| "BlockingQuery minIndex e c (BqLoop val currentIndex) =
     Some (BqSelect (AbandonCh (be_machine e)) val currentIndex)"
| "BlockingQuery minIndex e OnDone (BqSelect ch val currentIndex) =
     (if be_expired e
      then Some (BqDone (Inr \<lparr>bq_Value = val, bq_CurrentIndex = currentIndex, bq_Abandoned = False\<rparr>))
      else None)"
| "BlockingQuery minIndex e OnAbandon (BqSelect ch val currentIndex) =
     (if ch \<in> set (sm_closedChs (be_machine e))
      then Some (BqDone (Inr \<lparr>bq_Value = [], bq_CurrentIndex = 0, bq_Abandoned = True\<rparr>))
      else None)"
| "BlockingQuery minIndex e OnTick (BqSelect ch val currentIndex) = Some BqRequery"
| "BlockingQuery minIndex e c BqRequery =
     Some (case be_query e of
        Inl err \<Rightarrow> BqDone (Inl err)
      | Inr (val, currentIndex) \<Rightarrow>
          if minIndex \<le> currentIndex
          then BqDone (Inr \<lparr>bq_Value = val, bq_CurrentIndex = currentIndex, bq_Abandoned = False\<rparr>)
          else BqLoop val currentIndex)"
| "BlockingQuery minIndex e c (BqDone res) = None"

subsection \<open>The environment\<close>

text \<open>
  An operation of the state machine leaves its abandon channel alone or replaces and closes it. A
  context that is done stays done.
\<close>

definition same_chans :: "StateMachine \<Rightarrow> StateMachine \<Rightarrow> bool" where
  "same_chans r r' \<longleftrightarrow> sm_abandonCh r' = sm_abandonCh r \<and> sm_nextCh r' = sm_nextCh r \<and> sm_closedChs r' = sm_closedChs r"

definition chan_step :: "StateMachine \<Rightarrow> StateMachine \<Rightarrow> bool" where
  "chan_step r r' \<longleftrightarrow> same_chans r r' \<or> same_chans (abandon r) r'"

definition env_step :: "bq_env \<Rightarrow> bq_env \<Rightarrow> bool" where
  "env_step e e' \<longleftrightarrow> chan_step (be_machine e) (be_machine e') \<and> (be_expired e \<longrightarrow> be_expired e')"

inductive bq_run :: "u64 \<Rightarrow> bq_pc \<Rightarrow> bq_env \<Rightarrow> bq_pc \<Rightarrow> bq_env \<Rightarrow> bool" for minIndex p e where
  bq_refl: "bq_run minIndex p e p e"
| bq_prog: "bq_run minIndex p e q f \<Longrightarrow> BlockingQuery minIndex f c q = Some q' \<Longrightarrow> bq_run minIndex p e q' f"
| bq_env: "bq_run minIndex p e q f \<Longrightarrow> env_step f f' \<Longrightarrow> bq_run minIndex p e q f'"

lemma Apply_chans: "Apply P l r w = (resp, r', w') \<Longrightarrow> chan_step r r'"
  by (auto simp: Apply_def chan_step_def same_chans_def split: if_splits prod.splits)

lemma Restore_chans: "Restore P rd rn ct t0 t1 r w = (x, r', w') \<Longrightarrow> chan_step r r'"
  by (auto simp: Restore_def chan_step_def same_chans_def abandon_def Let_def split: if_splits prod.splits sum.splits)

lemma Close_chans: "Close r w = (x, r', w') \<Longrightarrow> chan_step r r'"
  by (auto simp: Close_def chan_step_def same_chans_def split: if_splits prod.splits)

lemma Persist_chans: "Persist P Z K s u d n sink r = (x, sink', r') \<Longrightarrow> chan_step r r'"
  by (auto simp: Persist_def chan_step_def same_chans_def split: prod.splits sum.splits)

text \<open>Channels over a run of the environment: closed ones stay closed, and the first is current or closed.\<close>

lemma chan_step_chans:
  assumes "chan_step r r'" and "chans_ok r"
  shows "chans_ok r'" and "set (sm_closedChs r) \<subseteq> set (sm_closedChs r')"
    and "sm_abandonCh r' = sm_abandonCh r \<or> sm_abandonCh r \<in> set (sm_closedChs r')"
  using assms by (auto simp: chan_step_def same_chans_def abandon_def Let_def chans_ok_def less_Suc_eq)

definition since :: "StateMachine \<Rightarrow> StateMachine \<Rightarrow> bool" where
  "since r r' \<longleftrightarrow> chans_ok r' \<and> set (sm_closedChs r) \<subseteq> set (sm_closedChs r') \<and>
     (sm_abandonCh r' = sm_abandonCh r \<or> sm_abandonCh r \<in> set (sm_closedChs r'))"

lemma since_step: "since r r' \<Longrightarrow> chan_step r' r'' \<Longrightarrow> since r r''"
  using chan_step_chans [of r' r''] by (auto simp: since_def)

subsection \<open>What a run can return\<close>

text \<open>Along a run from a call of \<open>queryFn\<close>: the held channel is open, or the first channel was closed.\<close>

definition bq_inv :: "u64 \<Rightarrow> bq_env \<Rightarrow> bq_pc \<Rightarrow> bq_env \<Rightarrow> bool" where
  "bq_inv minIndex e p f \<longleftrightarrow> since (be_machine e) (be_machine f) \<and>
     (case p of
        BqFirst \<Rightarrow> True
      | BqLoop v i \<Rightarrow> \<not> minIndex \<le> i
      | BqSelect ch v i \<Rightarrow> \<not> minIndex \<le> i \<and>
          (ch \<in> set (sm_closedChs (be_machine f)) \<longrightarrow> AbandonCh (be_machine e) \<in> set (sm_closedChs (be_machine f)))
      | BqRequery \<Rightarrow> True
      | BqDone (Inl err) \<Rightarrow> True
      | BqDone (Inr res) \<Rightarrow>
          if bq_Abandoned res
          then bq_Value res = [] \<and> bq_CurrentIndex res = 0 \<and> AbandonCh (be_machine e) \<in> set (sm_closedChs (be_machine f))
          else minIndex = 0 \<or> minIndex \<le> bq_CurrentIndex res \<or> be_expired f)"

lemma bq_inv_prog:
  assumes "bq_inv m e p f" and "BlockingQuery m f c p = Some p'"
  shows "bq_inv m e p' f"
  using assms
  by (cases p; cases c)
     (auto simp: bq_inv_def since_def AbandonCh_def chans_ok_def split: sum.splits if_splits prod.splits)

lemma bq_inv_env:
  assumes inv: "bq_inv m e p f" and step: "env_step f f'"
  shows "bq_inv m e p f'"
proof -
  have s: "since (be_machine e) (be_machine f)" using inv by (simp add: bq_inv_def)
  have c: "chan_step (be_machine f) (be_machine f')" using step by (simp add: env_step_def)
  note s' = since_step [OF s c]
  have closed: "AbandonCh (be_machine e) \<in> set (sm_closedChs (be_machine f'))"
    if "ch \<in> set (sm_closedChs (be_machine f'))" "ch \<notin> set (sm_closedChs (be_machine f))" for ch
    using that c s by (auto simp: chan_step_def same_chans_def abandon_def Let_def since_def AbandonCh_def)
  have "set (sm_closedChs (be_machine f)) \<subseteq> set (sm_closedChs (be_machine f'))"
    using chan_step_chans(2) [OF c] s by (simp add: since_def)
  then show ?thesis
    using inv step s' closed
    by (auto simp: bq_inv_def env_step_def split: bq_pc.splits sum.splits if_splits)
qed

lemma bq_run_inv:
  assumes "bq_run m p0 e p f" and "p0 = BqFirst \<or> p0 = BqRequery" and "chans_ok (be_machine e)"
  shows "bq_inv m e p f"
  using assms
proof (induction rule: bq_run.induct)
  case bq_refl
  then show ?case by (auto simp: bq_inv_def since_def)
qed (auto intro: bq_inv_prog bq_inv_env)

text \<open>A restore that completes while the query is blocked in the select is noticed.\<close>

lemma blocked_sees_restore:
  assumes "chans_ok (be_machine e)" and "env_step e e'" and "AbandonCh (be_machine e') \<noteq> AbandonCh (be_machine e)"
  shows "BlockingQuery m e' OnAbandon (BqSelect (AbandonCh (be_machine e)) v i)
    = Some (BqDone (Inr \<lparr>bq_Value = [], bq_CurrentIndex = 0, bq_Abandoned = True\<rparr>))"
  using assms chan_step_chans(3) [of "be_machine e" "be_machine e'"]
  by (auto simp: env_step_def AbandonCh_def)

inductive env_steps :: "bq_env \<Rightarrow> bq_env \<Rightarrow> bool" where
  env_none: "env_steps e e"
| env_more: "env_steps e f \<Longrightarrow> env_step f f' \<Longrightarrow> env_steps e f'"

lemma env_steps_since: "env_steps e f \<Longrightarrow> chans_ok (be_machine e) \<Longrightarrow> since (be_machine e) (be_machine f)"
proof (induction rule: env_steps.induct)
  case (env_none e)
  then show ?case by (simp add: since_def)
qed (auto simp: env_step_def intro: since_step)

subsection \<open>Watching\<close>

text \<open>
  \<open>Watch\<close> and \<open>WatchKey\<close> loop over blocking queries. \<open>ctxErr i\<close> is the error of the context before turn \<open>i\<close>,
  \<open>bq i m\<close> the outcome of the query of turn \<open>i\<close> for the minimal index \<open>m\<close>, \<open>send i\<close> that of \<open>Send\<close> or of the
  callback. The fuel is the number of turns; the error is None while the loop still runs.
\<close>

record WatchResponse =
  wresp_Value :: string
  wresp_CurrentIndex :: u64
  wresp_Abandoned :: bool

definition watch_response :: "BlockingQueryResult \<Rightarrow> WatchResponse" where
  "watch_response r = \<lparr>wresp_Value = string_of (bq_Value r), wresp_CurrentIndex = bq_CurrentIndex r, wresp_Abandoned = bq_Abandoned r\<rparr>"

fun Watch ::
  "nat \<Rightarrow> (nat \<Rightarrow> go_err option) \<Rightarrow> (nat \<Rightarrow> u64 \<Rightarrow> BlockingQueryResult result) \<Rightarrow> (nat \<Rightarrow> go_err option) \<Rightarrow> nat \<Rightarrow> u64
   \<Rightarrow> WatchResponse list \<times> go_err option" where
  "Watch 0 ctxErr bq send i currentMinIndex = ([], None)"
| "Watch (Suc n) ctxErr bq send i currentMinIndex =
     (case ctxErr i of
        Some e \<Rightarrow> ([], Some e)
      | None \<Rightarrow>
          (case bq i currentMinIndex of
             Inl e \<Rightarrow> ([], Some e)
           | Inr res \<Rightarrow>
               (case send i of
                  Some e \<Rightarrow> ([], Some e)
                | None \<Rightarrow>
                    map_prod (\<lambda>rs. watch_response res # rs) id
                      (Watch n ctxErr bq send (Suc i)
                         (if bq_Abandoned res then 0 else bq_CurrentIndex res + 1)))))"

fun WatchKey ::
  "nat \<Rightarrow> (nat \<Rightarrow> go_err option) \<Rightarrow> (nat \<Rightarrow> u64 \<Rightarrow> BlockingQueryResult result) \<Rightarrow> (nat \<Rightarrow> go_err option) \<Rightarrow> nat \<Rightarrow> u64
   \<Rightarrow> BlockingQueryResult list \<times> go_err option" where
  "WatchKey 0 ctxErr bq callback i lastIndex = ([], None)"
| "WatchKey (Suc n) ctxErr bq callback i lastIndex =
     (case ctxErr i of
        Some e \<Rightarrow> ([], Some e)
      | None \<Rightarrow>
          (case bq i (lastIndex + 1) of
             Inl e \<Rightarrow> ([], Some e)
           | Inr res \<Rightarrow>
               (case callback i of
                  Some e \<Rightarrow> ([], Some e)
                | None \<Rightarrow>
                    map_prod (\<lambda>rs. res # rs) id
                      (WatchKey n ctxErr bq callback (Suc i) (if bq_Abandoned res then 0 else bq_CurrentIndex res)))))"

text \<open>The timeout of a watch: seconds as a signed 64-bit number, multiplied in 64 bits.\<close>

definition watch_timeout :: "u64 \<Rightarrow> int" where
  "watch_timeout timeoutSeconds =
     (let timeout = sint (timeoutSeconds * 1000000000) in if timeout \<le> 0 then BlockingQueryTimeout else timeout)"

definition WatchKeyBlocking_timeout :: int where
  "WatchKeyBlocking_timeout = 30 * 1000000000"

text \<open>The indices a watch delivers increase as long as the state is not abandoned and no query times out.\<close>

definition fresh_answers :: "(nat \<Rightarrow> u64 \<Rightarrow> BlockingQueryResult result) \<Rightarrow> bool" where
  "fresh_answers bq \<longleftrightarrow> (\<forall>i m r. bq i m = Inr r \<longrightarrow> \<not> bq_Abandoned r \<longrightarrow>
     (m = 0 \<or> m \<le> bq_CurrentIndex r) \<and> bq_CurrentIndex r \<noteq> - 1)"

text \<open>\<open>envs i\<close> is the environment in which the query of turn \<open>i\<close> starts; the query ends before its deadline.\<close>

definition answered :: "(nat \<Rightarrow> bq_env) \<Rightarrow> (nat \<Rightarrow> u64 \<Rightarrow> BlockingQueryResult result) \<Rightarrow> bool" where
  "answered envs bq \<longleftrightarrow> (\<forall>i m. chans_ok (be_machine (envs i)) \<and>
     (\<exists>f. bq_run m BqFirst (envs i) (BqDone (bq i m)) f \<and> \<not> be_expired f))"

lemma answered_fresh:
  assumes "answered envs bq" and "\<And>i m r. bq i m = Inr r \<Longrightarrow> bq_CurrentIndex r \<noteq> - 1"
  shows "fresh_answers bq"
  unfolding fresh_answers_def
proof (intro allI impI)
  fix i m r assume r: "bq i m = Inr r" "\<not> bq_Abandoned r"
  obtain f where f: "bq_run m BqFirst (envs i) (BqDone (bq i m)) f" "\<not> be_expired f" "chans_ok (be_machine (envs i))"
    using assms(1) by (auto simp: answered_def)
  then show "(m = 0 \<or> m \<le> bq_CurrentIndex r) \<and> bq_CurrentIndex r \<noteq> - 1"
    using bq_run_inv [OF f(1) _ f(3)] r assms(2) [OF r(1)] by (simp add: bq_inv_def)
qed

definition watch_order :: "WatchResponse \<Rightarrow> WatchResponse \<Rightarrow> bool" where
  "watch_order a b \<longleftrightarrow> wresp_Abandoned a \<or> wresp_Abandoned b \<or> wresp_CurrentIndex a < wresp_CurrentIndex b"

lemma next_index:
  assumes "i \<noteq> - 1" and "i + 1 \<le> j"
  shows "i < (j :: u64)"
proof -
  have "1 + i \<noteq> 0" using assms(1) by (metis add.commute add_eq_0_iff2)
  then have "unat (1 + i) = Suc (unat i)" by (rule unatSuc)
  with assms(2) show ?thesis by (simp add: word_less_nat_alt word_le_nat_alt add.commute)
qed

lemma Watch_increasing:
  assumes "fresh_answers bq" and "Watch n ctxErr bq send i m = (rs, e)"
  shows "successively watch_order rs \<and> (rs \<noteq> [] \<longrightarrow> m = 0 \<or> wresp_Abandoned (rs ! 0) \<or> m \<le> wresp_CurrentIndex (rs ! 0))"
  using assms(2)
proof (induction n arbitrary: i m rs)
  case (Suc n)
  show ?case
  proof (cases rs)
    case (Cons r rs')
    then obtain res where res: "bq i m = Inr res" "r = watch_response res"
        "Watch n ctxErr bq send (Suc i) (if bq_Abandoned res then 0 else bq_CurrentIndex res + 1) = (rs', e)"
      using Suc.prems by (fastforce simp: map_prod_def split: option.splits sum.splits prod.splits)
    have fresh: "\<not> bq_Abandoned res \<Longrightarrow> (m = 0 \<or> m \<le> bq_CurrentIndex res) \<and> bq_CurrentIndex res \<noteq> - 1"
      using assms(1) res(1) by (simp add: fresh_answers_def)
    have "watch_order r r2" if "rs' = r2 # rs''" for r2 rs''
    proof (cases "bq_Abandoned res \<or> wresp_Abandoned r2")
      case False
      moreover have "bq_CurrentIndex res + 1 \<noteq> 0" using fresh False by (metis add_eq_0_iff2)
      ultimately have "bq_CurrentIndex res + 1 \<le> wresp_CurrentIndex r2" using Suc.IH [OF res(3)] that by auto
      with fresh False next_index show ?thesis by (simp add: watch_order_def res(2) watch_response_def)
    qed (auto simp: watch_order_def res(2) watch_response_def)
    with Suc.IH [OF res(3)] fresh show ?thesis
      by (cases rs') (auto simp: Cons res(2) watch_response_def)
  qed simp
qed simp

end
