(* ===== verification/Client.thy ===== *)
theory Client
  imports Cmd Engine_Kv Blocking_Query
begin

text \<open>
  The demonstrations of the client, \<open>cmd/cmd.go\<close>. The connection is a record of the calls that are made, with the
  state of the server passed along. A run gives the lines it logs and how it ended; \<open>Waiting\<close> is a call of
  \<open>randomId\<close> that has not returned within its fuel.
\<close>

record 'c client =
  cl_Add :: "AddRequest \<Rightarrow> 'c \<Rightarrow> AddResponse result \<times> 'c"
  cl_Get :: "GetRequest \<Rightarrow> 'c \<Rightarrow> GetResponse result \<times> 'c"
  cl_Stat :: "'c \<Rightarrow> StatResponse result \<times> 'c"

datatype log_line =
    LogText string
  | LogApply string string u64
  | LogQuery bool string string u64
  | LogStat string
  | LogWatch u64 string

datatype demo_exit = Returned | Fatal string go_err | Waiting

subsection \<open>The key-value demonstration\<close>

text \<open>Call number \<open>j\<close> of \<open>randomId\<close> reads from the source \<open>rnd j\<close>.\<close>

fun kv_writes ::
  "nat \<Rightarrow> (nat \<Rightarrow> nat \<Rightarrow> bytes) \<Rightarrow> 'c client \<Rightarrow> nat \<Rightarrow> nat \<Rightarrow> string list \<Rightarrow> log_line list \<Rightarrow> 'c
   \<Rightarrow> (demo_exit + string list) \<times> log_line list \<times> 'c" where
  "kv_writes fuel rnd C 0 i keys log c = (Inr keys, log, c)"
| "kv_writes fuel rnd C (Suc n) i keys log c =
     (case randomId fuel (rnd (2 * i)) 10 of
        None \<Rightarrow> (Inl Waiting, log, c)
      | Some key \<Rightarrow>
          (case randomId fuel (rnd (2 * i + 1)) 32 of
             None \<Rightarrow> (Inl Waiting, log, c)
           | Some val \<Rightarrow>
               (case cl_Add C \<lparr>areq_Key = key, areq_Val = val\<rparr> c of
                  (Inl e, c1) \<Rightarrow> (Inl (Fatal ''AddWord RPC failed: %v'' e), log, c1)
                | (Inr resp, c1) \<Rightarrow>
                    kv_writes fuel rnd C n (Suc i) (keys @ [key]) (log @ [LogApply key val (aresp_CommitIndex resp)]) c1)))"

fun kv_reads ::
  "'c client \<Rightarrow> nat \<Rightarrow> string list \<Rightarrow> log_line list \<Rightarrow> 'c \<Rightarrow> demo_exit option \<times> log_line list \<times> 'c" where
  "kv_reads C i [] log c = (None, log, c)"
| "kv_reads C i (key # keys) log c =
     (let linearizable = (i mod 3 = 0)
      in case cl_Get C \<lparr>greq_Key = key, greq_Linearizable = linearizable\<rparr> c of
           (Inl e, c1) \<Rightarrow> (Some (Fatal ''GetWords RPC failed: %v'' e), log, c1)
         | (Inr resp, c1) \<Rightarrow>
             kv_reads C (Suc i) keys (log @ [LogQuery linearizable key (gresp_Value resp) (gresp_ReadAtIndex resp)]) c1)"

definition runKVDemo :: "nat \<Rightarrow> (nat \<Rightarrow> nat \<Rightarrow> bytes) \<Rightarrow> 'c client \<Rightarrow> 'c \<Rightarrow> demo_exit \<times> log_line list \<times> 'c" where
  "runKVDemo fuel rnd C c =
     (case kv_writes fuel rnd C 5 0 [] [] c of
        (Inl ex, log, c1) \<Rightarrow> (ex, log, c1)
      | (Inr keys, log, c1) \<Rightarrow>
          (case kv_reads C 0 keys (log @ [LogText ''================== KV WRITE TEST DONE =================='']) c1 of
             (Some ex, log1, c2) \<Rightarrow> (ex, log1, c2)
           | (None, log1, c2) \<Rightarrow>
               (let log2 = log1 @ [LogText ''================== KV READ TEST DONE =================='']
                in case cl_Stat C c2 of
                     (Inl e, c3) \<Rightarrow> (Fatal ''Stat RPC failed: %v'' e, log2, c3)
                   | (Inr stats, c3) \<Rightarrow> (Returned, log2 @ [LogStat (sresp_Stats stats)], c3))))"

subsection \<open>The watch demonstration\<close>

text \<open>
  The stream is what \<open>Recv\<close> returns, call by call; after the last element it is closed by the server.
\<close>

fun watch_recv :: "WatchResponse result list \<Rightarrow> log_line list \<times> go_err option" where
  "watch_recv [] = ([LogText ''Watch stream closed by server''], None)"
| "watch_recv (Inl e # stream) = ([], Some e)"
| "watch_recv (Inr resp # stream) =
     (if wresp_Abandoned resp
      then ([LogText [], LogText ''!!! STATE ABANDONED !!!'',
             LogText ''A snapshot restore occurred. Need to reset and re-query.'',
             LogText ''This is critical for maintaining data consistency in blocking queries.'', LogText []], None)
      else map_prod (\<lambda>log. LogWatch (wresp_CurrentIndex resp) (wresp_Value resp) # log) id (watch_recv stream))"

definition doWatchKey :: "WatchResponse result list result \<Rightarrow> log_line list \<times> go_err option" where
  "doWatchKey watch = (case watch of Inl e \<Rightarrow> ([], Some e) | Inr stream \<Rightarrow> watch_recv stream)"

text \<open>
  The loop of \<open>runWatchDemo\<close>: turn \<open>i\<close> finds the context cancelled or not, watches, and after an error looks at
  the context again. It runs until the context is cancelled, so it has fuel; the flag says whether it returned.
\<close>

datatype watch_line = WatchLog log_line | WatchRetry go_err

fun watch_loop ::
  "nat \<Rightarrow> (nat \<Rightarrow> bool) \<Rightarrow> (nat \<Rightarrow> bool) \<Rightarrow> (nat \<Rightarrow> WatchResponse result list result) \<Rightarrow> nat \<Rightarrow> watch_line list \<times> bool" where
  "watch_loop 0 ctxDone ctxErr watch i = ([], False)"
| "watch_loop (Suc n) ctxDone ctxErr watch i =
     (if ctxDone i then ([], True)
      else case doWatchKey (watch i) of
             (log, None) \<Rightarrow> map_prod (\<lambda>ls. map WatchLog log @ ls) id (watch_loop n ctxDone ctxErr watch (Suc i))
           | (log, Some e) \<Rightarrow>
               if ctxErr i then (map WatchLog log, True)
               else map_prod (\<lambda>ls. map WatchLog log @ WatchRetry e # ls) id (watch_loop n ctxDone ctxErr watch (Suc i)))"

subsection \<open>What the lines say\<close>

definition applied :: "log_line list \<Rightarrow> (string \<times> string) list" where
  "applied log = concat (map (\<lambda>l. case l of LogApply k v i \<Rightarrow> [(k, v)] | _ \<Rightarrow> []) log)"

definition queried :: "log_line list \<Rightarrow> (bool \<times> string \<times> string) list" where
  "queried log = concat (map (\<lambda>l. case l of LogQuery b k v i \<Rightarrow> [(b, k, v)] | _ \<Rightarrow> []) log)"

definition watched :: "log_line list \<Rightarrow> (u64 \<times> string) list" where
  "watched log = concat (map (\<lambda>l. case l of LogWatch i v \<Rightarrow> [(i, v)] | _ \<Rightarrow> []) log)"

lemma applied_append [simp]: "applied (a @ b) = applied a @ applied b" and applied_Nil [simp]: "applied [] = []"
  by (simp_all add: applied_def)

lemma queried_append [simp]: "queried (a @ b) = queried a @ queried b" and queried_Nil [simp]: "queried [] = []"
  by (simp_all add: queried_def)

lemma log_Cons [simp]:
  "applied (LogApply k v i # log) = (k, v) # applied log" "applied (LogQuery b k v i # log) = applied log"
  "applied (LogText s # log) = applied log" "applied (LogStat s # log) = applied log"
  "queried (LogApply k v i # log) = queried log" "queried (LogQuery b k v i # log) = (b, k, v) # queried log"
  "queried (LogText s # log) = queried log" "queried (LogStat s # log) = queried log"
  by (simp_all add: applied_def queried_def)

lemma watched_simps [simp]:
  "watched [] = []" "watched (LogWatch i v # log) = (i, v) # watched log" "watched (LogText s # log) = watched log"
  by (simp_all add: watched_def)

text \<open>What a client relies on: a successful write is what a later read of the key returns.\<close>

locale kv_client =
  fixes C :: "'c client" and ok :: "'c \<Rightarrow> bool" and contents :: "'c \<Rightarrow> string \<rightharpoonup> string"
  assumes add: "ok c \<Longrightarrow> cl_Add C req c = (Inr resp, c') \<Longrightarrow>
      ok c' \<and> contents c' = (contents c)(areq_Key req \<mapsto> areq_Val req)"
    and get: "ok c \<Longrightarrow> cl_Get C greq c = (Inr gresp, c') \<Longrightarrow>
      ok c' \<and> contents c' = contents c \<and> gresp_Value gresp = (case contents c (greq_Key greq) of Some v \<Rightarrow> v | None \<Rightarrow> [])"
begin

lemma writes_log:
  "kv_writes fuel rnd C n i keys log c = (Inr keys', log', c') \<Longrightarrow> ok c \<Longrightarrow>
   \<exists>kvs. length kvs = n \<and> keys' = keys @ map fst kvs \<and> applied log' = applied log @ kvs \<and> queried log' = queried log \<and>
     ok c' \<and> contents c' = contents c ++ map_of (rev kvs)"
proof (induction n arbitrary: i keys log c)
  case (Suc n)
  then obtain key val resp c1 where a: "cl_Add C \<lparr>areq_Key = key, areq_Val = val\<rparr> c = (Inr resp, c1)"
    and rest: "kv_writes fuel rnd C n (Suc i) (keys @ [key]) (log @ [LogApply key val (aresp_CommitIndex resp)]) c1 = (Inr keys', log', c')"
    by (auto split: option.splits prod.splits sum.splits)
  have c1: "ok c1" "contents c1 = (contents c)(key \<mapsto> val)" using add [OF Suc.prems(2) a] by simp_all
  obtain kvs where "length kvs = n" "keys' = keys @ [key] @ map fst kvs" "applied log' = applied log @ [(key, val)] @ kvs"
      "queried log' = queried log" "ok c'" "contents c' = contents c1 ++ map_of (rev kvs)"
    using Suc.IH [OF rest c1(1)] by auto
  then show ?case using c1(2) by (intro exI [of _ "(key, val) # kvs"]) (simp add: map_add_assoc)
qed simp

lemma reads_log:
  "kv_reads C i keys log c = (None, log', c') \<Longrightarrow> ok c \<Longrightarrow>
   ok c' \<and> contents c' = contents c \<and> applied log' = applied log \<and>
   queried log' = queried log @ map (\<lambda>(j, key). (j mod 3 = 0, key, case contents c key of Some v \<Rightarrow> v | None \<Rightarrow> []))
     (enumerate i keys)"
proof (induction keys arbitrary: i log c)
  case (Cons key keys)
  then obtain resp c1 where a: "cl_Get C \<lparr>greq_Key = key, greq_Linearizable = (i mod 3 = 0)\<rparr> c = (Inr resp, c1)"
    and rest: "kv_reads C (Suc i) keys (log @ [LogQuery (i mod 3 = 0) key (gresp_Value resp) (gresp_ReadAtIndex resp)]) c1 = (None, log', c')"
    by (auto simp: Let_def split: prod.splits sum.splits)
  with get [OF Cons.prems(2) a] Cons.IH [OF rest] show ?case by simp
qed simp

text \<open>Each query of the demonstration prints what was written last under its key.\<close>

lemma demo_queries:
  assumes "runKVDemo fuel rnd C c = (Returned, log, c')" and "ok c"
  shows "length (applied log) = 5 \<and>
    queried log = map (\<lambda>(j, key). (j mod 3 = 0, key, the (map_of (rev (applied log)) key))) (enumerate 0 (map fst (applied log)))"
proof -
  have no: "kv_writes fuel rnd C n i keys l s \<noteq> (Inl Returned, r)" for n i keys l s r
    by (induction n arbitrary: i keys l s) (auto split: option.splits prod.splits sum.splits)
  have no': "kv_reads C i keys l s \<noteq> (Some Returned, r)" for i keys l s r
    by (induction keys arbitrary: i l s) (auto simp: Let_def split: prod.splits sum.splits)
  obtain res log1 c1 where w0: "kv_writes fuel rnd C 5 0 [] [] c = (res, log1, c1)" by (metis surj_pair)
  obtain keys where "res = Inr keys"
    using assms(1) w0 no [of 5 0 "[]" "[]" c "(log1, c1)"] by (cases res) (simp_all add: runKVDemo_def)
  with w0 have w: "kv_writes fuel rnd C 5 0 [] [] c = (Inr keys, log1, c1)" by simp
  define b where "b = ''================== KV WRITE TEST DONE ==================''"
  obtain ex log2 c2 where r0: "kv_reads C 0 keys (log1 @ [LogText b]) c1 = (ex, log2, c2)" by (metis surj_pair)
  have run: "runKVDemo fuel rnd C c = (case kv_reads C 0 keys (log1 @ [LogText b]) c1 of
      (Some ex, log1, c2) \<Rightarrow> (ex, log1, c2)
    | (None, log1, c2) \<Rightarrow>
        (let log2 = log1 @ [LogText ''================== KV READ TEST DONE ==================''] in
         case cl_Stat C c2 of (Inl e, c3) \<Rightarrow> (Fatal ''Stat RPC failed: %v'' e, log2, c3)
         | (Inr stats, c3) \<Rightarrow> (Returned, log2 @ [LogStat (sresp_Stats stats)], c3)))"
    unfolding runKVDemo_def w b_def by (simp only: prod.case sum.case)
  have "ex = None" using assms(1) run r0 no' [of 0 keys _ c1 "(log2, c2)"] by (cases ex) auto
  with r0 have r: "kv_reads C 0 keys (log1 @ [LogText b]) c1 = (None, log2, c2)" by simp
  have log: "applied log = applied log2" "queried log = queried log2"
    using assms(1) unfolding run r by (auto simp: Let_def split: prod.splits sum.splits)
  obtain kvs where kvs: "length kvs = 5" "keys = map fst kvs" "applied log1 = kvs" "queried log1 = []" "ok c1"
      "contents c1 = contents c ++ map_of (rev kvs)"
    using writes_log [OF w assms(2)] by auto
  note q = reads_log [OF r kvs(5)]
  have "(case contents c1 key of Some v \<Rightarrow> v | None \<Rightarrow> []) = the (map_of (rev kvs) key)" if "key \<in> set keys" for key
  proof -
    have "map_of (rev kvs) key \<noteq> None" using that by (auto simp: kvs(2) map_of_eq_None_iff)
    then show ?thesis by (auto simp: kvs(6) map_add_def)
  qed
  then show ?thesis using q log kvs by (auto simp: in_set_enumerate_eq)
qed

end

subsection \<open>A client of one node\<close>

text \<open>The calls reach the handlers of a node, each with the same context; the state is the server and its connections.\<close>

definition node_client ::
  "('k, gval) KV \<Rightarrow> AddressResolver \<Rightarrow> rpc_env \<Rightarrow> (nat \<Rightarrow> string \<Rightarrow> AddRequest \<Rightarrow> AddResponse result)
   \<Rightarrow> (nat \<Rightarrow> string \<Rightarrow> GetRequest \<Rightarrow> GetResponse result) \<Rightarrow> Ctx \<Rightarrow> ('k \<times> conns) client" where
  "node_client K res E invokeA invokeG ctx =
     \<lparr>cl_Add = (\<lambda>req (k, cc). Add K res E invokeA ctx req k cc),
      cl_Get = (\<lambda>req (k, cc). Get K res E invokeG ctx req k cc),
      cl_Stat = (\<lambda>(k, cc). case Stat K k of (r, k1) \<Rightarrow> (r, k1, cc))\<rparr>"

lemma raft_kv_calls:
  "kv_Apply (raft_kv R P now elapsed evs stats) = raft_Apply R now"
  "kv_Query (raft_kv R P now elapsed evs stats) = raft_Query R P elapsed evs"
  "kv_Stats (raft_kv R P now elapsed evs stats) = stats"
  by (simp_all add: raft_kv_def)

text \<open>
  A library on which this client is the only writer and the leader stays the leader: a command that succeeds was
  applied alone.
\<close>

locale sole_writer = raft_lib P view pend R
  for P :: "('db, 'b) pebble" and view pend and R :: "('r, 'db) raft_ops" +
  assumes apply_alone: "rf_Apply R data t (r, m, w) = (Inr (i, resp), r', m', w') \<Longrightarrow>
      apply_log P [\<lparr>log_Index = i, log_Data = data\<rparr>] m w = ([resp], m', w')"
    and apply_leads: "rf_leader R r \<Longrightarrow> rf_Apply R data t (r, m, w) = (Inr x, r', m', w') \<Longrightarrow> rf_leader R r'"
    and verify_leads: "rf_leader R r \<Longrightarrow> rf_VerifyLeader R r = (None, r') \<Longrightarrow> rf_leader R r'"
begin

definition lead_ok :: "('r, 'db) raftServer \<times> conns \<Rightarrow> bool" where
  "lead_ok x = (case x of (s, cc) \<Rightarrow> rf_leader R (nd_raft s) \<and> machine_inv (nd_store s) (nd_world s) \<and> sm_open (nd_store s))"

definition lead_contents :: "('r, 'db) raftServer \<times> conns \<Rightarrow> string \<rightharpoonup> string" where
  "lead_contents x = (case x of (s, cc) \<Rightarrow> \<lambda>key. map_option string_of (sm_kv view (nd_store s) (nd_world s) (bytes_of key)))"

lemma leader_forward:
  "rf_leader R (nd_raft s) \<Longrightarrow> meth \<in> {''Add'', ''Get''} \<Longrightarrow>
   forwardRequestToLeader (raft_kv R P now elapsed evs stats) res E invoke meth req s cc = ((False, None, None), cc)"
  by (auto simp: forwardRequestToLeader_def raft_kv_def GetLeader_def IsLeader_def)

lemma lead_add:
  assumes ok: "lead_ok (s, cc)"
    and run: "Add (raft_kv R P now elapsed evs stats) res E invoke ctx req s cc = (Inr resp, s', cc')"
  shows "lead_ok (s', cc') \<and> lead_contents (s', cc') = (lead_contents (s, cc))(areq_Key req \<mapsto> areq_Val req)"
proof -
  have lead: "rf_leader R (nd_raft s)" and inv: "machine_inv (nd_store s) (nd_world s)" "sm_open (nd_store s)"
    using ok by (simp_all add: lead_ok_def)
  obtain i where a: "raft_Apply R now ctx (areq_Key req) (areq_Val req) s = (Inr i, s')"
    using run by (auto simp: Add_def leader_forward [OF lead] raft_kv_calls split: prod.splits sum.splits)
  then obtain res r m w where r: "rf_Apply R (insert_command (areq_Key req) (areq_Val req)) (apply_timeout now ctx)
      (nd_raft s, nd_store s, nd_world s) = (Inr (i, res), r, m, w)"
    and s': "s' = s\<lparr>nd_raft := r, nd_store := m, nd_world := w, nd_dbAppliedIndex := i\<rparr>"
    by (auto simp: raft_Apply_def Let_def split: prod.splits sum.splits option.splits)
  note ref = apply_log_refines [OF inv apply_alone [OF r]]
  then have "sm_kv view m w = (sm_kv view (nd_store s) (nd_world s))(bytes_of (areq_Key req) \<mapsto> bytes_of (areq_Val req))"
    by (simp add: spec_apply_insert_command)
  moreover have "machine_inv m w" "sm_open m" using ref by blast+
  then have "lead_ok (s', cc')" using apply_leads [OF lead r] by (simp add: lead_ok_def s')
  moreover have "(bytes_of k = bytes_of l) = (k = l)" for k l by (metis string_of_bytes_of)
  ultimately show ?thesis by (auto simp: lead_contents_def s' fun_eq_iff)
qed

lemma lead_get:
  assumes ok: "lead_ok (s, cc)"
    and run: "Get (raft_kv R P now elapsed evs stats) res E invoke ctx req s cc = (Inr resp, s', cc')"
  shows "lead_ok (s', cc') \<and> lead_contents (s', cc') = lead_contents (s, cc) \<and>
    gresp_Value resp = (case lead_contents (s, cc) (greq_Key req) of Some v \<Rightarrow> v | None \<Rightarrow> [])"
proof -
  have lead: "rf_leader R (nd_raft s)" and inv: "machine_inv (nd_store s) (nd_world s)" "sm_open (nd_store s)"
    using ok by (simp_all add: lead_ok_def)
  have g: "get_local (raft_kv R P now elapsed evs stats) ctx req s cc = (Inr resp, s', cc')"
    using run by (simp add: Get_def leader_forward [OF lead] split: if_splits)
  then obtain i v where q: "raft_Query R P elapsed evs ctx (bytes_of (greq_Key req)) (greq_Linearizable req) s = (Inr (i, v), s')"
    and resp: "gresp_Value resp = string_of v"
    by (auto simp: get_local_def raft_kv_calls split: prod.splits sum.splits)
  obtain r where s': "s' = s\<lparr>nd_raft := r\<rparr>" "rf_leader R r" and l: "local_read R P (bytes_of (greq_Key req)) s' = Inr (i, v)"
  proof (cases "greq_Linearizable req")
    case True
    with q verify_leads [OF lead] that show ?thesis
      by (auto simp: raft_Query_def ConsistentRead_def consistentReadWithContext_def Let_def split: prod.splits option.splits if_splits)
  qed (use q lead that [of "nd_raft s"] in \<open>auto simp: raft_Query_def\<close>)
  have "v = (case sm_kv view (nd_store s) (nd_world s) (bytes_of (greq_Key req)) of Some v \<Rightarrow> v | None \<Rightarrow> [])"
    using local_read_live [of s' "bytes_of (greq_Key req)"] inv l by (simp add: s'(1))
  then show ?thesis
    using s' inv resp by (auto simp: lead_ok_def lead_contents_def string_of_def split: option.splits)
qed

end

sublocale sole_writer \<subseteq> client: kv_client "node_client (raft_kv R P now elapsed evs stats) res E invokeA invokeG ctx" lead_ok lead_contents
  for now elapsed evs stats res E invokeA invokeG ctx
proof unfold_locales
  fix x req resp x'
  assume "lead_ok x" and run: "cl_Add (node_client (raft_kv R P now elapsed evs stats) res E invokeA invokeG ctx) req x = (Inr resp, x')"
  moreover obtain s cc s' cc' where x: "x = (s, cc)" "x' = (s', cc')" by (metis surj_pair)
  ultimately have "lead_ok (s, cc)" "Add (raft_kv R P now elapsed evs stats) res E invokeA ctx req s cc = (Inr resp, s', cc')"
    by (simp_all add: node_client_def)
  then show "lead_ok x' \<and> lead_contents x' = (lead_contents x)(areq_Key req \<mapsto> areq_Val req)" unfolding x by (rule lead_add)
next
  fix x req resp x'
  assume "lead_ok x" and run: "cl_Get (node_client (raft_kv R P now elapsed evs stats) res E invokeA invokeG ctx) req x = (Inr resp, x')"
  moreover obtain s cc s' cc' where x: "x = (s, cc)" "x' = (s', cc')" by (metis surj_pair)
  ultimately have "lead_ok (s, cc)" "Get (raft_kv R P now elapsed evs stats) res E invokeG ctx req s cc = (Inr resp, s', cc')"
    by (simp_all add: node_client_def)
  then show "lead_ok x' \<and> lead_contents x' = lead_contents x \<and>
      gresp_Value resp = (case lead_contents x (greq_Key req) of Some v \<Rightarrow> v | None \<Rightarrow> [])"
    unfolding x by (rule lead_get)
qed

interpretation own: sole_writer ref_pebble map_of "\<lambda>b. b" ref_raft
  by unfold_locales (auto simp: ref_raft_def split: if_splits prod.splits)

context sole_writer
begin

lemma node_demo:
  assumes "runKVDemo fuel rnd (node_client (raft_kv R P now elapsed evs stats) res E invokeA invokeG ctx) (s, cc) = (Returned, log, c')"
    and "rf_leader R (nd_raft s)" and "machine_inv (nd_store s) (nd_world s)" and "sm_open (nd_store s)"
  shows "length (applied log) = 5 \<and>
    queried log = map (\<lambda>(j, key). (j mod 3 = 0, key, the (map_of (rev (applied log)) key))) (enumerate 0 (map fst (applied log)))"
  using client.demo_queries [OF assms(1)] assms by (simp add: lead_ok_def)

end

subsection \<open>A client that watches\<close>

lemma watch_recv_lines:
  "watched (fst (watch_recv (map Inr rs @ rest))) =
     map (\<lambda>r. (wresp_CurrentIndex r, wresp_Value r)) (takeWhile (\<lambda>r. \<not> wresp_Abandoned r) rs) @
     (if list_ex wresp_Abandoned rs then [] else watched (fst (watch_recv rest)))"
  "list_ex wresp_Abandoned rs \<Longrightarrow> snd (watch_recv (map Inr rs @ rest)) = None"
  by (induction rs) (auto simp: map_prod_def split: prod.splits)

lemma watch_prefix_increasing:
  assumes "successively watch_order rs" and "\<forall>r \<in> set rs. \<not> wresp_Abandoned r"
  shows "sorted_wrt (<) (map wresp_CurrentIndex rs)"
proof -
  have "successively (<) (map wresp_CurrentIndex rs)"
    using assms by (induction rs rule: induct_list012) (auto simp: watch_order_def)
  then show ?thesis by (simp add: successively_iff_sorted_wrt_strong transp_def)
qed

text \<open>The loop returns once the context is cancelled.\<close>

lemma watch_loop_returns:
  "ctxDone (i + d) \<Longrightarrow> d < n \<Longrightarrow> snd (watch_loop n ctxDone ctxErr watch i)"
proof (induction n arbitrary: i d)
  case (Suc n)
  show ?case
  proof (cases d)
    case (Suc d')
    then have "snd (watch_loop n ctxDone ctxErr watch (Suc i))" using Suc.IH [of "Suc i" d'] Suc.prems by simp
    then show ?thesis by (auto split: prod.splits option.splits)
  qed (use Suc.prems in simp)
qed simp

end
