(* ===== verification/Engine_Leader.thy ===== *)
theory Engine_Leader
  imports Prelude
begin

text \<open>
  Leadership of the engine, \<open>engine/raft.go\<close>: the goroutines \<open>monitorLeadership\<close> and \<open>leaderLoop\<close>, the flag
  for consistent reads, and how they interleave with the raft library. A step of a goroutine is one
  call, one operation on a channel or one store to the flag.
\<close>

subsection \<open>The flag\<close>

definition setConsistentReadReady :: "u32 \<Rightarrow> u32" where
  "setConsistentReadReady ready = 1"

definition resetConsistentReadReady :: "u32 \<Rightarrow> u32" where
  "resetConsistentReadReady ready = 0"

definition revokeLeadership :: "u32 \<Rightarrow> u32" where
  "revokeLeadership ready = resetConsistentReadReady ready"

subsection \<open>The leader loop\<close>

text \<open>
  Where the goroutine is: in the barrier, at the check of the context in \<open>establishLeadership\<close>, at its store to
  the flag, at the revocation after a failed establishment, in \<open>leadershipTransfer\<close> with some attempts left,
  blocked on the stop channel, at the poll and at the select of WAIT, or returning. \<open>lp_cancelled\<close> is the
  context that a helper goroutine cancels once the stop channel is closed.
\<close>

datatype loop_pc = LpBarrier | LpEstablish | LpSetReady | LpRevoke | LpTransfer nat | LpBlock | LpPoll | LpSelect | LpReturn

record loop =
  lp_pc :: loop_pc
  lp_stop :: bool
  lp_cancelled :: bool
  lp_established :: bool

definition new_loop :: loop where
  "new_loop = \<lparr>lp_pc = LpBarrier, lp_stop = False, lp_cancelled = False, lp_established = False\<rparr>"

datatype loop_choice = BarrierOk | BarrierLost | BarrierErr | TransferOk | TransferErr | Proceed | Timer

definition retryCount :: nat where "retryCount = 3"

text \<open>The check of the context in \<open>establishLeadership\<close>; its error leads to the revocation.\<close>

definition establishLeadership :: "loop \<Rightarrow> loop_pc" where
  "establishLeadership l = (if lp_cancelled l then LpRevoke else LpSetReady)"

fun leadershipTransfer :: "loop_choice \<Rightarrow> nat \<Rightarrow> loop_pc option" where
  "leadershipTransfer TransferOk (Suc n) = Some LpReturn"
| "leadershipTransfer TransferErr (Suc n) = Some (LpTransfer n)"
| "leadershipTransfer Proceed 0 = Some LpPoll"
| "leadershipTransfer _ _ = None"

definition leaderLoop :: "loop_choice \<Rightarrow> loop \<Rightarrow> u32 \<Rightarrow> (loop option \<times> u32) option" where
  "leaderLoop c l ready =
     (case lp_pc l of
        LpBarrier \<Rightarrow>
          (case c of
             BarrierOk \<Rightarrow> Some (Some (l\<lparr>lp_pc := if lp_established l then LpBlock else LpEstablish\<rparr>), ready)
           | BarrierLost \<Rightarrow> Some (Some (l\<lparr>lp_pc := LpReturn\<rparr>), ready)
           | BarrierErr \<Rightarrow> Some (Some (l\<lparr>lp_pc := LpPoll\<rparr>), ready)
           | _ \<Rightarrow> None)
      | LpEstablish \<Rightarrow> if c = Proceed then Some (Some (l\<lparr>lp_pc := establishLeadership l\<rparr>), ready) else None
      | LpSetReady \<Rightarrow>
          if c = Proceed then Some (Some (l\<lparr>lp_pc := LpBlock, lp_established := True\<rparr>), setConsistentReadReady ready) else None
      | LpRevoke \<Rightarrow> if c = Proceed then Some (Some (l\<lparr>lp_pc := LpTransfer retryCount\<rparr>), revokeLeadership ready) else None
      | LpTransfer n \<Rightarrow> map_option (\<lambda>pc. (Some (l\<lparr>lp_pc := pc\<rparr>), ready)) (leadershipTransfer c n)
      | LpBlock \<Rightarrow> if c = Proceed \<and> lp_stop l then Some (Some (l\<lparr>lp_pc := LpReturn\<rparr>), ready) else None
      | LpPoll \<Rightarrow> if c = Proceed then Some (Some (l\<lparr>lp_pc := if lp_stop l then LpReturn else LpSelect\<rparr>), ready) else None
      | LpSelect \<Rightarrow>
          (case c of
             Timer \<Rightarrow> Some (Some (l\<lparr>lp_pc := LpBarrier\<rparr>), ready)
           | Proceed \<Rightarrow> if lp_stop l then Some (Some (l\<lparr>lp_pc := LpReturn\<rparr>), ready) else None
           | _ \<Rightarrow> None)
      | LpReturn \<Rightarrow>
          if c = Proceed then Some (None, if lp_established l then revokeLeadership ready else ready) else None)"

subsection \<open>The monitor\<close>

text \<open>
  \<open>ld_notify\<close> holds the notifications the library has sent and the monitor has not received,
  \<open>ld_cancel\<close> says that \<open>leaderLoopCancel\<close> is not nil, \<open>ld_loop\<close> is the leader loop while it runs. The
  monitor waits for it in \<open>MonJoin\<close>, after lost leadership or for the shutdown.
\<close>

datatype mon_pc = MonSelect | MonJoin bool | MonExit

record lead =
  ld_ready :: u32
  ld_notify :: "bool list"
  ld_shutdown :: bool
  ld_mon :: mon_pc
  ld_cancel :: bool
  ld_loop :: "loop option"

definition close_stop :: "loop option \<Rightarrow> loop option" where
  "close_stop l = map_option (\<lambda>x. x\<lparr>lp_stop := True\<rparr>) l"

datatype mon_choice = OnNotify | OnShutdown | OnJoined

definition monitorLeadership :: "mon_choice \<Rightarrow> lead \<Rightarrow> lead option" where
  "monitorLeadership c s =
     (case (ld_mon s, c) of
        (MonSelect, OnNotify) \<Rightarrow>
          (case ld_notify s of
             [] \<Rightarrow> None
           | isLeader # rest \<Rightarrow>
               (let s1 = s\<lparr>ld_notify := rest\<rparr>
                in if isLeader
                   then Some (if ld_cancel s then s1 else s1\<lparr>ld_cancel := True, ld_loop := Some new_loop\<rparr>)
                   else Some (if \<not> ld_cancel s then s1
                              else s1\<lparr>ld_mon := MonJoin True, ld_loop := close_stop (ld_loop s)\<rparr>)))
      | (MonSelect, OnShutdown) \<Rightarrow>
          if ld_shutdown s
          then Some (if ld_cancel s then s\<lparr>ld_mon := MonJoin False, ld_loop := close_stop (ld_loop s)\<rparr>
                     else s\<lparr>ld_mon := MonExit\<rparr>)
          else None
      | (MonJoin lost, OnJoined) \<Rightarrow>
          if ld_loop s = None
          then Some (if lost then s\<lparr>ld_mon := MonSelect, ld_cancel := False\<rparr> else s\<lparr>ld_mon := MonExit\<rparr>)
          else None
      | _ \<Rightarrow> None)"

definition new_lead :: lead where
  "new_lead = \<lparr>ld_ready = 0, ld_notify = [], ld_shutdown = False, ld_mon = MonSelect, ld_cancel = False, ld_loop = None\<rparr>"

subsection \<open>Interleaving with the library\<close>

text \<open>
  \<open>env r ns r'\<close> is a step of the library that sends the notifications \<open>ns\<close>, \<open>barrier r r'\<close> the completion of a
  barrier. The last component is the number of the leadership in which the last barrier completed.
\<close>

type_synonym 'r lstate = "'r \<times> lead \<times> nat"

inductive lstep ::
  "('r \<Rightarrow> bool list \<Rightarrow> 'r \<Rightarrow> bool) \<Rightarrow> ('r \<Rightarrow> 'r \<Rightarrow> bool) \<Rightarrow> ('r \<Rightarrow> nat) \<Rightarrow> 'r lstate \<Rightarrow> 'r lstate \<Rightarrow> bool"
  for env barrier epoch where
  raft: "env r ns r' \<Longrightarrow> lstep env barrier epoch (r, s, b) (r', s\<lparr>ld_notify := ld_notify s @ ns\<rparr>, b)"
| monitor: "monitorLeadership c s = Some s' \<Longrightarrow> lstep env barrier epoch (r, s, b) (r, s', b)"
| barrier: "ld_loop s = Some l \<Longrightarrow> barrier r r' \<Longrightarrow> leaderLoop BarrierOk l (ld_ready s) = Some (l', ready) \<Longrightarrow>
    lstep env barrier epoch (r, s, b) (r', s\<lparr>ld_loop := l', ld_ready := ready\<rparr>, epoch r')"
| loop: "ld_loop s = Some l \<Longrightarrow> c \<noteq> BarrierOk \<Longrightarrow> leaderLoop c l (ld_ready s) = Some (l', ready) \<Longrightarrow>
    lstep env barrier epoch (r, s, b) (r, s\<lparr>ld_loop := l', ld_ready := ready\<rparr>, b)"
| cancel: "ld_loop s = Some l \<Longrightarrow> lp_stop l \<Longrightarrow>
    lstep env barrier epoch (r, s, b) (r, s\<lparr>ld_loop := Some (l\<lparr>lp_cancelled := True\<rparr>)\<rparr>, b)"
| close: "lstep env barrier epoch (r, s, b) (r, s\<lparr>ld_shutdown := True\<rparr>, b)"

inductive lreach ::
  "('r \<Rightarrow> bool list \<Rightarrow> 'r \<Rightarrow> bool) \<Rightarrow> ('r \<Rightarrow> 'r \<Rightarrow> bool) \<Rightarrow> ('r \<Rightarrow> nat) \<Rightarrow> ('r \<Rightarrow> bool) \<Rightarrow> 'r lstate \<Rightarrow> bool"
  for env barrier epoch init where
  start: "init r \<Longrightarrow> lreach env barrier epoch init (r, new_lead, 0)"
| step: "lreach env barrier epoch init x \<Longrightarrow> lstep env barrier epoch x y \<Longrightarrow> lreach env barrier epoch init y"

inductive_cases lstepE: "lstep env barrier epoch x y"

subsection \<open>The invariant\<close>

text \<open>
  What the monitor believes; the pending notifications alternate from there to the actual state of the
  library. The flag is set exactly while an established loop runs. A loop that has passed its barrier
  did so in a leadership whose successors are all still pending.
\<close>

definition believes :: "lead \<Rightarrow> bool" where
  "believes s \<longleftrightarrow> ld_cancel s \<and> ld_mon s \<noteq> MonJoin True"

fun alternates :: "bool \<Rightarrow> bool list \<Rightarrow> bool" where
  "alternates v [] = True"
| "alternates v (x # xs) = (x = (\<not> v) \<and> alternates x xs)"

lemma alternates_snoc: "alternates v (xs @ [x]) \<longleftrightarrow> alternates v xs \<and> x = (\<not> last (v # xs))"
  by (induction xs arbitrary: v) auto

definition loop_ok :: "loop \<Rightarrow> bool" where
  "loop_ok l \<longleftrightarrow> (lp_established l \<longrightarrow> lp_pc l = LpBlock \<or> lp_pc l = LpReturn)"

definition passed :: "loop \<Rightarrow> bool" where
  "passed l \<longleftrightarrow> lp_pc l = LpEstablish \<or> lp_pc l = LpSetReady \<or> lp_established l"

definition threads_ok :: "lead \<Rightarrow> bool" where
  "threads_ok s \<longleftrightarrow> (ld_loop s \<noteq> None \<longrightarrow> ld_cancel s) \<and>
     (\<forall>lost. ld_mon s = MonJoin lost \<longrightarrow> ld_cancel s) \<and> (ld_mon s = MonExit \<longrightarrow> ld_loop s = None) \<and>
     (\<forall>l. ld_loop s = Some l \<longrightarrow> loop_ok l \<and> (lp_stop l \<longleftrightarrow> (\<exists>lost. ld_mon s = MonJoin lost))) \<and>
     ld_ready s = (case ld_loop s of Some l \<Rightarrow> if lp_established l then 1 else 0 | None \<Rightarrow> 0)"

lemma threads_ok_new [simp]: "threads_ok new_lead"
  by (simp add: threads_ok_def new_lead_def)

lemma monitor_cases:
  assumes "monitorLeadership c s = Some s'"
  obtains (dup_start) ns where "ld_mon s = MonSelect" "ld_notify s = True # ns" "ld_cancel s" "s' = s\<lparr>ld_notify := ns\<rparr>"
    | (begin_loop) ns where "ld_mon s = MonSelect" "ld_notify s = True # ns" "\<not> ld_cancel s"
        "s' = s\<lparr>ld_notify := ns, ld_cancel := True, ld_loop := Some new_loop\<rparr>"
    | (dup_stop) ns where "ld_mon s = MonSelect" "ld_notify s = False # ns" "\<not> ld_cancel s" "s' = s\<lparr>ld_notify := ns\<rparr>"
    | (stop_loop) ns where "ld_mon s = MonSelect" "ld_notify s = False # ns" "ld_cancel s"
        "s' = s\<lparr>ld_notify := ns, ld_mon := MonJoin True, ld_loop := close_stop (ld_loop s)\<rparr>"
    | (shutdown) "ld_mon s = MonSelect" "ld_cancel s" "s' = s\<lparr>ld_mon := MonJoin False, ld_loop := close_stop (ld_loop s)\<rparr>"
    | (leave) "ld_mon s = MonSelect \<and> \<not> ld_cancel s \<or> ld_mon s = MonJoin False \<and> ld_loop s = None" "s' = s\<lparr>ld_mon := MonExit\<rparr>"
    | (joined) "ld_mon s = MonJoin True" "ld_loop s = None" "s' = s\<lparr>ld_mon := MonSelect, ld_cancel := False\<rparr>"
  using assms
  by (auto simp: monitorLeadership_def Let_def split: mon_pc.splits mon_choice.splits list.splits if_splits)

lemma monitor_threads:
  assumes "monitorLeadership c s = Some s'" and "threads_ok s"
  shows "threads_ok s'"
  using assms(1)
proof (cases rule: monitor_cases)
  case stop_loop
  with assms(2) show ?thesis by (cases "ld_loop s") (auto simp: threads_ok_def close_stop_def loop_ok_def)
next
  case shutdown
  with assms(2) show ?thesis by (cases "ld_loop s") (auto simp: threads_ok_def close_stop_def loop_ok_def)
qed (use assms(2) in \<open>auto simp: threads_ok_def new_loop_def loop_ok_def\<close>)

lemma loop_threads:
  assumes "leaderLoop c l (ld_ready s) = Some (l', ready)" and "ld_loop s = Some l" and "threads_ok s"
  shows "threads_ok (s\<lparr>ld_loop := l', ld_ready := ready\<rparr>)"
  using assms
  by (auto simp: leaderLoop_def threads_ok_def loop_ok_def revokeLeadership_def resetConsistentReadReady_def
      setConsistentReadReady_def establishLeadership_def
      split: loop_pc.splits loop_choice.splits if_splits)

lemma cancel_threads:
  "threads_ok s \<Longrightarrow> ld_loop s = Some l \<Longrightarrow> threads_ok (s\<lparr>ld_loop := Some (l\<lparr>lp_cancelled := True\<rparr>)\<rparr>)"
  by (auto simp: threads_ok_def loop_ok_def)

lemma believes_simps [simp]:
  "believes (s\<lparr>ld_notify := ns\<rparr>) = believes s" "believes (s\<lparr>ld_loop := l\<rparr>) = believes s"
  "believes (s\<lparr>ld_ready := i\<rparr>) = believes s" "believes (s\<lparr>ld_shutdown := x\<rparr>) = believes s"
  by (simp_all add: believes_def)

lemma threads_simps [simp]:
  "threads_ok (s\<lparr>ld_notify := ns\<rparr>) = threads_ok s" "threads_ok (s\<lparr>ld_shutdown := x\<rparr>) = threads_ok s"
  by (simp_all add: threads_ok_def)

lemma transfer_pc: "leadershipTransfer c n = Some pc \<Longrightarrow> pc = LpReturn \<or> pc = LpPoll \<or> (\<exists>m. n = Suc m \<and> pc = LpTransfer m)"
  by (induction c n rule: leadershipTransfer.induct) auto

lemma loop_passed:
  assumes "leaderLoop c l ready = Some (Some l', ready')" and "c \<noteq> BarrierOk" and "passed l'"
  shows "passed l"
  using assms
  by (auto simp: leaderLoop_def passed_def establishLeadership_def
      split: loop_pc.splits loop_choice.splits if_splits dest!: transfer_pc)

subsection \<open>What the engine relies on of the library\<close>

text \<open>
  Gaining and losing leadership are notified in order; \<open>epoch\<close> counts the leaderships. A completed barrier
  means that this node leads and that its state machine has every acknowledged write; while a node
  stays leader, writes are acknowledged after they are applied to its state machine. A change of leadership and the
  sending of its notification are one step of the library; in between, the real library may be seen in the new
  state before the notification is pending.
\<close>

definition epoch_ok :: "('r \<Rightarrow> nat) \<Rightarrow> ('r \<Rightarrow> bool) \<Rightarrow> ('r \<Rightarrow> nat) \<Rightarrow> ('r \<Rightarrow> nat) \<Rightarrow> 'r lstate \<Rightarrow> bool" where
  "epoch_ok epoch leader acked applied x = (case x of (r, s, b) \<Rightarrow>
     alternates (believes s) (ld_notify s) \<and> leader r = last (believes s # ld_notify s) \<and> b \<le> epoch r \<and>
     (\<forall>l. ld_loop s = Some l \<longrightarrow> passed l \<longrightarrow> believes s \<longrightarrow> epoch r \<le> b + length (filter id (ld_notify s))) \<and>
     (leader r \<longrightarrow> b = epoch r \<longrightarrow> acked r \<le> applied r))"

locale raft_leadership =
  fixes env :: "'r \<Rightarrow> bool list \<Rightarrow> 'r \<Rightarrow> bool" and barrier :: "'r \<Rightarrow> 'r \<Rightarrow> bool" and epoch :: "'r \<Rightarrow> nat"
    and init leader :: "'r \<Rightarrow> bool" and acked applied :: "'r \<Rightarrow> nat"
  assumes init_follower: "init r \<Longrightarrow> \<not> leader r \<and> epoch r = 0"
    and env_notifies: "env r ns r' \<Longrightarrow> ns = [] \<and> leader r' = leader r \<and> epoch r' = epoch r \<or>
      ns = [True] \<and> \<not> leader r \<and> leader r' \<and> epoch r' = Suc (epoch r) \<or>
      ns = [False] \<and> leader r \<and> \<not> leader r' \<and> epoch r' = epoch r"
    and env_fresh: "env r ns r' \<Longrightarrow> leader r \<Longrightarrow> leader r' \<Longrightarrow> acked r \<le> applied r \<Longrightarrow> acked r' \<le> applied r'"
    and barrier_fresh: "barrier r r' \<Longrightarrow> leader r \<and> leader r' \<and> epoch r' = epoch r \<and> acked r' \<le> applied r'"
begin

lemma raft_epoch:
  assumes "epoch_ok epoch leader acked applied (r, s, b)" and "env r ns r'"
  shows "epoch_ok epoch leader acked applied (r', s\<lparr>ld_notify := ld_notify s @ ns\<rparr>, b)"
  using env_notifies [OF assms(2)]
proof (elim disjE)
  assume "ns = [] \<and> leader r' = leader r \<and> epoch r' = epoch r"
  with assms env_fresh [OF assms(2)] show ?thesis by (auto simp: epoch_ok_def)
next
  assume "ns = [True] \<and> \<not> leader r \<and> leader r' \<and> epoch r' = Suc (epoch r)"
  with assms show ?thesis by (auto simp: epoch_ok_def alternates_snoc)
next
  assume "ns = [False] \<and> leader r \<and> \<not> leader r' \<and> epoch r' = epoch r"
  with assms show ?thesis by (auto simp: epoch_ok_def alternates_snoc)
qed

lemma monitor_epoch:
  assumes "epoch_ok epoch leader acked applied (r, s, b)" and "threads_ok s" and "monitorLeadership c s = Some s'"
  shows "epoch_ok epoch leader acked applied (r, s', b)"
  using assms(3)
proof (cases rule: monitor_cases)
  case shutdown
  with assms(1) show ?thesis by (cases "ld_loop s") (auto simp: epoch_ok_def believes_def close_stop_def passed_def)
next
  case leave
  with assms(1,2) show ?thesis by (auto simp: epoch_ok_def believes_def threads_ok_def)
qed (use assms(1,2) in \<open>auto simp: epoch_ok_def believes_def new_loop_def passed_def threads_ok_def\<close>)

lemma barrier_epoch:
  assumes "epoch_ok epoch leader acked applied (r, s, b)" and "barrier r r'"
  shows "epoch_ok epoch leader acked applied (r', s\<lparr>ld_loop := l', ld_ready := ready\<rparr>, epoch r')"
  using assms(1) barrier_fresh [OF assms(2)] by (auto simp: epoch_ok_def)

lemma loop_epoch:
  assumes "epoch_ok epoch leader acked applied (r, s, b)" and "ld_loop s = Some l" and "c \<noteq> BarrierOk"
    and "leaderLoop c l (ld_ready s) = Some (l', ready)"
  shows "epoch_ok epoch leader acked applied (r, s\<lparr>ld_loop := l', ld_ready := ready\<rparr>, b)"
  using assms loop_passed [of c l "ld_ready s"] by (auto simp: epoch_ok_def)

abbreviation lead_inv :: "'r lstate \<Rightarrow> bool" where
  "lead_inv x \<equiv> epoch_ok epoch leader acked applied x \<and> threads_ok (fst (snd x))"

lemma lstep_inv:
  assumes "lstep env barrier epoch x y" and "lead_inv x"
  shows "lead_inv y"
  using assms(1)
proof (cases rule: lstep.cases)
  case (raft r ns r' s b)
  with assms raft_epoch [of r s b ns r'] show ?thesis by simp
next
  case (monitor c s s' r b)
  with assms monitor_epoch [of r s b c s'] monitor_threads [of c s s'] show ?thesis by simp
next
  case (barrier s l r r' l' ready b)
  with assms barrier_epoch [of r s b r'] loop_threads [of BarrierOk l s l' ready] show ?thesis by simp
next
  case (loop s l c l' ready r b)
  with assms loop_epoch [of r s b l c l' ready] loop_threads [of c l s l' ready] show ?thesis by simp
next
  case (cancel s l r b)
  with assms cancel_threads [of s l] show ?thesis by (auto simp: epoch_ok_def passed_def)
next
  case (close r s b)
  with assms show ?thesis by (auto simp: epoch_ok_def)
qed

lemma lreach_inv:
  assumes "lreach env barrier epoch init x"
  shows "lead_inv x"
  using assms
proof (induction rule: lreach.induct)
  case (start r)
  then show ?case using init_follower [of r] by (simp add: epoch_ok_def) (simp add: new_lead_def believes_def)
qed (use lstep_inv in blast)

lemma ready_fresh:
  assumes "lreach env barrier epoch init (r, s, b)" and "ld_ready s = 1" and "leader r" and "ld_notify s = []"
  shows "acked r \<le> applied r"
proof -
  note inv = lreach_inv [OF assms(1)]
  have bel: "believes s" using inv assms(3,4) by (simp add: epoch_ok_def)
  obtain l where "ld_loop s = Some l" "lp_established l"
    using inv assms(2) by (auto simp: threads_ok_def split: option.splits if_splits)
  then have "epoch r \<le> b" using inv bel assms(4) by (simp add: epoch_ok_def passed_def)
  with inv assms(3) show ?thesis by (auto simp: epoch_ok_def)
qed

end

subsection \<open>A library that satisfies the contract\<close>

text \<open>
  A node that gains and loses leadership at will. While it follows, writes are acknowledged elsewhere;
  while it leads, none is acknowledged before it is applied here.
\<close>

record ref_lib =
  rl_leader :: bool
  rl_epoch :: nat
  rl_acked :: nat
  rl_applied :: nat

definition ref_env :: "ref_lib \<Rightarrow> bool list \<Rightarrow> ref_lib \<Rightarrow> bool" where
  "ref_env r ns r' \<longleftrightarrow>
     ns = [True] \<and> \<not> rl_leader r \<and> r' = r\<lparr>rl_leader := True, rl_epoch := Suc (rl_epoch r)\<rparr> \<or>
     ns = [False] \<and> rl_leader r \<and> r' = r\<lparr>rl_leader := False\<rparr> \<or>
     ns = [] \<and> \<not> rl_leader r \<and> r' = r\<lparr>rl_acked := Suc (rl_acked r)\<rparr> \<or>
     ns = [] \<and> r' = r\<lparr>rl_applied := Suc (rl_applied r)\<rparr> \<or>
     ns = [] \<and> rl_leader r \<and> rl_acked r < rl_applied r \<and> r' = r\<lparr>rl_acked := Suc (rl_acked r)\<rparr>"

definition ref_barrier :: "ref_lib \<Rightarrow> ref_lib \<Rightarrow> bool" where
  "ref_barrier r r' \<longleftrightarrow> rl_leader r \<and> r' = r\<lparr>rl_applied := max (rl_applied r) (rl_acked r)\<rparr>"

definition ref_init :: "ref_lib \<Rightarrow> bool" where
  "ref_init r \<longleftrightarrow> r = \<lparr>rl_leader = False, rl_epoch = 0, rl_acked = 0, rl_applied = 0\<rparr>"

interpretation solo: raft_leadership ref_env ref_barrier rl_epoch ref_init rl_leader rl_acked rl_applied
  by unfold_locales (auto simp: ref_env_def ref_barrier_def ref_init_def)

subsection \<open>Stopping the loop\<close>

text \<open>Steps of the loop alone, and a bound on how many a loop makes once its stop channel is closed.\<close>

fun loop_steps :: "loop_choice list \<Rightarrow> loop option \<times> u32 \<Rightarrow> (loop option \<times> u32) option" where
  "loop_steps [] x = Some x"
| "loop_steps (c # cs) (None, ready) = None"
| "loop_steps (c # cs) (Some l, ready) =
     (case leaderLoop c l ready of None \<Rightarrow> None | Some y \<Rightarrow> loop_steps cs y)"

fun loop_rank :: "loop_pc \<Rightarrow> nat" where
  "loop_rank LpReturn = 1"
| "loop_rank LpBlock = 2"
| "loop_rank LpPoll = 2"
| "loop_rank LpSetReady = 3"
| "loop_rank (LpTransfer n) = n + 3"
| "loop_rank LpRevoke = retryCount + 4"
| "loop_rank LpEstablish = retryCount + 5"
| "loop_rank LpBarrier = retryCount + 6"
| "loop_rank LpSelect = retryCount + 7"

lemma leaderLoop_stopped:
  assumes "leaderLoop c l ready = Some (Some l', ready')" and "lp_stop l"
  shows "lp_stop l' \<and> loop_rank (lp_pc l') < loop_rank (lp_pc l)"
  using assms
  by (cases "lp_pc l"; cases c)
     (auto simp: leaderLoop_def establishLeadership_def split: if_splits dest!: transfer_pc)

lemma leaderLoop_enabled: "lp_stop l \<Longrightarrow> \<exists>c. leaderLoop c l ready \<noteq> None"
proof (cases "lp_pc l")
  case (LpTransfer n)
  then show ?thesis by (cases n) (auto simp: leaderLoop_def intro: exI [of _ Proceed] exI [of _ TransferOk])
next
  case LpBarrier
  then show ?thesis by (auto simp: leaderLoop_def intro: exI [of _ BarrierErr])
qed (auto simp: leaderLoop_def intro: exI [of _ Proceed])

lemma loop_steps_stopped:
  assumes "loop_steps cs (Some l, ready) = Some (x, ready')" and "lp_stop l"
  shows "length cs \<le> loop_rank (lp_pc l)"
  using assms
proof (induction cs arbitrary: l ready)
  case (Cons c cs)
  then obtain y ready1 where y: "leaderLoop c l ready = Some (y, ready1)" "loop_steps cs (y, ready1) = Some (x, ready')"
    by (auto split: option.splits)
  have pos: "0 < loop_rank pc" for pc by (cases pc) (simp_all add: retryCount_def)
  show ?case
  proof (cases y)
    case None
    with y(2) show ?thesis using pos [of "lp_pc l"] by (cases cs) simp_all
  next
    case (Some l')
    with y Cons.prems leaderLoop_stopped [of c l ready l' ready1] Cons.IH [of l' ready1] show ?thesis by simp
  qed
qed simp

lemma loop_steps_stop:
  assumes "loop_steps cs (Some l, ready) = Some (Some l', ready')" and "lp_stop l"
  shows "lp_stop l'"
  using assms
proof (induction cs arbitrary: l ready)
  case (Cons c cs)
  then obtain y ready1 where y: "leaderLoop c l ready = Some (y, ready1)" "loop_steps cs (y, ready1) = Some (Some l', ready')"
    by (auto split: option.splits)
  then obtain l1 where "y = Some l1" by (cases y; cases cs) auto
  with y Cons leaderLoop_stopped [of c l ready l1 ready1] show ?case by auto
qed simp

text \<open>A loop that has established its leadership can only return, and revokes it.\<close>

lemma loop_steps_established:
  assumes "loop_steps cs (Some l, ready) = Some (None, ready')" and "lp_established l" and "loop_ok l"
  shows "ready' = 0"
  using assms
proof (induction cs arbitrary: l ready)
  case (Cons c cs)
  then obtain y ready1 where y: "leaderLoop c l ready = Some (y, ready1)" "loop_steps cs (y, ready1) = Some (None, ready')"
    by (auto split: option.splits)
  show ?case
  proof (cases y)
    case None
    with y Cons.prems show ?thesis
      by (cases cs) (auto simp: leaderLoop_def loop_ok_def revokeLeadership_def resetConsistentReadReady_def split: if_splits)
  next
    case (Some l1)
    with y(1) Cons.prems have "lp_established l1 \<and> loop_ok l1"
      by (auto simp: leaderLoop_def loop_ok_def split: if_splits)
    with Some y(2) Cons.IH [of l1 ready1] show ?thesis by simp
  qed
qed simp

end
