(* ===== verification/Engine_Properties.thy ===== *)
theory Engine_Properties
  imports Engine_Start Engine_Leader Cmd Fsm_Properties
begin

text \<open>The properties of the engine, of its leadership and of the client.\<close>

subsection \<open>Reads and writes\<close>

text \<open>
  C5. A write that succeeded can be read: after it, a local read of the key on the same node returns the
  value, and so does a consistent read once leadership is verified and the node is ready.
\<close>

theorem read_your_writes:
  assumes "raft_lib P view pend R" and "raft_Apply R now ctx key val s = (Inr i, s')"
    and "machine_inv (nd_store s) (nd_world s)" and "sm_open (nd_store s)"
  shows "nd_dbAppliedIndex s' = i \<and>
    raft_Query R P elapsed evs ctx' (bytes_of key) False s' = (Inr (rf_AppliedIndex R (nd_raft s'), bytes_of val), s') \<and>
    (rf_VerifyLeader R (nd_raft s') = (None, r) \<and> nd_ready s' = 1 \<longrightarrow>
      fst (raft_Query R P elapsed evs ctx' (bytes_of key) True s') = Inr (rf_AppliedIndex R r, bytes_of val))"
proof -
  note w = raft_lib.apply_writes [OF assms]
  have "local_read R P (bytes_of key) (s'\<lparr>nd_raft := x\<rparr>) = Inr (rf_AppliedIndex R x, bytes_of val)" for x
    using raft_lib.local_read_live [OF assms(1), of "s'\<lparr>nd_raft := x\<rparr>"] w by simp
  from this [of r] this [of "nd_raft s'"] w show ?thesis
    by (simp add: raft_Query_def ConsistentRead_def consistentReadWithContext_def isReadyForConsistentReads_def Let_def)
qed

definition demo_server :: "(ref_raft_state, ref_db) raftServer" where
  "demo_server = \<lparr>nd_raftId = ''nodeA'', nd_raftAddr = ''127.0.0.1:50051'', nd_raftDir = ''/data/meta'', nd_dbAppliedIndex = 0, nd_store = demo_machine 0,
     nd_raft = \<lparr>rr_leader = True, rr_index = 7, rr_known = ''127.0.0.1:50051'', rr_servers = []\<rparr>, nd_ready = 1,
     nd_world = demo_world []\<rparr>"

lemma one_lib: "raft_lib ref_pebble map_of (\<lambda>b. b) ref_raft"
  by unfold_locales

lemma demo_write:
  "\<exists>s'. raft_Apply ref_raft 0 \<lparr>ctx_deadline = None\<rparr> ''k'' ''v'' demo_server = (Inr 8, s') \<and>
    nd_raft s' = (nd_raft demo_server)\<lparr>rr_index := 8\<rparr> \<and> nd_ready s' = 1"
proof -
  obtain resp m w where a: "Apply ref_pebble \<lparr>log_Index = 8, log_Data = insert_command ''k'' ''v''\<rparr> (demo_machine 0) (demo_world []) = (resp, m, w)"
    by (metis surj_pair)
  have "spec_apply (insert_command ''k'' ''v'') (sm_kv map_of (demo_machine 0) (demo_world [])) = (resp, sm_kv map_of m w)"
    using pebble_live.Apply_refines [OF ref_live demo_inv _ a] by simp
  then have "resp_Error resp = None" by (auto simp: spec_apply_insert_command)
  with a show ?thesis by (simp add: raft_Apply_def ref_raft_def demo_server_def)
qed

theorem read_your_writes_witness:
  "\<exists>s'. raft_Apply ref_raft 0 \<lparr>ctx_deadline = None\<rparr> ''k'' ''v'' demo_server = (Inr 8, s') \<and>
    raft_Query ref_raft ref_pebble 0 [] \<lparr>ctx_deadline = None\<rparr> (bytes_of ''k'') False s' = (Inr (8, bytes_of ''v''), s') \<and>
    fst (raft_Query ref_raft ref_pebble 0 [] \<lparr>ctx_deadline = None\<rparr> (bytes_of ''k'') True s') = Inr (8, bytes_of ''v'')"
proof -
  obtain s' where s': "raft_Apply ref_raft 0 \<lparr>ctx_deadline = None\<rparr> ''k'' ''v'' demo_server = (Inr 8, s')"
      "nd_raft s' = (nd_raft demo_server)\<lparr>rr_index := 8\<rparr>" "nd_ready s' = 1"
    using demo_write by blast
  have "machine_inv (nd_store demo_server) (nd_world demo_server)" "sm_open (nd_store demo_server)"
    by (simp_all add: demo_server_def)
  from read_your_writes [OF one_lib s'(1) this, of 0 "[]" "\<lparr>ctx_deadline = None\<rparr>" "nd_raft s'"] s' show ?thesis
    by (simp add: ref_raft_def demo_server_def)
qed

text \<open>
  C9. A linearizable read on a node that is not the leader never answers from the local store: its answer
  came from a remote call, and the node is unchanged.
\<close>

theorem linearizable_get_follower:
  assumes "raft_lib P view pend R"
    and "Get (raft_kv R P now elapsed evs stats) res E invoke ctx req s cc = (Inr resp, s', cc')"
    and "greq_Linearizable req" and "\<not> rf_leader R (nd_raft s)"
  shows "s' = s \<and> (\<exists>c. invoke c ''/Example/Get'' req = Inr resp)"
  by (rule raft_lib.follower_get [OF assms])

theorem linearizable_get_follower_witness:
  "\<exists>s' cc'. Get (raft_kv ref_raft ref_pebble 0 0 [] (\<lambda>s. (Inr (), s))) (NewGrpcService [(''127.0.0.1:50051'', ''127.0.0.1:40051'')])
      \<lparr>re_toCamel = (\<lambda>s. s), re_state = (\<lambda>c. Ready), re_state' = (\<lambda>c. Ready), re_dial = (\<lambda>a. None)\<rparr>
      (\<lambda>c m req. Inr \<lparr>gresp_ReadAtIndex = 9, gresp_Value = ''v''\<rparr>) \<lparr>ctx_deadline = None\<rparr> \<lparr>greq_Key = ''k'', greq_Linearizable = True\<rparr>
      (demo_server\<lparr>nd_raft := (nd_raft demo_server)\<lparr>rr_leader := False\<rparr>\<rparr>) no_conns
    = (Inr \<lparr>gresp_ReadAtIndex = 9, gresp_Value = ''v''\<rparr>, s', cc') \<and>
    s' = demo_server\<lparr>nd_raft := (nd_raft demo_server)\<lparr>rr_leader := False\<rparr>\<rparr>"
proof -
  let ?s = "demo_server\<lparr>nd_raft := (nd_raft demo_server)\<lparr>rr_leader := False\<rparr>\<rparr>"
  let ?E = "\<lparr>re_toCamel = (\<lambda>s. s), re_state = (\<lambda>c. Ready), re_state' = (\<lambda>c. Ready), re_dial = (\<lambda>a. None)\<rparr>"
  have "\<exists>s' cc'. Get (raft_kv ref_raft ref_pebble 0 0 [] (\<lambda>s. (Inr (), s))) (NewGrpcService [(''127.0.0.1:50051'', ''127.0.0.1:40051'')]) ?E
      (\<lambda>c m req. Inr \<lparr>gresp_ReadAtIndex = 9, gresp_Value = ''v''\<rparr>) \<lparr>ctx_deadline = None\<rparr> \<lparr>greq_Key = ''k'', greq_Linearizable = True\<rparr> ?s no_conns
    = (Inr \<lparr>gresp_ReadAtIndex = 9, gresp_Value = ''v''\<rparr>, s', cc')"
    by (simp add: Get_def forwardRequestToLeader_def raft_kv_def GetLeader_def IsLeader_def ref_raft_def demo_server_def NewGrpcService_def
        getOrCreateConn_def conn_lookup_def no_conns_def conn_create_def conn_dial_def)
  then obtain s' cc' where run: "Get (raft_kv ref_raft ref_pebble 0 0 [] (\<lambda>s. (Inr (), s))) (NewGrpcService [(''127.0.0.1:50051'', ''127.0.0.1:40051'')]) ?E
      (\<lambda>c m req. Inr \<lparr>gresp_ReadAtIndex = 9, gresp_Value = ''v''\<rparr>) \<lparr>ctx_deadline = None\<rparr> \<lparr>greq_Key = ''k'', greq_Linearizable = True\<rparr> ?s no_conns
    = (Inr \<lparr>gresp_ReadAtIndex = 9, gresp_Value = ''v''\<rparr>, s', cc')"
    by blast
  have "s' = ?s" using linearizable_get_follower [OF one_lib run] by (simp add: ref_raft_def demo_server_def)
  with run show ?thesis by blast
qed

subsection \<open>Leadership\<close>

text \<open>
  C4. Consistent reads are fresh once the notifications are handled: in every reachable interleaving of
  the library, the monitor and the leader loop, if the node is ready for consistent reads, leads, and has no
  pending notification, then its state machine has every acknowledged write.
\<close>

theorem consistent_read_fresh:
  assumes "raft_leadership env barrier epoch init leader acked applied"
    and "lreach env barrier epoch init (r, s, b)" and "ld_ready s = 1" and "leader r" and "ld_notify s = []"
  shows "acked r \<le> applied r"
  using assms by (rule raft_leadership.ready_fresh)

lemma solo_lib: "raft_leadership ref_env ref_barrier rl_epoch ref_init rl_leader rl_acked rl_applied"
  by unfold_locales

text \<open>A node that was elected, had its notification handled, passed its barrier and became ready.\<close>

definition elected :: ref_lib where
  "elected = \<lparr>rl_leader = True, rl_epoch = 1, rl_acked = 0, rl_applied = 0\<rparr>"

definition ready_lead :: lead where
  "ready_lead = \<lparr>ld_ready = 1, ld_notify = [], ld_shutdown = False, ld_mon = MonSelect, ld_cancel = True,
     ld_loop = Some \<lparr>lp_pc = LpBlock, lp_stop = False, lp_cancelled = False, lp_established = True\<rparr>\<rparr>"

lemma lreach_raft:
  "lreach env barrier epoch init (r, s, b) \<Longrightarrow> env r ns r' \<Longrightarrow> s' = s\<lparr>ld_notify := ld_notify s @ ns\<rparr> \<Longrightarrow>
   lreach env barrier epoch init (r', s', b)"
  by (auto intro: lreach.step lstep.raft)

lemma lreach_monitor:
  "lreach env barrier epoch init (r, s, b) \<Longrightarrow> monitorLeadership c s = Some s' \<Longrightarrow> lreach env barrier epoch init (r, s', b)"
  by (auto intro: lreach.step lstep.monitor)

lemma lreach_barrier:
  "lreach env barrier epoch init (r, s, b) \<Longrightarrow> ld_loop s = Some l \<Longrightarrow> barrier r r' \<Longrightarrow>
   leaderLoop BarrierOk l (ld_ready s) = Some (l', ready) \<Longrightarrow> s' = s\<lparr>ld_loop := l', ld_ready := ready\<rparr> \<Longrightarrow> b' = epoch r' \<Longrightarrow>
   lreach env barrier epoch init (r', s', b')"
  by (auto intro: lreach.step lstep.barrier)

lemma lreach_loop:
  "lreach env barrier epoch init (r, s, b) \<Longrightarrow> ld_loop s = Some l \<Longrightarrow> c \<noteq> BarrierOk \<Longrightarrow>
   leaderLoop c l (ld_ready s) = Some (l', ready) \<Longrightarrow> s' = s\<lparr>ld_loop := l', ld_ready := ready\<rparr> \<Longrightarrow>
   lreach env barrier epoch init (r, s', b)"
  by (auto intro: lreach.step lstep.loop)

abbreviation starting_loop :: "loop_pc \<Rightarrow> loop" where
  "starting_loop pc \<equiv> \<lparr>lp_pc = pc, lp_stop = False, lp_cancelled = False, lp_established = False\<rparr>"

abbreviation starting_lead :: "loop_pc \<Rightarrow> lead" where
  "starting_lead pc \<equiv> \<lparr>ld_ready = 0, ld_notify = [], ld_shutdown = False, ld_mon = MonSelect, ld_cancel = True,
     ld_loop = Some (starting_loop pc)\<rparr>"

lemma becomes_ready: "lreach ref_env ref_barrier rl_epoch ref_init (elected, ready_lead, 1)"
proof -
  let ?R = "lreach ref_env ref_barrier rl_epoch ref_init"
  have "?R (\<lparr>rl_leader = False, rl_epoch = 0, rl_acked = 0, rl_applied = 0\<rparr>, new_lead, 0)"
    by (rule lreach.start) (simp add: ref_init_def)
  then have "?R (elected, new_lead\<lparr>ld_notify := [True]\<rparr>, 0)"
    by (rule lreach_raft [where ns = "[True]"]) (simp_all add: ref_env_def elected_def new_lead_def)
  then have "?R (elected, starting_lead LpBarrier, 0)"
    by (rule lreach_monitor [where c = OnNotify]) (simp add: monitorLeadership_def new_lead_def new_loop_def)
  then have "?R (elected, starting_lead LpEstablish, 1)"
    by (rule lreach_barrier [where l = "starting_loop LpBarrier" and l' = "Some (starting_loop LpEstablish)" and ready = 0])
       (simp_all add: ref_barrier_def elected_def leaderLoop_def)
  then have "?R (elected, starting_lead LpSetReady, 1)"
    by (rule lreach_loop [where l = "starting_loop LpEstablish" and c = Proceed and l' = "Some (starting_loop LpSetReady)" and ready = 0])
       (simp_all add: leaderLoop_def establishLeadership_def)
  then show ?thesis
    by (rule lreach_loop [where l = "starting_loop LpSetReady" and c = Proceed and l' = "ld_loop ready_lead" and ready = 1])
       (simp_all add: leaderLoop_def setConsistentReadReady_def ready_lead_def)
qed

theorem consistent_read_fresh_witness:
  "lreach ref_env ref_barrier rl_epoch ref_init (elected, ready_lead, 1) \<and> ld_ready ready_lead = 1 \<and> rl_acked elected \<le> rl_applied elected"
  using consistent_read_fresh [OF solo_lib becomes_ready] becomes_ready by (simp add: ready_lead_def elected_def)

text \<open>
  C29. A pending notification leaves a window for stale reads: a node that loses leadership and gains it back before
  the monitor has handled the loss leads and is still marked as ready by its earlier leadership, while
  its state machine lacks a write that was acknowledged in between.
\<close>

theorem stale_ready_window:
  "\<exists>r s b. lreach ref_env ref_barrier rl_epoch ref_init (r, s, b) \<and> ld_ready s = 1 \<and> rl_leader r \<and>
    rl_applied r < rl_acked r"
proof -
  let ?R = "lreach ref_env ref_barrier rl_epoch ref_init"
  let ?r = "\<lambda>lead ep ack. \<lparr>rl_leader = lead, rl_epoch = ep, rl_acked = ack, rl_applied = 0\<rparr>"
  have "?R (?r False 1 0, ready_lead\<lparr>ld_notify := [False]\<rparr>, 1)"
    using becomes_ready
    by (rule lreach_raft [where ns = "[False]"]) (simp_all add: ref_env_def elected_def ready_lead_def)
  then have "?R (?r False 1 1, ready_lead\<lparr>ld_notify := [False]\<rparr>, 1)"
    by (rule lreach_raft [where ns = "[]"]) (simp_all add: ref_env_def)
  then have "?R (?r True 2 1, ready_lead\<lparr>ld_notify := [False, True]\<rparr>, 1)"
    by (rule lreach_raft [where ns = "[True]"]) (simp_all add: ref_env_def)
  then show ?thesis by (intro exI conjI) (assumption, simp_all add: ready_lead_def)
qed

text \<open>
  C8. The flag for consistent reads follows leadership: in every reachable interleaving it is set exactly
  while a leader loop that has established its leadership has not returned. A loop runs only while the monitor
  holds its channel, it has been told to stop exactly while the monitor waits for it to return, and there is none,
  and the flag is not set, once the monitor has dropped the channel or has exited. Without pending notifications the monitor
  and the library agree on who leads. Being told to stop does not clear the flag of a loop, its return does.
\<close>

theorem leadership_flag:
  assumes "raft_leadership env barrier epoch init leader acked applied" and "lreach env barrier epoch init (r, s, b)"
  shows "(ld_ready s = 1 \<longleftrightarrow> (\<exists>l. ld_loop s = Some l \<and> lp_established l)) \<and> (ld_ready s = 0 \<or> ld_ready s = 1) \<and>
    (\<not> ld_cancel s \<or> ld_mon s = MonExit \<longrightarrow> ld_loop s = None \<and> ld_ready s = 0) \<and>
    (\<forall>l. ld_loop s = Some l \<longrightarrow> (lp_stop l \<longleftrightarrow> (\<exists>lost. ld_mon s = MonJoin lost))) \<and>
    (ld_notify s = [] \<longrightarrow> (ld_cancel s \<and> ld_mon s \<noteq> MonJoin True \<longleftrightarrow> leader r))"
proof -
  have t: "threads_ok s" and e: "epoch_ok epoch leader acked applied (r, s, b)"
    using raft_leadership.lreach_inv [OF assms] by simp_all
  have "ld_notify s = [] \<longrightarrow> believes s = leader r" using e by (simp add: epoch_ok_def)
  then show ?thesis using t by (cases "ld_loop s") (auto simp: threads_ok_def believes_def)
qed

theorem leadership_flag_witness:
  "lreach ref_env ref_barrier rl_epoch ref_init (elected, ready_lead, 1) \<and> ld_ready ready_lead = 1 \<and>
    (\<exists>l. ld_loop ready_lead = Some l \<and> lp_established l)"
proof -
  have "ld_ready ready_lead = 1" by (simp add: ready_lead_def)
  then show ?thesis using leadership_flag [OF solo_lib becomes_ready] becomes_ready by simp
qed

text \<open>
  C28. A leader loop that was told to stop ends: from then on it can always make a step until it has returned,
  and it makes no more steps than its rank, at most ten for a loop that the program starts.
\<close>

theorem stopped_loop_ends:
  assumes "lp_stop l" and "loop_steps cs (Some l, ready) = Some (x, ready')"
  shows "length cs \<le> loop_rank (lp_pc l) \<and> (\<forall>l'. x = Some l' \<longrightarrow> (\<exists>c. leaderLoop c l' ready' \<noteq> None)) \<and>
    (x = None \<and> lp_established l \<and> loop_ok l \<longrightarrow> ready' = 0)"
  using assms loop_steps_stopped [OF assms(2,1)] loop_steps_stop [of cs l ready _ ready'] leaderLoop_enabled
    loop_steps_established [of cs l ready ready']
  by blast

theorem stopped_loop_ends_witness:
  "\<exists>ready'. loop_steps [Proceed, Proceed] (Some \<lparr>lp_pc = LpBlock, lp_stop = True, lp_cancelled = False, lp_established = True\<rparr>, 1)
      = Some (None, ready') \<and> ready' = 0"
proof -
  have run: "loop_steps [Proceed, Proceed] (Some \<lparr>lp_pc = LpBlock, lp_stop = True, lp_cancelled = False, lp_established = True\<rparr>, 1)
      = Some (None, 0)"
    by (simp add: leaderLoop_def revokeLeadership_def resetConsistentReadReady_def)
  with stopped_loop_ends [OF _ run] show ?thesis by simp
qed

subsection \<open>Random identifiers\<close>

text \<open>
  C38. A random identifier has the length asked for and only characters of the alphabet, and the loop
  returns one as soon as the source has given enough bytes at or below the bound.
\<close>

theorem random_id:
  assumes "0 < idLen" and "idLen \<le> (\<Sum>j < fuel. length (filter (\<lambda>c. c \<le> max_random 62) (src j)))"
  shows "\<exists>s. randomId fuel src idLen = Some s \<and> length s = idLen \<and> set s \<subseteq> set idChars"
  using assms by (rule randomId_returns)

theorem random_id_witness:
  "\<exists>s. randomId 2 (\<lambda>i. if i = 0 then [255, 3] else [70, 4]) 2 = Some s \<and> length s = 2 \<and> set s \<subseteq> set idChars"
proof -
  have two: "{..<2 :: nat} = {0, 1}" by auto
  have "max_random 62 = 247" by code_simp
  then have "2 \<le> (\<Sum>j < 2. length (filter (\<lambda>c. c \<le> max_random 62) (if j = (0 :: nat) then [255, 3] else [70, 4])))"
    by (simp add: two)
  then show ?thesis using random_id [where idLen = 2 and fuel = 2 and src = "\<lambda>i. if i = 0 then [255, 3] else [70, 4]"] by simp
qed

text \<open>With length 0 no call gives a byte, and the loop runs forever.\<close>

lemma random_id_empty:
  assumes "\<And>i. length (src i) = request_length 0"
  shows "randomId fuel src 0 = None"
proof -
  have "src i = []" for i using assms [of i] by (simp add: request_length_def)
  then have "random_loop fuel src maxrb m 0 i [] = None" for maxrb m i
    by (induction fuel arbitrary: i) simp_all
  then show ?thesis by (simp add: randomId_def randomBytesMod_def)
qed

text \<open>
  C39. Random bytes are not biased: for every modulus, each remainder comes from equally many of the bytes that
  the bound keeps.
\<close>

theorem random_unbiased:
  assumes "v < m"
  shows "card {c. c \<le> max_random m \<and> c mod m = v} = 256 div unat m"
proof -
  have m: "0 < m" using assms by (metis word_not_simps(1) word_neq_0_conv)
  then have M: "0 < unat m" "unat v < unat m" using assms by (simp_all add: word_less_nat_alt)
  have le: "c \<le> max_random m \<longleftrightarrow> unat c < (256 div unat m) * unat m" for c
  proof -
    have "256 div unat m * unat m + 256 mod unat m = 256" by (rule div_mult_mod_eq)
    moreover have "256 mod unat m \<le> 255"
      using M(1) unsigned_less [of m, where 'a = nat] mod_less_divisor [of "unat m" 256] by (simp del: mod_less_divisor)
    ultimately show ?thesis unfolding word_le_nat_alt max_random_nat [OF m] by linarith
  qed
  have "bij_betw unat {c. c \<le> max_random m \<and> c mod m = v} {n. n < (256 div unat m) * unat m \<and> n mod unat m = unat v}"
  proof (rule bij_betwI')
    fix n assume n: "n \<in> {n. n < (256 div unat m) * unat m \<and> n mod unat m = unat v}"
    then have "n < 256" using div_times_less_eq_dividend [of 256 "unat m"] by (auto intro: less_le_trans)
    then have u: "unat (of_nat n :: byte) = n" by (simp add: unat_of_nat)
    then have "(of_nat n :: byte) mod m = v" using n by (simp add: word_unat_eq_iff unat_mod_distrib)
    then show "\<exists>c \<in> {c. c \<le> max_random m \<and> c mod m = v}. n = unat c"
      using n u by (intro bexI [of _ "of_nat n"]) (simp_all add: le)
  next
    fix c assume "c \<in> {c. c \<le> max_random m \<and> c mod m = v}"
    then show "unat c \<in> {n. n < (256 div unat m) * unat m \<and> n mod unat m = unat v}"
      unfolding mem_Collect_eq le by (metis unat_mod_distrib)
  qed (simp add: word_unat_eq_iff)
  from bij_betw_same_card [OF this] show ?thesis unfolding mod_block_card [OF M] .
qed

theorem random_unbiased_witness:
  "card {c :: byte. c \<le> max_random 62 \<and> c mod 62 = 7} = 4"
proof -
  have "256 div unat (62 :: byte) = 4" "(7 :: byte) < 62" by simp_all
  then show ?thesis using random_unbiased [of 7 62] by metis
qed

subsection \<open>Starting and closing\<close>

lemma newStore_open:
  assumes "newStore P dir rn ct w = (Inr st, w')"
  shows "st_db st \<in> set (w_open w')"
proof -
  have "k \<in> set (w_open w2)" if "db_open P p w1 = (Inr k, w2)" for p w1 k w2
    using that by (auto simp: db_open_def os_call_def Let_def split: option.splits if_splits sum.splits)
  with assms show ?thesis by (auto simp: newStore_def split: prod.splits sum.splits)
qed

text \<open>
  C32. A start that fails after the state machine was opened leaves it open: the error of \<open>newRaft\<close> is
  returned with the raft store and the transport as they are, the database of the state machine is still open,
  and every later attempt to open that database in the process fails.
\<close>

theorem engine_start_failure:
  assumes "NewStateMachine P (ec_RaftAddr cfg) (ec_NodeID cfg)
      (filepath_Join (filepath_Join (ec_RaftDir cfg) (ec_NodeID cfg)) ''user_data'') rn ct w = (Inr m, w')"
    and "newRaft L (filepath_Join (filepath_Join (ec_RaftDir cfg) (ec_NodeID cfg)) ''meta_data'') (ec_NodeID cfg)
      (ec_RaftAddr cfg) m (ec_RaftBootstrap cfg) = (Inl e, ops)"
  shows "NewEngineWithConfig P L cfg rn ct w = (Inl e, ops, w') \<and> st_db (sm_store m) \<in> set (w_open w') \<and>
    (\<forall>p. w_key w' p = st_db (sm_store m) \<longrightarrow> (\<exists>e'. fst (db_open P p w') = Inl e'))"
proof -
  obtain st where "newStore P (filepath_Join (filepath_Join (ec_RaftDir cfg) (ec_NodeID cfg)) ''user_data'') rn ct w = (Inr st, w')"
      "sm_store m = st"
    using assms(1) by (auto simp: NewStateMachine_def split: prod.splits sum.splits)
  then have o: "st_db (sm_store m) \<in> set (w_open w')" using newStore_open by blast
  then have "w_key w' p = st_db (sm_store m) \<longrightarrow> (\<exists>e'. fst (db_open P p w') = Inl e')" for p
    by (auto simp: db_open_def os_call_def Let_def tick_def split: option.splits)
  with o assms show ?thesis by (simp add: NewEngineWithConfig_def Let_def)
qed

text \<open>
  The library refuses a configuration whose leader lease is longer than its heartbeat timeout. The
  configuration of the program has a lease of 1500 ms and a heartbeat timeout of 1000 ms, so with such a
  library no start succeeds.
\<close>

lemma lease_refused:
  assumes "\<And>c. rc_HeartbeatTimeout c < rc_LeaderLeaseTimeout c \<Longrightarrow> lc_NewRaft L c \<noteq> None"
  shows "\<exists>e. fst (newRaft L baseDir nodeId raftAddr m b) = Inl e"
proof -
  have "lc_NewRaft L (raft_config nodeId) \<noteq> None"
    by (rule assms) (simp add: raft_config_def millisecond_def)
  then show ?thesis by (auto simp: newRaft_def split: option.splits)
qed

definition refusing_lib :: "unit lib_calls" where
  "refusing_lib =
     \<lparr>lc_NewPebbleStore = (\<lambda>p. None), lc_NewFileSnapshotStore = (\<lambda>p. None), lc_ResolveTCPAddr = (\<lambda>a. None),
      lc_NewTCPTransport = (\<lambda>a. None),
      lc_NewRaft = (\<lambda>c. if rc_HeartbeatTimeout c < rc_LeaderLeaseTimeout c then Some (ErrNew ''LeaderLeaseTimeout'') else None),
      lc_BootstrapCluster = (\<lambda>s. None), lc_AppliedIndex = 0,
      lc_DefaultLANConfig = \<lparr>ml_Name = [], ml_BindAddr = ''0.0.0.0'', ml_BindPort = 7946, ml_AdvertiseAddr = [], ml_AdvertisePort = 7946\<rparr>, lc_memberlist_Create = (\<lambda>c. Inr ()), lc_Listen = (\<lambda>a. None)\<rparr>"

definition demo_config :: EngineConfig where
  "demo_config = \<lparr>ec_RaftDir = ''/d'', ec_NodeID = ''n1'', ec_RaftAddr = ''127.0.0.1:50051'', ec_GRPCAddr = ''127.0.0.1:40051'',
     ec_RaftBootstrap = True, ec_GossipEnabled = False, ec_GossipAddr = [], ec_GossipSeeds = [], ec_StaticLookup = defaultStaticLookup\<rparr>"

lemma demo_dir:
  "filepath_Join (filepath_Join ''/d'' ''n1'') ''user_data'' = ''/d/n1/user_data''"
  "resolve [] ''/d/n1/user_data'' = [''d'', ''n1'', ''user_data'']"
  by code_simp+

lemma demo_start:
  "\<exists>m w'. NewStateMachine ref_pebble addr node ''/d/n1/user_data'' 5 7 empty_world = (Inr m, w')"
proof -
  have "healthy empty_world" "w_key empty_world ''/d/n1/user_data'' = [''d'', ''n1'', ''user_data'']"
    "\<exists>ns. mkdirs [] [''d'', ''n1'', ''user_data''] (w_nodes empty_world) = Some ns"
    by (simp_all add: empty_world_def healthy_def demo_dir map_set_def)
  then obtain st w' where "newStore ref_pebble ''/d/n1/user_data'' 5 7 empty_world = (Inr st, w')"
    using pebble_live.newStore_first [OF ref_live, of empty_world "''/d/n1/user_data''" _ _ 5 7]
    by (fastforce simp: empty_world_def is_dir_def)
  then show ?thesis by (simp add: NewStateMachine_def)
qed

theorem engine_start_failure_witness:
  "\<exists>e w' k. NewEngineWithConfig ref_pebble refusing_lib demo_config 5 7 empty_world = (Inl e, [RaftDB, Transport], w') \<and>
    k \<in> set (w_open w')"
proof -
  obtain m w' where m: "NewStateMachine ref_pebble ''127.0.0.1:50051'' ''n1'' ''/d/n1/user_data'' 5 7 empty_world = (Inr m, w')"
    using demo_start by blast
  obtain e where e: "newRaft refusing_lib (filepath_Join (filepath_Join ''/d'' ''n1'') ''meta_data'') ''n1'' ''127.0.0.1:50051'' m True
      = (Inl e, [RaftDB, Transport])"
    by (simp add: newRaft_def refusing_lib_def raft_config_def millisecond_def)
  from engine_start_failure [of ref_pebble demo_config 5 7 empty_world m w' refusing_lib e] m e show ?thesis
    by (auto simp: demo_config_def demo_dir)
qed

text \<open>
  Without gossip the engine gives its clients a resolver that resolves nothing, while its service uses the
  lookup table of the configuration.
\<close>

lemma static_resolver_unused:
  assumes "NewEngineWithConfig P L cfg rn ct w = (Inr e, ops, w')" and "\<not> ec_GossipEnabled cfg"
  shows "GetGRPCAddr (GetResolver e) a = None \<and> eng_service e = NewGrpcService (ec_StaticLookup cfg)"
  using NewEngine_static [OF assms] by (simp add: GetResolver_def NewStaticResolver_def static_GetGRPCAddr_def)

text \<open>The engine closes the cached connections before its server stops: what a request dials in between stays open.\<close>

lemma shutdown_leaves_connections:
  assumes "conns_inv cc" and "dial addr = None" and "\<not> eng_closed e"
    and "engine_Close graceful [CreateOp st dial addr] e cc w = (acts, e', cc', w')"
  shows "cc_open cc' = [cc_next cc]"
proof -
  have "cc' = conn_step (CreateOp st dial addr) (CloseAllConns cc)"
    using assms(3,4) by (auto simp: engine_Close_def split: prod.splits)
  then show ?thesis using assms(1,2) by (simp add: CloseAllConns_empty conn_create_def conn_dial_def Let_def)
qed

end
