(* ===== verification/Service_Properties.thy ===== *)
theory Service_Properties
  imports Service Blocking_Query
begin

text \<open>The properties of node discovery, of the connection cache and of the RPC handlers.\<close>

subsection \<open>Node discovery\<close>

text \<open>
  C13. The node table follows the events: after any sequence of join, update and leave events,
  whatever bytes they carry, the address found for a node is that of the last event that decodes and
  names it; none if that was a leave; and what it was before if there was no such event.
\<close>

theorem gossip_directory:
  "gossip_GetGRPCAddr (fold notify evs g) n =
    (case last_event nm_NodeID n (List.map_filter book_event_of evs) of
       None \<Rightarrow> gossip_GetGRPCAddr g n
     | Some (Put meta) \<Rightarrow> Some (nm_GRPCAddr meta)
     | Some (Del meta) \<Rightarrow> None)"
  unfolding notify_run by (rule gsp.get_run)

text \<open>
  C25. What a node announces is what the others learn: the metadata a node hands to the membership
  library makes every node that receives it resolve the announcing node to its gRPC address, for any
  names and addresses that are valid UTF-8.
\<close>

theorem announced_node_found:
  assumes "valid_meta (g_localMeta g)"
  shows "gossip_GetGRPCAddr (NotifyJoin (delegate_NodeMeta g limit) g') (nm_NodeID (g_localMeta g)) = Some (nm_GRPCAddr (g_localMeta g)) \<and>
    gossip_GetGRPCAddr (NotifyLeave (delegate_NodeMeta g limit) g') (nm_NodeID (g_localMeta g)) = None"
proof -
  have "unmarshal_NodeMeta (delegate_NodeMeta g limit) = Inr (g_localMeta g)"
    by (simp add: delegate_NodeMeta_def unmarshal_marshal_NodeMeta [OF assms])
  then show ?thesis
    by (simp add: NotifyJoin_def NotifyLeave_def delegate_NodeMeta_def gsp.get_put gsp.get_del)
qed

definition demo_meta :: NodeMeta where
  "demo_meta = \<lparr>nm_NodeID = ''nodeA'', nm_RaftAddr = ''127.0.0.1:50051'', nm_GRPCAddr = ''127.0.0.1:40051''\<rparr>"

definition demo_gossip :: Gossip where
  "demo_gossip = \<lparr>g_localMeta = demo_meta, g_nodes = [(''nodeA'', demo_meta)], g_onJoin = True, g_onLeave = True, g_calls = []\<rparr>"

lemma demo_meta_valid: "valid_meta demo_meta"
  by (simp add: valid_meta_def demo_meta_def bytes_of_def byte_of_def valid_utf8.simps(2) utf8_len.simps(2))

theorem announced_node_found_witness:
  "gossip_GetGRPCAddr (NotifyJoin (delegate_NodeMeta demo_gossip 512) (demo_gossip\<lparr>g_nodes := []\<rparr>)) ''nodeA'' = Some ''127.0.0.1:40051''"
proof -
  have "valid_meta (g_localMeta demo_gossip)" using demo_meta_valid by (simp add: demo_gossip_def)
  from announced_node_found [OF this, of 512 "demo_gossip\<lparr>g_nodes := []\<rparr>"] show ?thesis
    by (simp add: demo_gossip_def demo_meta_def)
qed

lemma esc_ascii_length: "1 \<le> length (esc_ascii b)"
  by (simp add: esc_ascii_def)

lemma enc_str_length: "length s \<le> length (enc_str s)"
proof (induction s rule: enc_str.induct)
  case (2 b bs)
  show ?case
  proof (cases "b < 128")
    case True
    with 2(1) esc_ascii_length [of b] show ?thesis by (simp add: enc_str.simps(2))
  next
    case False
    have "length (take (utf8_len (b # bs)) (b # bs)) + length (drop (utf8_len (b # bs) - 1) bs) = Suc (length bs)"
      if "utf8_len (b # bs) \<noteq> 0"
      using that utf8_len_le [of b bs] by (cases "utf8_len (b # bs)") auto
    with 2(2-) False show ?thesis by (auto simp: enc_str.simps(2))
  qed
qed simp

text \<open>
  The size of the announcement is not bounded by the limit the membership library gives: it is at
  least the sum of the lengths of the name and the addresses, whatever the limit.
\<close>

lemma announcement_size:
  "length (nm_NodeID (g_localMeta g)) + length (nm_RaftAddr (g_localMeta g)) + length (nm_GRPCAddr (g_localMeta g))
    < length (delegate_NodeMeta g limit)"
  using enc_str_length [of "bytes_of (nm_NodeID (g_localMeta g))"] enc_str_length [of "bytes_of (nm_RaftAddr (g_localMeta g))"]
    enc_str_length [of "bytes_of (nm_GRPCAddr (g_localMeta g))"]
  by (simp add: delegate_NodeMeta_def marshal_NodeMeta_def obj_text_def quoted_def)

text \<open>
  C37. An address that is written with a host and a port is parsed back into them, with or without
  the brackets of an IPv6 host.
\<close>

theorem parse_host_port:
  assumes "plain_host h" and "int64_range p"
  shows "ParseHostPort (CHR ''['' # h @ CHR '']'' # CHR '':'' # show_int p) = Inr (h, p) \<and>
    (CHR '':'' \<notin> set h \<longrightarrow> ParseHostPort (h @ CHR '':'' # show_int p) = Inr (h, p))"
proof -
  have "c = CHR ''-'' \<or> of_char c \<in> {48..57::nat}" if "c \<in> set (show_int p)" for c
    using that by (auto simp: show_int_def dest: show_nat_set split: if_splits)
  from this [of "CHR ''[''"] this [of "CHR '']''"] this [of "CHR '':''"]
  have "plain_host (show_int p) \<and> CHR '':'' \<notin> set (show_int p)" by (auto simp: plain_host_def)
  with assms show ?thesis
    by (simp add: ParseHostPort_def SplitHostPort_bracketed SplitHostPort_plain ParseInt_show_int)
qed

theorem parse_host_port_witness:
  "ParseHostPort ''[::1]:80'' = Inr (''::1'', 80) \<and> ParseHostPort ''0.0.0.0:80'' = Inr (''0.0.0.0'', 80)"
proof -
  have port: "show_int 80 = ''80''" by code_simp
  have "plain_host ''::1''" "plain_host ''0.0.0.0''" "CHR '':'' \<notin> set ''0.0.0.0''" "int64_range 80"
    by (simp_all add: plain_host_def int64_range_def)
  with parse_host_port [of "''::1''" 80] parse_host_port [of "''0.0.0.0''" 80]
  have "ParseHostPort (CHR ''['' # ''::1'' @ CHR '']'' # CHR '':'' # ''80'') = Inr (''::1'', 80)"
    "ParseHostPort (''0.0.0.0'' @ CHR '':'' # ''80'') = Inr (''0.0.0.0'', 80)"
    unfolding port by blast+
  then show ?thesis by simp
qed

subsection \<open>Connections\<close>

text \<open>
  C12. Connections neither leak nor double: after any interleaving of requests and of closing all
  connections, the open connections are exactly the cached ones, no two addresses share one, and a
  request that is served gets an open one. Two requests that both missed the cache share the
  connection of the first, while it is usable.
\<close>

theorem conn_cache:
  assumes "cc = fold conn_step ops no_conns" and "getOrCreateConn st st' dial addr cc = (Inr c, cc1)"
  shows "set (cc_open cc1) = snd ` set (cc_cache cc1) \<and> distinct (map snd (cc_cache cc1)) \<and> c \<in> set (cc_open cc1) \<and>
    map_of (cc_cache cc1) addr = Some c \<and> (usable (st2 c) \<longrightarrow> conn_create st2 dial2 addr cc1 = (Inr c, cc1))"
proof -
  have inv: "conns_inv cc" using assms(1) by (simp add: conn_run_inv)
  have "map_of (cc_cache cc1) addr = Some c \<and> conns_inv cc1"
  proof (cases "conn_create st' dial addr cc = (Inr c, cc1)")
    case True
    with conn_create_cached conn_create_inv [OF inv, of st' dial addr] show ?thesis by auto
  next
    case False
    with assms(2) inv show ?thesis
      by (auto simp: getOrCreateConn_def conn_lookup_def split: option.splits if_splits)
  qed
  then show ?thesis
    using cached_open [of cc1 addr c] by (auto simp: conns_inv_def conn_create_def)
qed

theorem conn_cache_witness:
  "\<exists>cc1. getOrCreateConn (\<lambda>c. Ready) (\<lambda>c. Ready) (\<lambda>a. None) ''b:1'' (fold conn_step
      [CreateOp (\<lambda>c. Ready) (\<lambda>a. None) ''b:1'', CreateOp (\<lambda>c. TransientFailure) (\<lambda>a. None) ''b:1''] no_conns) = (Inr 1, cc1) \<and>
    set (cc_open cc1) = {1} \<and> conn_create (\<lambda>c. Idle) (\<lambda>a. Some ErrEOF) ''b:1'' cc1 = (Inr 1, cc1)"
proof -
  let ?cc = "fold conn_step [CreateOp (\<lambda>c. Ready) (\<lambda>a. None) ''b:1'', CreateOp (\<lambda>c. TransientFailure) (\<lambda>a. None) ''b:1''] no_conns"
  have cc: "?cc = \<lparr>cc_cache = [(''b:1'', 1)], cc_open = [1], cc_next = 2\<rparr>"
    by (simp add: no_conns_def conn_create_def conn_dial_def conn_close_def map_set_def map_del_def usable_def)
  have "getOrCreateConn (\<lambda>c. Ready) (\<lambda>c. Ready) (\<lambda>a. None) ''b:1'' ?cc = (Inr 1, ?cc)"
    unfolding cc by (simp add: getOrCreateConn_def conn_lookup_def usable_def)
  with conn_cache [OF refl this, of "\<lambda>c. Idle" "\<lambda>a. Some ErrEOF"] show ?thesis
    unfolding cc by (simp add: usable_def)
qed

subsection \<open>Handlers\<close>

text \<open>
  C10. A write is executed on exactly one node: the leader proposes it locally and makes no remote
  call; any other node leaves its own state alone and answers with what the remote call returned, or
  with an error.
\<close>

theorem add_once:
  assumes "Add K res E invoke ctx req k cc = (r, k', cc')"
  shows "if fst (kv_GetLeader K k)
    then cc' = cc \<and> kv_Apply K ctx (areq_Key req) (areq_Val req) k = (map_sum id aresp_CommitIndex r, k')
    else k' = k \<and> (case r of Inl e \<Rightarrow> True | Inr resp \<Rightarrow> \<exists>c. invoke c ''/Example/Add'' req = Inr resp)"
proof (cases "fst (kv_GetLeader K k)")
  case True
  have "forwardRequestToLeader K res E invoke ''Add'' req k cc = ((False, None, None), cc)"
    by (rule forward_leader [OF find_Add True])
  with assms True show ?thesis by (auto simp: Add_def split: prod.splits sum.splits)
next
  case False
  with assms show ?thesis
    by (auto simp: Add_def forwardRequestToLeader_def split: prod.splits sum.splits option.splits if_splits)
qed

definition demo_kv_server :: "(nat, unit) KV" where
  "demo_kv_server = \<lparr>kv_Apply = (\<lambda>ctx key val k. (Inr (of_nat k), Suc k)), kv_Query = (\<lambda>ctx key c k. (Inl ErrNotLeader, k)),
     kv_Stats = (\<lambda>k. (Inr (), k)), kv_GetLeader = (\<lambda>k. (False, ''127.0.0.1:50052'', None))\<rparr>"

definition demo_rpc :: rpc_env where
  "demo_rpc = \<lparr>re_toCamel = (\<lambda>s. s), re_state = (\<lambda>c. Ready), re_state' = (\<lambda>c. Ready), re_dial = (\<lambda>a. None)\<rparr>"

lemma demo_forward:
  "getOrCreateConn (\<lambda>c. Ready) (\<lambda>c. Ready) (\<lambda>a. None) a no_conns = (Inr 0, \<lparr>cc_cache = [(a, 0)], cc_open = [0], cc_next = 1\<rparr>)"
  by (simp add: no_conns_def getOrCreateConn_def conn_lookup_def conn_create_def conn_dial_def map_set_def)

theorem add_once_witness:
  "\<exists>cc'. Add demo_kv_server (NewGrpcService [(''127.0.0.1:50052'', ''127.0.0.1:40052'')]) demo_rpc
      (\<lambda>c m req. Inr \<lparr>aresp_CommitIndex = 9\<rparr>) \<lparr>ctx_deadline = None\<rparr> \<lparr>areq_Key = ''k'', areq_Val = ''v''\<rparr> 5 no_conns
    = (Inr \<lparr>aresp_CommitIndex = 9\<rparr>, 5, cc')"
proof -
  obtain r k' cc' where run: "Add demo_kv_server (NewGrpcService [(''127.0.0.1:50052'', ''127.0.0.1:40052'')]) demo_rpc
      (\<lambda>c m req. Inr \<lparr>aresp_CommitIndex = 9\<rparr>) \<lparr>ctx_deadline = None\<rparr> \<lparr>areq_Key = ''k'', areq_Val = ''v''\<rparr> 5 no_conns = (r, k', cc')"
    by (metis surj_pair)
  moreover have "r = Inr \<lparr>aresp_CommitIndex = 9\<rparr>"
    using run by (auto simp: Add_def forwardRequestToLeader_def demo_kv_server_def demo_rpc_def NewGrpcService_def demo_forward)
  ultimately show ?thesis using add_once [OF run] by (auto simp: demo_kv_server_def)
qed

text \<open>
  A linearizable read forgets why it was not forwarded: on a node that is not the leader every error
  of forwarding is dropped and the answer is that of the local query.
\<close>

lemma get_drops_forward_error:
  assumes "greq_Linearizable req" and "forwardRequestToLeader K res E invoke ''Get'' req k cc = ((fwd, resp, Some e), cc1)"
  shows "Get K res E invoke ctx req k cc = get_local K ctx req k cc1"
  using assms forward_error_not_done by (fastforce simp: Get_def)

text \<open>
  C36. Forwarding has a message for the response of every method except Stat: on a node that is not the
  leader and has a connection to it, forwarding a method of the service makes the remote call under the name of the
  method and gives its response or its error, while forwarding Stat ends in the panic of messageFromDescriptor.
\<close>

theorem forward_types:
  assumes "(name, output) \<in> set pb_methods" and "kv_GetLeader K k = (False, leader, None)" and "GetGRPCAddr res leader = Some addr"
    and "getOrCreateConn (re_state E) (re_state' E) (re_dial E) addr cc = (Inr conn, cc1)"
  shows "(messageFromDescriptor output = Inr output \<longleftrightarrow> name \<noteq> ''Stat'') \<and>
    forwardRequestToLeader K res E invoke name req k cc =
      (if name = ''Stat'' then ((False, None, Some (Panic ''unknown type; please add it to protoTypes'')), cc1)
       else case invoke conn (''/Example/'' @ name) req of
              Inl e \<Rightarrow> ((False, None, Some e), cc1)
            | Inr resp \<Rightarrow> ((True, Some resp, None), cc1))"
proof -
  have f: "find_method (re_toCamel E) name = Some (name, output)"
    using assms(1) unfolding find_method_def pb_methods_def by (simp, elim disjE conjE, simp_all)
  have m: "messageFromDescriptor output =
      (if name = ''Stat'' then Inl (Panic ''unknown type; please add it to protoTypes'') else Inr output)"
    using assms(1) unfolding pb_methods_def messageFromDescriptor_def protoTypes_def by (simp, elim disjE conjE, simp_all)
  have "forwardRequestToLeader K res E invoke name req k cc =
      (case messageFromDescriptor output of
         Inl e \<Rightarrow> ((False, None, Some e), cc1)
       | Inr _ \<Rightarrow> (case invoke conn (''/Example/'' @ name) req of
             Inl e \<Rightarrow> ((False, None, Some e), cc1)
           | Inr resp \<Rightarrow> ((True, Some resp, None), cc1)))"
    by (simp add: forwardRequestToLeader_def f assms(2-4))
  then show ?thesis by (simp add: m)
qed

theorem forward_types_witness:
  "forwardRequestToLeader demo_kv_server (NewGrpcService [(''127.0.0.1:50052'', ''127.0.0.1:40052'')]) demo_rpc (\<lambda>c m req. Inr m) ''Get'' () 5 no_conns
    = ((True, Some ''/Example/Get'', None), snd (getOrCreateConn (re_state demo_rpc) (re_state' demo_rpc) (re_dial demo_rpc) ''127.0.0.1:40052'' no_conns))"
proof -
  have "\<exists>conn cc1. getOrCreateConn (re_state demo_rpc) (re_state' demo_rpc) (re_dial demo_rpc) ''127.0.0.1:40052'' no_conns = (Inr conn, cc1)"
    by (simp add: demo_rpc_def getOrCreateConn_def conn_lookup_def no_conns_def conn_create_def conn_dial_def)
  then obtain conn cc1 where c: "getOrCreateConn (re_state demo_rpc) (re_state' demo_rpc) (re_dial demo_rpc) ''127.0.0.1:40052'' no_conns = (Inr conn, cc1)"
    by blast
  have m: "(''Get'', GetResponseT) \<in> set pb_methods" by (simp add: pb_methods_def)
  have l: "kv_GetLeader demo_kv_server 5 = (False, ''127.0.0.1:50052'', None)" by (simp add: demo_kv_server_def)
  have a: "GetGRPCAddr (NewGrpcService [(''127.0.0.1:50052'', ''127.0.0.1:40052'')]) ''127.0.0.1:50052'' = Some ''127.0.0.1:40052''"
    by (simp add: NewGrpcService_def NewStaticResolver_def static_GetGRPCAddr_def)
  show ?thesis using forward_types [OF m l a c, of "\<lambda>c m req. Inr m" "()"] c by simp
qed

text \<open>
  C31. With gossip the leader is looked up under its raft address in a table that is keyed by node
  name: a node that is not the leader refuses every write, unless some node is named like the raft address
  of the leader, even if the table knows the leader.
\<close>

theorem gossip_forward_fails:
  assumes "kv_GetLeader K k = (False, leader, None)" and "leader \<notin> fst ` set (g_nodes g)"
  shows "Add K (GossipResolver g) E invoke ctx req k cc
    = (Inl (Errorf ''unknown leader gRPC address for raft addr %s'' [AStr leader]), k, cc)"
proof -
  have "gossip_GetGRPCAddr g leader = None"
    using assms(2) by (simp add: gossip_GetGRPCAddr_def map_of_eq_None_iff [symmetric])
  with assms(1) show ?thesis by (simp add: Add_def forwardRequestToLeader_def)
qed

theorem gossip_forward_fails_witness:
  "(\<exists>meta \<in> set (GetAllNodes (NotifyJoin (marshal_NodeMeta \<lparr>nm_NodeID = ''nodeB'', nm_RaftAddr = ''127.0.0.1:50052'', nm_GRPCAddr = ''127.0.0.1:40052''\<rparr>) demo_gossip)).
      nm_RaftAddr meta = ''127.0.0.1:50052'') \<and>
   Add demo_kv_server (GossipResolver (NotifyJoin (marshal_NodeMeta \<lparr>nm_NodeID = ''nodeB'', nm_RaftAddr = ''127.0.0.1:50052'', nm_GRPCAddr = ''127.0.0.1:40052''\<rparr>) demo_gossip))
      demo_rpc (\<lambda>c m req. Inr \<lparr>aresp_CommitIndex = 9\<rparr>) \<lparr>ctx_deadline = None\<rparr> \<lparr>areq_Key = ''k'', areq_Val = ''v''\<rparr> 5 no_conns
    = (Inl (Errorf ''unknown leader gRPC address for raft addr %s'' [AStr ''127.0.0.1:50052'']), 5, no_conns)"
proof -
  let ?m = "\<lparr>nm_NodeID = ''nodeB'', nm_RaftAddr = ''127.0.0.1:50052'', nm_GRPCAddr = ''127.0.0.1:40052''\<rparr>"
  let ?g = "NotifyJoin (marshal_NodeMeta ?m) demo_gossip"
  have "valid_meta ?m"
    by (simp add: valid_meta_def bytes_of_def byte_of_def valid_utf8.simps(2) utf8_len.simps(2))
  then have "unmarshal_NodeMeta (marshal_NodeMeta ?m) = Inr ?m" by (rule unmarshal_marshal_NodeMeta)
  then have nodes: "g_nodes ?g = [(''nodeB'', ?m), (''nodeA'', demo_meta)]"
    by (simp add: NotifyJoin_def node_joined_def demo_gossip_def map_set_def)
  then have "kv_GetLeader demo_kv_server 5 = (False, ''127.0.0.1:50052'', None)" "''127.0.0.1:50052'' \<notin> fst ` set (g_nodes ?g)"
    by (simp_all add: demo_kv_server_def)
  from gossip_forward_fails [OF this] nodes show ?thesis by (simp add: GetAllNodes_def)
qed

subsection \<open>Blocking queries\<close>

text \<open>
  C11. What a blocking query returns, whatever happens beside it: an abandoned result carries no value and is
  returned only if a restore has completed since the query began; any other result has reached the minimal
  index, or none was asked for, or the deadline has passed.
\<close>

theorem blocking_query_result:
  assumes "bq_run minIndex BqFirst e (BqDone (Inr res)) f" and "chans_ok (be_machine e)"
  shows "if bq_Abandoned res
    then bq_Value res = [] \<and> bq_CurrentIndex res = 0 \<and> AbandonCh (be_machine e) \<in> set (sm_closedChs (be_machine f))
    else minIndex = 0 \<or> minIndex \<le> bq_CurrentIndex res \<or> be_expired f"
  using bq_run_inv [OF assms(1) _ assms(2)] by (simp add: bq_inv_def)

definition demo_sm :: StateMachine where
  "demo_sm = \<lparr>sm_raftAddr = ''127.0.0.1:50051'', sm_nodeId = ''nodeA'', sm_fsmIndex = 4,
     sm_store = \<lparr>st_baseDir = ''/data'', st_db = [''data'', ''1_1''], st_closed = False\<rparr>,
     sm_abandonCh = 0, sm_nextCh = 1, sm_closedChs = [], sm_metrics = no_metrics\<rparr>"

definition demo_env :: bq_env where
  "demo_env = \<lparr>be_machine = demo_sm, be_expired = False, be_query = Inr ([118], 4)\<rparr>"

lemma demo_env_chans: "chans_ok (be_machine demo_env)"
  by (simp add: demo_env_def demo_sm_def chans_ok_def)

lemma demo_env_restore: "env_step demo_env (demo_env\<lparr>be_machine := abandon demo_sm, be_query := q\<rparr>)"
  by (simp add: env_step_def chan_step_def same_chans_def demo_env_def)

lemma demo_abandoned:
  assumes "4 < m"
  shows "bq_run m BqFirst demo_env (BqDone (Inr \<lparr>bq_Value = [], bq_CurrentIndex = 0, bq_Abandoned = True\<rparr>))
    (demo_env\<lparr>be_machine := abandon demo_sm, be_query := Inr ([119], 9)\<rparr>)"
proof -
  have "m \<noteq> 0" "\<not> m \<le> 4" using assms by auto
  then have "BlockingQuery m demo_env OnTick BqFirst = Some (BqLoop [118] 4)"
    by (simp add: demo_env_def)
  from bq_prog [OF bq_refl this] have "bq_run m BqFirst demo_env (BqLoop [118] 4) demo_env" .
  then have "bq_run m BqFirst demo_env (BqSelect 0 [118] 4) demo_env"
    by (rule bq_prog [where c = OnTick]) (simp add: demo_env_def demo_sm_def AbandonCh_def)
  from bq_env [OF this demo_env_restore] show ?thesis
    by (rule bq_prog [where c = OnAbandon]) (simp add: demo_env_def demo_sm_def abandon_def Let_def)
qed

theorem blocking_query_result_witness:
  "\<exists>f. bq_run 7 BqFirst demo_env (BqDone (Inr \<lparr>bq_Value = [], bq_CurrentIndex = 0, bq_Abandoned = True\<rparr>)) f \<and>
    AbandonCh (be_machine demo_env) \<in> set (sm_closedChs (be_machine f))"
  using blocking_query_result [OF demo_abandoned demo_env_chans, of 7] demo_abandoned [of 7] by auto

text \<open>
  C27. A blocked query can always leave: however the environment moves on while the query is blocked in
  the select, once a restore has completed the abandoned answer is ready, and once the deadline has passed
  the timeout answer is; both stay ready.
\<close>

theorem blocked_query_wakes:
  assumes "chans_ok (be_machine e)" and "env_steps e f"
  shows "(AbandonCh (be_machine f) \<noteq> AbandonCh (be_machine e) \<longrightarrow>
      BlockingQuery m f OnAbandon (BqSelect (AbandonCh (be_machine e)) v i)
        = Some (BqDone (Inr \<lparr>bq_Value = [], bq_CurrentIndex = 0, bq_Abandoned = True\<rparr>))) \<and>
    (be_expired f \<longrightarrow> BlockingQuery m f OnDone (BqSelect (AbandonCh (be_machine e)) v i)
        = Some (BqDone (Inr \<lparr>bq_Value = v, bq_CurrentIndex = i, bq_Abandoned = False\<rparr>)))"
  using env_steps_since [OF assms(2,1)] by (auto simp: since_def AbandonCh_def)

theorem blocked_query_wakes_witness:
  "BlockingQuery 7 (demo_env\<lparr>be_machine := abandon demo_sm, be_query := Inr ([119], 9)\<rparr>) OnAbandon (BqSelect 0 [118] 4)
    = Some (BqDone (Inr \<lparr>bq_Value = [], bq_CurrentIndex = 0, bq_Abandoned = True\<rparr>))"
proof -
  have "env_steps demo_env (demo_env\<lparr>be_machine := abandon demo_sm, be_query := Inr ([119], 9)\<rparr>)"
    by (rule env_more [OF env_none demo_env_restore])
  from blocked_query_wakes [OF demo_env_chans this, of 7 "[118]" 4] show ?thesis
    by (simp add: demo_env_def demo_sm_def AbandonCh_def abandon_def Let_def)
qed

text \<open>
  C30. A restore can go unnoticed. Take a query that is blocked in the select on the current abandon channel, and a restore
  that completes next. If the query is still in the select, the abandoned answer is ready. If its ticker fired before and it is at its
  periodic call, the abandon channel is asked for anew afterwards: however the query and everything beside it go on, no answer
  it gives is marked as abandoned, unless yet another restore completes.
\<close>

theorem restore_missed:
  assumes run: "bq_run minIndex BqFirst e0 (BqSelect (AbandonCh (be_machine e)) v i) e" and ok: "chans_ok (be_machine e0)"
    and step: "env_step e f" and new: "AbandonCh (be_machine f) \<noteq> AbandonCh (be_machine e)"
  shows "BlockingQuery minIndex f OnAbandon (BqSelect (AbandonCh (be_machine e)) v i)
      = Some (BqDone (Inr \<lparr>bq_Value = [], bq_CurrentIndex = 0, bq_Abandoned = True\<rparr>)) \<and>
    BlockingQuery minIndex e OnTick (BqSelect (AbandonCh (be_machine e)) v i) = Some BqRequery \<and>
    bq_run minIndex BqFirst e0 BqRequery f \<and>
    (\<forall>res g. bq_run minIndex BqRequery f (BqDone (Inr res)) g \<and> AbandonCh (be_machine g) = AbandonCh (be_machine f) \<longrightarrow>
      \<not> bq_Abandoned res)"
proof -
  have e: "chans_ok (be_machine e)" using bq_run_inv [OF run _ ok] by (simp add: bq_inv_def since_def)
  have f: "chans_ok (be_machine f)" using chan_step_chans(1) [OF _ e] step by (simp add: env_step_def)
  have tick: "BlockingQuery minIndex e OnTick (BqSelect (AbandonCh (be_machine e)) v i) = Some BqRequery" by simp
  have "\<not> bq_Abandoned res"
    if g: "bq_run minIndex BqRequery f (BqDone (Inr res)) g" "AbandonCh (be_machine g) = AbandonCh (be_machine f)" for res g
  proof -
    have "bq_inv minIndex f (BqDone (Inr res)) g" using bq_run_inv [OF g(1) _ f] by simp
    with g(2) show ?thesis by (auto simp: bq_inv_def since_def chans_ok_def AbandonCh_def split: if_splits)
  qed
  with blocked_sees_restore [OF e step new] tick bq_env [OF bq_prog [OF run tick] step] show ?thesis by blast
qed

theorem restore_missed_witness:
  "\<exists>f. BlockingQuery 7 f OnAbandon (BqSelect 0 [118] 4) = Some (BqDone (Inr \<lparr>bq_Value = [], bq_CurrentIndex = 0, bq_Abandoned = True\<rparr>)) \<and>
    bq_run 7 BqFirst demo_env BqRequery f \<and>
    bq_run 7 BqRequery f (BqDone (Inr \<lparr>bq_Value = [119], bq_CurrentIndex = 9, bq_Abandoned = False\<rparr>)) f"
proof -
  let ?f = "demo_env\<lparr>be_machine := abandon demo_sm, be_query := Inr ([119], 9)\<rparr>"
  have ch: "AbandonCh (be_machine demo_env) = 0" "AbandonCh (be_machine ?f) \<noteq> AbandonCh (be_machine demo_env)"
    by (simp_all add: demo_env_def demo_sm_def AbandonCh_def abandon_def Let_def)
  have "bq_run 7 BqFirst demo_env (BqLoop [118] 4) demo_env"
    by (rule bq_prog [OF bq_refl, where c = OnTick]) (simp add: demo_env_def)
  then have "bq_run 7 BqFirst demo_env (BqSelect (AbandonCh (be_machine demo_env)) [118] 4) demo_env"
    by (rule bq_prog [where c = OnTick]) simp
  note m = restore_missed [OF this demo_env_chans demo_env_restore ch(2)]
  have "bq_run 7 BqRequery ?f (BqDone (Inr \<lparr>bq_Value = [119], bq_CurrentIndex = 9, bq_Abandoned = False\<rparr>)) ?f"
    by (rule bq_prog [OF bq_refl, where c = OnTick]) simp
  with m show ?thesis unfolding ch(1) by blast
qed

subsection \<open>Watches\<close>

text \<open>
  C26. A watch never delivers an index twice: as long as its queries end before their deadline, and no index is
  the largest 64-bit number, the indices it sends increase strictly, except across a response that is marked as
  abandoned.
\<close>

theorem watch_increasing:
  assumes "answered envs bq" and "\<forall>i m r. bq i m = Inr r \<longrightarrow> bq_CurrentIndex r \<noteq> - 1"
    and "Watch n ctxErr bq send 0 minIndex = (rs, err)"
  shows "successively watch_order rs"
  using Watch_increasing [OF answered_fresh [OF assms(1)] assms(3)] assms(2) by blast

definition demo_bq :: "nat \<Rightarrow> u64 \<Rightarrow> BlockingQueryResult result" where
  "demo_bq i m =
     (if 7 < m then Inr \<lparr>bq_Value = [], bq_CurrentIndex = 0, bq_Abandoned = True\<rparr>
      else Inr \<lparr>bq_Value = [of_nat i], bq_CurrentIndex = (if m = 0 then 5 else 7), bq_Abandoned = False\<rparr>)"

lemma demo_answered: "answered (\<lambda>i. demo_env) demo_bq"
proof -
  have "\<exists>f. bq_run m BqFirst demo_env (BqDone (demo_bq i m)) f \<and> \<not> be_expired f" for i m
  proof (cases "7 < m")
    case True
    then have "4 < m" by (rule order.strict_trans [rotated]) simp
    from demo_abandoned [OF this] show ?thesis using True by (auto simp: demo_bq_def demo_env_def)
  next
    case False
    then have le: "m \<le> 7" by simp
    let ?f = "demo_env\<lparr>be_query := Inr ([of_nat i], if m = 0 then 5 else 7)\<rparr>"
    have "env_step demo_env ?f" by (simp add: env_step_def chan_step_def same_chans_def)
    from bq_env [OF bq_refl this] have "bq_run m BqFirst demo_env BqFirst ?f" .
    then have "bq_run m BqFirst demo_env (BqDone (demo_bq i m)) ?f"
      by (rule bq_prog [where c = OnTick]) (simp add: demo_bq_def False le)
    then show ?thesis by (auto simp: demo_env_def)
  qed
  then show ?thesis using demo_env_chans by (simp add: answered_def)
qed

theorem watch_increasing_witness:
  "\<exists>a b err. Watch 2 (\<lambda>i. None) demo_bq (\<lambda>i. None) 0 0 = ([a, b], err) \<and> successively watch_order [a, b] \<and>
    wresp_CurrentIndex a = 5 \<and> wresp_CurrentIndex b = 7"
proof -
  have ix: "\<forall>i m r. demo_bq i m = Inr r \<longrightarrow> bq_CurrentIndex r \<noteq> - 1" by (auto simp: demo_bq_def split: if_splits)
  have "\<exists>a b err. Watch 2 (\<lambda>i. None) demo_bq (\<lambda>i. None) 0 0 = ([a, b], err) \<and>
      wresp_CurrentIndex a = 5 \<and> wresp_CurrentIndex b = 7"
    by (simp only: numeral_2_eq_2 Watch.simps) (simp add: demo_bq_def watch_response_def)
  then show ?thesis using watch_increasing [OF demo_answered ix] by blast
qed

text \<open>
  C40. The timeout of a watch is positive whatever number of seconds is asked for. It is that number for 1
  to 9223372036 seconds; beyond, the multiplication wraps around, and 18446744074 seconds become less than
  a third of a second.
\<close>

theorem watch_timeout_range:
  "0 < watch_timeout s \<and> (0 < sint s \<and> sint s \<le> 9223372036 \<longrightarrow> watch_timeout s = sint s * 1000000000) \<and>
   watch_timeout 9223372037 = BlockingQueryTimeout \<and> watch_timeout 18446744074 = 290448384"
proof -
  have "sint (s * 1000000000) = sint s * 1000000000" if "0 < sint s \<and> sint s \<le> 9223372036"
    using that by (simp add: sint_word_mult signed_take_bit_int_eq_self)
  then show ?thesis by (auto simp: watch_timeout_def BlockingQueryTimeout_def Let_def)
qed

theorem watch_timeout_range_witness: "watch_timeout 30 = 30 * 1000000000"
  using watch_timeout_range [of 30] by simp

end
