(* ===== verification/Client_Properties.thy ===== *)
theory Client_Properties
  imports Engine_Stats Client Engine_Properties Service_Properties
begin

text \<open>The properties of the statistics of a node and of the demonstrations of the client.\<close>

subsection \<open>Statistics\<close>

definition jnum :: "int \<Rightarrow> json option" where
  "jnum i = Some (JNum (bytes_of (show_int i)))"

text \<open>
  C34. Stat answers with the state of the node: on a file system without failures, and with names that are
  valid UTF-8, the answer is JSON text that parses back, and in which the indices, the leader, the nodes, every number
  and text of the raft library and the sizes of the directories are found under their names; the sizes are the sums
  over all files below. Nothing is changed.
\<close>

theorem stat_answer:
  assumes "healthy (nd_world s)" and "tree_ok (w_nodes (nd_world s))" and "Nodes R s = Inr nodes"
    and "utf8_names (reported R S s)" and "distinct (map fst (rs_Stats S (nd_raft s)))"
  shows "\<exists>answer j w'. Stat (raft_kv R P now elapsed evs (raft_Stats R S D offset)) s = (Inr \<lparr>sresp_Stats = answer\<rparr>, s\<lparr>nd_world := w'\<rparr>) \<and>
    quiet (nd_world s) w' \<and> parse_json (bytes_of answer) = Some j \<and>
    jpath j [''node_id''] = Some (JStr (bytes_of (nd_raftId s))) \<and>
    jpath j [''db_applied_index''] = jnum (uint (nd_dbAppliedIndex s)) \<and>
    jpath j [''last_applied_index''] = jnum (uint (rf_AppliedIndex R (nd_raft s))) \<and>
    jpath j [''leader'', ''addr''] = Some (JStr (bytes_of (fst (rf_LeaderWithID R (nd_raft s))))) \<and>
    jpath j [''nodes''] = Some (JArr (map (\<lambda>x. json_of (server_val x)) nodes)) \<and>
    jpath j [''raft_dir_size''] = jnum (sint (tree_size D (w_nodes (nd_world s)) (w_key (nd_world s) (nd_raftDir s)))) \<and>
    jpath j [''raft'', ''log_size''] =
      jnum (sint (tree_size D (w_nodes (nd_world s)) (w_key (nd_world s) (filepath_Join (nd_raftDir s) raftDBPath)))) \<and>
    jpath j [''fsm'', ''fsm_index''] = jnum (uint (GetFsmIndex (nd_store s))) \<and>
    jpath j [''fsm'', ''snapshot_count''] = jnum (uint (mt_SnapshotCount (sm_metrics (nd_store s)))) \<and>
    (\<forall>(k, v) \<in> set (rs_Stats S (nd_raft s)). k \<noteq> ''log_size'' \<and> k \<noteq> ''voter'' \<longrightarrow>
      jpath j [''raft'', k] = (case ParseInt v of Inl e \<Rightarrow> Some (JStr (bytes_of v)) | Inr i \<Rightarrow> jnum i))"
proof -
  let ?w = "nd_world s" and ?lib = "map (\<lambda>(k, v). (k, stat_number v)) (rs_Stats S (nd_raft s))"
  let ?log = "tree_size D (w_nodes ?w) (w_key ?w (filepath_Join (nd_raftDir s) raftDBPath))"
  obtain voter fsmStats w0 w' where f: "fsm_Stats D offset (nd_store s) w0 = (Inr fsmStats, w')" and q: "quiet ?w w'"
    and run: "raft_Stats R S D offset s =
      (Inr (stats_val R S s nodes (map_set ''voter'' (GBool voter) (map_set ''log_size'' (GInt64 ?log) ?lib))
         (tree_size D (w_nodes ?w) (w_key ?w (nd_raftDir s))) fsmStats), s\<lparr>nd_world := w'\<rparr>)"
    using raft_Stats_ok [OF assms(1-3)] by blast
  define raftStats where "raftStats = map_set ''voter'' (GBool voter) (map_set ''log_size'' (GInt64 ?log) ?lib)"
  define v where "v = stats_val R S s nodes raftStats (tree_size D (w_nodes ?w) (w_key ?w (nd_raftDir s))) fsmStats"
  have d: "distinct (map fst raftStats)"
    using assms(5) by (auto simp: raftStats_def comp_def case_prod_unfold intro!: distinct_map_set)
  have lib: "map_of ?lib k = map_option stat_number (map_of (rs_Stats S (nd_raft s)) k)" for k
    by (simp add: map_of_map)
  have "valid_utf8 (bytes_of (st_baseDir (sm_store (nd_store s))))" using assms(4) by (simp add: reported_def)
  moreover have "list_all (\<lambda>(k, v). valid_utf8 (bytes_of k) \<and> utf8_val v) raftStats"
    unfolding raftStats_def
    by (intro utf8_map_set utf8_lib_stats ascii_utf8) (use assms(4) in \<open>simp_all add: reported_def byte_of_def\<close>)
  ultimately have "utf8_val v"
    unfolding v_def by (intro stats_val_utf8 [OF assms(4,3)] fsm_Stats_utf8 [OF f])
  then have parse: "parse_json (MarshalIndent v) = Some (json_of v)"
    unfolding v_def stats_val_def GMap_def by (rule parse_MarshalIndent)
  have stat: "Stat (raft_kv R P now elapsed evs (raft_Stats R S D offset)) s
      = (Inr \<lparr>sresp_Stats = string_of (MarshalIndent v)\<rparr>, s\<lparr>nd_world := w'\<rparr>)"
    using run by (simp add: Stat_def raft_kv_calls v_def raftStats_def)
  have libs: "jpath (json_of v) [''raft'', k] = (case ParseInt x of Inl e \<Rightarrow> Some (JStr (bytes_of x)) | Inr i \<Rightarrow> jnum i)"
    if "(k, x) \<in> set (rs_Stats S (nd_raft s))" "k \<noteq> ''log_size''" "k \<noteq> ''voter''" for k x
  proof -
    have "map_of (rs_Stats S (nd_raft s)) k = Some x" using that(1) assms(5) by simp
    then have "map_of raftStats k = Some (stat_number x)" using that(2,3) lib by (simp add: raftStats_def)
    then show ?thesis
      by (simp add: jpath_json_of v_def stats_val_fields(2) [OF d] stat_number_def jnum_def del: gpath.simps jpath.simps split: sum.splits)
  qed
  note fields = stats_val_fields [OF d, of R S s nodes "tree_size D (w_nodes ?w) (w_key ?w (nd_raftDir s))" fsmStats, folded v_def]
  have log: "map_of raftStats ''log_size'' = Some (GInt64 ?log)" by (simp add: raftStats_def)
  note nums = jnum_def GUint_def GInt64_def comp_def
  show ?thesis
    by (intro exI [of _ "string_of (MarshalIndent v)"] exI [of _ "json_of v"] exI [of _ w'] conjI stat q)
      (use libs in \<open>auto simp: parse jpath_json_of fields fsm_Stats_fields [OF f] log nums simp del: gpath.simps jpath.simps\<close>)
qed

definition demo_stats :: "ref_raft_state raft_stats" where
  "demo_stats = \<lparr>rs_Stats = (\<lambda>r. [(''state'', ''Leader''), (''term'', ''3'')]), rs_NumObserved = (\<lambda>r. 4), rs_NumDropped = (\<lambda>r. 0)\<rparr>"

lemma demo_tree: "tree_ok (w_nodes (demo_world db))"
  by (auto simp: tree_ok_def demo_world_def is_dir_def plain_name_def split: if_splits)

lemma demo_reported: "utf8_names (reported ref_raft demo_stats demo_server)"
  by (simp add: reported_def demo_stats_def demo_server_def ref_raft_def Nodes_def demo_machine_def demo_store_def ascii_utf8 byte_of_def)

theorem stat_answer_witness:
  "\<exists>answer j w'. Stat (raft_kv ref_raft ref_pebble 0 0 [] (raft_Stats ref_raft demo_stats (\<lambda>db. 100) 3600)) demo_server
      = (Inr \<lparr>sresp_Stats = answer\<rparr>, demo_server\<lparr>nd_world := w'\<rparr>) \<and>
    parse_json (bytes_of answer) = Some j \<and> jpath j [''node_id''] = Some (JStr (bytes_of ''nodeA'')) \<and>
    jpath j [''raft'', ''term''] = jnum 3 \<and> jpath j [''raft'', ''state''] = Some (JStr (bytes_of ''Leader''))"
proof -
  have n: "Nodes ref_raft demo_server = Inr []" by (simp add: Nodes_def ref_raft_def demo_server_def)
  have h: "healthy (nd_world demo_server)" by (simp add: demo_server_def)
  have t: "tree_ok (w_nodes (nd_world demo_server))" using demo_tree by (simp add: demo_server_def)
  have d: "distinct (map fst (rs_Stats demo_stats (nd_raft demo_server)))" by (simp add: demo_stats_def)
  have p: "ParseInt ''3'' = Inr 3" "ParseInt ''Leader'' = Inl (Errorf ''strconv: parsing %q'' [AStr ''Leader''])" by code_simp+
  have id: "nd_raftId demo_server = ''nodeA''" by (simp add: demo_server_def)
  obtain answer j w' where "Stat (raft_kv ref_raft ref_pebble 0 0 [] (raft_Stats ref_raft demo_stats (\<lambda>db. 100) 3600)) demo_server
      = (Inr \<lparr>sresp_Stats = answer\<rparr>, demo_server\<lparr>nd_world := w'\<rparr>)" "parse_json (bytes_of answer) = Some j"
      "jpath j [''node_id''] = Some (JStr (bytes_of (nd_raftId demo_server)))"
    and libs: "\<forall>(k, v) \<in> set (rs_Stats demo_stats (nd_raft demo_server)). k \<noteq> ''log_size'' \<and> k \<noteq> ''voter'' \<longrightarrow>
      jpath j [''raft'', k] = (case ParseInt v of Inl e \<Rightarrow> Some (JStr (bytes_of v)) | Inr i \<Rightarrow> jnum i)"
    using stat_answer [OF h t n demo_reported d, of ref_pebble 0 0 "[]" "\<lambda>db. 100" 3600] by blast
  moreover have "jpath j [''raft'', ''term''] = jnum 3" "jpath j [''raft'', ''state''] = Some (JStr (bytes_of ''Leader''))"
    using libs p by (simp_all add: demo_stats_def del: jpath.simps)
  ultimately show ?thesis unfolding id by blast
qed

subsection \<open>The key-value demonstration\<close>

text \<open>The number of bytes within the first \<open>fuel\<close> reads of a source that \<open>randomId\<close> keeps.\<close>

definition kept_bytes :: "nat \<Rightarrow> (nat \<Rightarrow> bytes) \<Rightarrow> nat" where
  "kept_bytes fuel src = (\<Sum>i < fuel. length (filter (\<lambda>c. c \<le> max_random 62) (src i)))"

lemma kept_bytes_ids:
  assumes "\<forall>j. 32 \<le> kept_bytes fuel (rnd j)"
  shows "\<forall>j. randomId fuel (rnd j) 10 \<noteq> None \<and> randomId fuel (rnd j) 32 \<noteq> None"
proof
  fix j
  have "32 \<le> kept_bytes fuel (rnd j)" using assms by blast
  then have "randomId fuel (rnd j) n \<noteq> None" if "0 < n" "n \<le> 32" for n
    using randomId_returns [OF that(1), where fuel = fuel and src = "rnd j"] that(2) by (auto simp: kept_bytes_def)
  then show "randomId fuel (rnd j) 10 \<noteq> None \<and> randomId fuel (rnd j) 32 \<noteq> None" by simp
qed

lemma writes_not_waiting:
  assumes "\<forall>j. randomId fuel (rnd j) 10 \<noteq> None \<and> randomId fuel (rnd j) 32 \<noteq> None"
  shows "fst (kv_writes fuel rnd C n i ks log c) \<noteq> Inl Waiting"
proof (induction n arbitrary: i ks log c)
  case (Suc n)
  obtain key val where "randomId fuel (rnd (2 * i)) 10 = Some key" "randomId fuel (rnd (2 * i + 1)) 32 = Some val"
    using assms by blast
  with Suc show ?case by (auto split: prod.splits sum.splits)
qed simp

lemma reads_not_waiting: "fst (kv_reads C i ks log c) \<noteq> Some Waiting"
  by (induction ks arbitrary: i log c) (auto simp: Let_def split: prod.splits sum.splits)

lemma demo_not_waiting:
  assumes "\<forall>j. randomId fuel (rnd j) 10 \<noteq> None \<and> randomId fuel (rnd j) 32 \<noteq> None"
  shows "fst (runKVDemo fuel rnd C c) \<noteq> Waiting"
proof -
  obtain res log c1 where w: "kv_writes fuel rnd C 5 0 [] [] c = (res, log, c1)" by (metis surj_pair)
  show ?thesis
  proof (cases res)
    case (Inl ex)
    then show ?thesis using writes_not_waiting [OF assms, of C 5 0 "[]" "[]" c] w by (simp add: runKVDemo_def)
  next
    case (Inr ks)
    define b where "b = ''================== KV WRITE TEST DONE ==================''"
    obtain ex log1 c2 where r: "kv_reads C 0 ks (log @ [LogText b]) c1 = (ex, log1, c2)" by (metis surj_pair)
    then have "ex \<noteq> Some Waiting" using reads_not_waiting [of C 0 ks "log @ [LogText b]" c1] by simp
    with w Inr r show ?thesis
      by (cases ex) (auto simp: runKVDemo_def b_def Let_def split: prod.splits sum.splits)
  qed
qed

text \<open>
  C33. The demonstration reads what it wrote: against a leader on which it is the only writer, and with random
  sources that give 32 bytes at or below the bound within the fuel, runKVDemo ends, by returning or with the error of a call. If it
  returns it has logged five writes and then one query per write, every third of them linearizable, each with the
  value that was written last under its key.
\<close>

theorem kv_demo:
  assumes "sole_writer P view pend R" and "rf_leader R (nd_raft s)" and "machine_inv (nd_store s) (nd_world s)" and "sm_open (nd_store s)"
    and "\<forall>j. 32 \<le> (\<Sum>i < fuel. length (filter (\<lambda>c. c \<le> max_random 62) (rnd j i)))"
  shows "\<exists>ex log c'. runKVDemo fuel rnd (node_client (raft_kv R P now elapsed evs stats) res E invokeA invokeG ctx) (s, cc) = (ex, log, c') \<and>
    (ex = Returned \<or> (\<exists>msg err. ex = Fatal msg err)) \<and>
    (ex = Returned \<longrightarrow> length (applied log) = 5 \<and>
      queried log = map (\<lambda>(j, key). (j mod 3 = 0, key, the (map_of (rev (applied log)) key))) (enumerate 0 (map fst (applied log))))"
proof -
  let ?C = "node_client (raft_kv R P now elapsed evs stats) res E invokeA invokeG ctx"
  have ids: "\<forall>j. randomId fuel (rnd j) 10 \<noteq> None \<and> randomId fuel (rnd j) 32 \<noteq> None"
    by (rule kept_bytes_ids) (use assms(5) in \<open>simp add: kept_bytes_def\<close>)
  obtain ex log c' where run: "runKVDemo fuel rnd ?C (s, cc) = (ex, log, c')" by (metis surj_pair)
  moreover have "ex \<noteq> Waiting" using demo_not_waiting [OF ids, of ?C "(s, cc)"] run by simp
  then have "ex = Returned \<or> (\<exists>msg err. ex = Fatal msg err)" by (cases ex) auto
  ultimately show ?thesis using sole_writer.node_demo [OF assms(1) _ assms(2-4)] by blast
qed

text \<open>On the node of the examples every call succeeds.\<close>

definition calls_succeed :: "(ref_raft_state, ref_db) raftServer \<Rightarrow> bool" where
  "calls_succeed s \<longleftrightarrow> rr_leader (nd_raft s) \<and> nd_ready s = 1 \<and> machine_inv (nd_store s) (nd_world s) \<and> sm_open (nd_store s)"

abbreviation demo_client :: "((ref_raft_state, ref_db) raftServer \<times> conns) client" where
  "demo_client \<equiv> node_client (raft_kv ref_raft ref_pebble 0 0 [] (\<lambda>s. (Inr GNil, s))) (NewGrpcService [])
     \<lparr>re_toCamel = (\<lambda>s. s), re_state = (\<lambda>c. Ready), re_state' = (\<lambda>c. Ready), re_dial = (\<lambda>a. None)\<rparr>
     (\<lambda>c m req. Inl ErrNotLeader) (\<lambda>c m req. Inl ErrNotLeader) \<lparr>ctx_deadline = None\<rparr>"

lemma demo_add:
  assumes "calls_succeed s"
  shows "\<exists>resp s'. cl_Add demo_client req (s, cc) = (Inr resp, s', cc) \<and> calls_succeed s'"
proof -
  let ?l = "\<lparr>log_Index = rr_index (nd_raft s) + 1, log_Data = insert_command (areq_Key req) (areq_Val req)\<rparr>"
  obtain resp m w where a: "Apply ref_pebble ?l (nd_store s) (nd_world s) = (resp, m, w)" by (metis surj_pair)
  have st: "machine_inv (nd_store s) (nd_world s)" "sm_open (nd_store s)" "rr_leader (nd_raft s)" "nd_ready s = 1"
    using assms by (simp_all add: calls_succeed_def)
  have "apply_log ref_pebble [?l] (nd_store s) (nd_world s) = ([resp], m, w)" using a by simp
  note ref = pebble_live.apply_log_refines [OF ref_live st(1,2) this]
  then have "resp_Error resp = None" "machine_inv m w" "sm_open m" by (auto simp: spec_apply_insert_command)
  with a st have ap: "\<exists>s'. raft_Apply ref_raft 0 \<lparr>ctx_deadline = None\<rparr> (areq_Key req) (areq_Val req) s = (Inr (rr_index (nd_raft s) + 1), s') \<and> calls_succeed s'"
    by (simp add: raft_Apply_def ref_raft_def calls_succeed_def)
  have "rf_leader ref_raft (nd_raft s)" using st(3) by (simp add: ref_raft_def)
  note fw = own.leader_forward [OF this]
  show ?thesis using ap by (auto simp: node_client_def Add_def fw raft_kv_calls)
qed

lemma demo_get:
  assumes "calls_succeed s"
  shows "\<exists>resp. cl_Get demo_client req (s, cc) = (Inr resp, s, cc)"
proof -
  have st: "machine_inv (nd_store s) (nd_world s)" "sm_open (nd_store s)" "rr_leader (nd_raft s)" "nd_ready s = 1"
    using assms by (simp_all add: calls_succeed_def)
  have l: "rf_leader ref_raft (nd_raft s)" and v: "rf_VerifyLeader ref_raft (nd_raft s) = (None, nd_raft s)"
    using st(3) by (simp_all add: ref_raft_def)
  note rd = raft_lib.local_read_live [OF one_lib st(1,2)]
  have "\<exists>i x. raft_Query ref_raft ref_pebble 0 [] ctx key lin s = (Inr (i, x), s)" for ctx key lin
    using st(4) by (simp add: raft_Query_def rd ConsistentRead_def consistentReadWithContext_def v isReadyForConsistentReads_def Let_def)
  then show ?thesis
    by (auto simp: node_client_def Get_def get_local_def own.leader_forward [OF l] raft_kv_calls split: prod.splits sum.splits)
      (metis Inr_not_Inl prod.inject)+
qed

lemma demo_writes:
  assumes "\<forall>j. randomId fuel (rnd j) 10 \<noteq> None \<and> randomId fuel (rnd j) 32 \<noteq> None" and "calls_succeed s"
  shows "\<exists>ks' log' s'. kv_writes fuel rnd demo_client n i ks log (s, cc) = (Inr ks', log', s', cc) \<and> calls_succeed s'"
  using assms(2)
proof (induction n arbitrary: i ks log s)
  case (Suc n)
  obtain key val where r: "randomId fuel (rnd (2 * i)) 10 = Some key" "randomId fuel (rnd (2 * i + 1)) 32 = Some val"
    using assms(1) by blast
  obtain resp s' where "cl_Add demo_client \<lparr>areq_Key = key, areq_Val = val\<rparr> (s, cc) = (Inr resp, s', cc)" "calls_succeed s'"
    using demo_add [OF Suc.prems] by blast
  with r Suc.IH [OF this(2)] show ?case by simp
qed simp

lemma demo_reads:
  assumes "calls_succeed s"
  shows "\<exists>log'. kv_reads demo_client i ks log (s, cc) = (None, log', s, cc)"
proof (induction ks arbitrary: i log)
  case (Cons key ks)
  obtain resp where "cl_Get demo_client \<lparr>greq_Key = key, greq_Linearizable = (i mod 3 = 0)\<rparr> (s, cc) = (Inr resp, s, cc)"
    using demo_get [OF assms] by blast
  with Cons show ?case by (simp add: Let_def)
qed simp

definition demo_rnd :: "nat \<Rightarrow> nat \<Rightarrow> bytes" where
  "demo_rnd j i = replicate 40 (if even j then 7 else 9)"

lemma demo_bytes: "\<forall>j. 32 \<le> (\<Sum>i < 1. length (filter (\<lambda>c. c \<le> max_random 62) (demo_rnd j i)))"
proof -
  have "max_random 62 = 247" by code_simp
  then show ?thesis by (simp add: demo_rnd_def lessThan_Suc)
qed

lemma demo_ids: "\<forall>j. randomId 1 (demo_rnd j) 10 \<noteq> None \<and> randomId 1 (demo_rnd j) 32 \<noteq> None"
  by (rule kept_bytes_ids) (use demo_bytes in \<open>simp add: kept_bytes_def\<close>)

lemma own_lib: "sole_writer ref_pebble map_of (\<lambda>b. b) ref_raft"
  by unfold_locales

theorem kv_demo_witness:
  "\<exists>log c'. runKVDemo 1 demo_rnd demo_client (demo_server, no_conns) = (Returned, log, c') \<and> length (applied log) = 5 \<and>
    queried log = map (\<lambda>(j, key). (j mod 3 = 0, key, the (map_of (rev (applied log)) key))) (enumerate 0 (map fst (applied log)))"
proof -
  have s: "calls_succeed demo_server" by (simp add: calls_succeed_def demo_server_def)
  obtain ks log s' where w: "kv_writes 1 demo_rnd demo_client 5 0 [] [] (demo_server, no_conns) = (Inr ks, log, s', no_conns)"
    and s': "calls_succeed s'"
    using demo_writes [OF demo_ids s] by blast
  obtain log1 where "kv_reads demo_client 0 ks (log @ [LogText ''================== KV WRITE TEST DONE ==================''])
      (s', no_conns) = (None, log1, s', no_conns)"
    using demo_reads [OF s'] by blast
  moreover have "cl_Stat demo_client (s', no_conns) = (Inr \<lparr>sresp_Stats = string_of (MarshalIndent GNil)\<rparr>, s', no_conns)"
    by (simp add: node_client_def Stat_def raft_kv_calls)
  ultimately have "fst (runKVDemo 1 demo_rnd demo_client (demo_server, no_conns)) = Returned"
    using w by (simp add: runKVDemo_def Let_def)
  moreover have "rf_leader ref_raft (nd_raft demo_server)" "machine_inv (nd_store demo_server) (nd_world demo_server)"
    "sm_open (nd_store demo_server)"
    by (simp_all add: ref_raft_def demo_server_def)
  then have "\<exists>ex log c'. runKVDemo 1 demo_rnd demo_client (demo_server, no_conns) = (ex, log, c') \<and>
    (ex = Returned \<or> (\<exists>msg err. ex = Fatal msg err)) \<and>
    (ex = Returned \<longrightarrow> length (applied log) = 5 \<and>
      queried log = map (\<lambda>(j, key). (j mod 3 = 0, key, the (map_of (rev (applied log)) key))) (enumerate 0 (map fst (applied log))))"
    by (rule kv_demo [OF own_lib _ _ _ demo_bytes])
  ultimately show ?thesis by (elim exE conjE) (simp only: fst_conv, blast)
qed

subsection \<open>Watching\<close>

text \<open>
  C35. Of what the server sends, a client that watches logs the responses up to the first abandoned one, as they were sent, however
  the stream goes on after them, and an abandoned response ends the watch without an error, so that the caller
  connects again from the beginning. If moreover every query of the watch ended before its deadline, and no index is
  the largest 64-bit number, then the logged indices increase strictly.
\<close>

theorem client_watch:
  assumes "Watch n ctxErr bq send 0 0 = (rs, err)" and "rest = [] \<or> (\<exists>e. rest = [Inl e])"
    and "doWatchKey (Inr (map Inr rs @ rest)) = (log, e')"
  shows "watched log = map (\<lambda>r. (wresp_CurrentIndex r, wresp_Value r)) (takeWhile (\<lambda>r. \<not> wresp_Abandoned r) rs) \<and>
    (list_ex wresp_Abandoned rs \<longrightarrow> e' = None) \<and>
    (answered envs bq \<and> (\<forall>i m r. bq i m = Inr r \<longrightarrow> bq_CurrentIndex r \<noteq> - 1) \<longrightarrow> sorted_wrt (<) (map fst (watched log)))"
proof -
  let ?seen = "takeWhile (\<lambda>r. \<not> wresp_Abandoned r) rs"
  have "watched (fst (watch_recv rest)) = []" using assms(2) by auto
  then have lines: "watched log = map (\<lambda>r. (wresp_CurrentIndex r, wresp_Value r)) ?seen"
    using watch_recv_lines(1) [of rs rest] assms(3) by (auto simp: doWatchKey_def split: if_splits)
  have "sorted_wrt (<) (map wresp_CurrentIndex ?seen)" if a: "answered envs bq" "\<forall>i m r. bq i m = Inr r \<longrightarrow> bq_CurrentIndex r \<noteq> - 1"
  proof (rule watch_prefix_increasing)
    have "successively watch_order rs"
      using Watch_increasing [OF answered_fresh [OF a(1)] assms(1)] a(2) by blast
    then show "successively watch_order ?seen" by (metis successively_append_iff takeWhile_dropWhile_id)
  qed (auto dest: set_takeWhileD)
  with lines watch_recv_lines(2) [of rs rest] assms(3) show ?thesis by (simp add: doWatchKey_def comp_def)
qed

theorem client_watch_witness:
  "\<exists>rs log. fst (Watch 3 (\<lambda>i. None) demo_bq (\<lambda>i. None) 0 0) = rs \<and> doWatchKey (Inr (map Inr rs)) = (log, None) \<and>
    length (watched log) = 2 \<and> sorted_wrt (<) (map fst (watched log))"
proof -
  have ix: "\<forall>i m r. demo_bq i m = Inr r \<longrightarrow> bq_CurrentIndex r \<noteq> - 1" by (auto simp: demo_bq_def split: if_splits)
  obtain a b c err where run: "Watch 3 (\<lambda>i. None) demo_bq (\<lambda>i. None) 0 0 = ([a, b, c], err)"
    and ab: "\<not> wresp_Abandoned a" "\<not> wresp_Abandoned b" "wresp_Abandoned c"
    by (simp only: numeral_3_eq_3 Watch.simps) (simp add: demo_bq_def watch_response_def)
  obtain log e where d: "doWatchKey (Inr (map Inr [a, b, c] @ [])) = (log, e)" by (metis surj_pair)
  note c = client_watch [OF run disjI1 [OF refl] d, of "\<lambda>i. demo_env"]
  have "length (watched log) = 2" using c [THEN conjunct1] ab by simp
  moreover have "e = None" using c [THEN conjunct2, THEN conjunct1] ab by simp
  moreover have "sorted_wrt (<) (map fst (watched log))" using c [THEN conjunct2, THEN conjunct2] demo_answered ix by blast
  ultimately show ?thesis using run d by auto
qed

end
