(* ===== verification/Spec2Isabelle.thy ===== *)
theory Spec2Isabelle
  imports Fsm_Edges Client_Properties
begin

text \<open>
  A replicated key-value store on a raft library.

  \<^bold>\<open>The program.\<close> A server (\<open>app.go\<close>) starts an engine (\<open>engine/\<close>): a state machine on a Pebble database (\<open>fsm/\<close>), the
  raft library that runs its log through that state machine, an optional gossip membership (\<open>gossip/\<close>), a resolver
  from leaders to addresses (\<open>resolver/\<close>) and a gRPC service (\<open>service/\<close>). The service forwards writes and
  linearizable reads to the leader over cached connections, answers other reads from the local store, and streams
  changes with blocking queries. A client (\<open>cmd/\<close>) calls the service.

  \<^bold>\<open>Conventions.\<close> A Go function of some value and state is a HOL function that returns the updated state; an error is a
  value of \<open>go_err\<close>, also for a panic; byte slices are lists of 8-bit words, counters and indices are 64-bit words. The
  file system and the open databases are one record, \<open>world\<close>, in which every call of the operating system may fail by
  a schedule and every state the files have been in is recorded, so that a crash of the process can be taken at any of
  them; a loss of data that was written but not synced, and a crash inside \<open>os.RemoveAll\<close>, are not covered. Go maps
  are association lists of which only lookups are used. Clocks and random numbers are arguments.

  \<^bold>\<open>The language and its library.\<close> \<open>Prelude\<close> has the shared types and lemmas; \<open>Go_Binary\<close>, \<open>Go_Crc32\<close>, \<open>Go_Md5\<close>,
  \<open>Go_Path\<close>, \<open>Go_Base64\<close>, \<open>Go_Json\<close>, \<open>Go_Json_Enc\<close>, \<open>Go_Json_Indent\<close>, \<open>Go_Time\<close>, \<open>Go_Gzip\<close>, \<open>Go_Net\<close> and \<open>Os_FS\<close> model what the sources use of Go's
  packages, with their round trips: little-endian integers, the checksum, the hash, paths, JSON text in both directions,
  compact and indented, dates and durations, DEFLATE, addresses, files.

  \<^bold>\<open>The state machine\<close>, \<open>fsm/\<close>. \<open>Fsm_Utils\<close> is \<open>utils.go\<close> (the data directory and its record \<open>pebble.running\<close>),
  \<open>Fsm_Store\<close> is \<open>wb.go\<close> and the store of \<open>store.go\<close>, \<open>Fsm_Apply\<close> is \<open>apply.go\<close>, \<open>Fsm_Snapshot\<close> is snapshot save and
  restore of \<open>store.go\<close>, \<open>Fsm_Machine\<close> is \<open>fsm.go\<close>, \<open>Fsm_Stats\<close> is its statistics with \<open>DirSize\<close>, which adds up all files below a path. \<open>Fsm_Save\<close>, \<open>Fsm_Restore\<close>, \<open>Fsm_Recover\<close> and \<open>Fsm_Start\<close> hold what
  these functions do as wholes, \<open>Fsm_Replica\<close> runs logs, snapshots and crashes against the map a log describes.
  \<open>Fsm_Properties\<close> and \<open>Fsm_Edges\<close> state the properties: a log refines a map; a snapshot and the rest of the log give what
  the whole log gives; a crash at any moment of a restore leaves the old or the new contents; a restore that fails before
  the swap changes nothing, and what one that fails after it leaves; damaged keys and values are refused; the record of the current directory, the cleanup, the first start; what the
  abandon channel, a closed machine, failing syncs and damaged lengths do.

  \<^bold>\<open>Discovery and the service.\<close> \<open>Resolver\<close> and \<open>Gossip\<close> are \<open>resolver/resolver.go\<close> and \<open>gossip/gossip.go\<close>: both tables obey
  the contract \<open>address_book\<close>. \<open>Conn_Cache\<close> and \<open>Service\<close> are \<open>service/service.go\<close>: the connection cache as its two
  critical sections, forwarding, \<open>Add\<close>, \<open>Get\<close> and \<open>Stat\<close> over the interface \<open>KV\<close>, whose contract is \<open>kv_server\<close>.
  \<open>Blocking_Query\<close> is \<open>service/blocking_query.go\<close>: a query is a step function whose steps interleave with those of the state
  machine; \<open>Watch\<close> and \<open>WatchKey\<close> loop over queries. \<open>Service_Properties\<close> shows that the node table is what the events say,
  that announcements survive JSON, that connections neither leak nor double, that a write runs on one node, what a
  blocking query may return and that it can always leave, that a watch delivers increasing indices, and which methods can be
  forwarded.

  \<^bold>\<open>The engine and the client.\<close> \<open>Engine_Kv\<close> is \<open>engine/kv.go\<close> and \<open>engine/linearizable.go\<close>; its server is the \<open>kv_server\<close>
  of the handlers. \<open>Engine_Leader\<close> is the leadership of \<open>engine/raft.go\<close>: \<open>monitorLeadership\<close>, \<open>leaderLoop\<close> and the
  library interleave step by step (\<open>lstep\<close>, \<open>lreach\<close>). \<open>Engine_Start\<close> is \<open>newRaft\<close>, \<open>engine/engine.go\<close> and \<open>app.go\<close>; \<open>Engine_Stats\<close> is
  \<open>Stats\<close> of \<open>engine/kv.go\<close>; \<open>Cmd\<close> is the random identifiers and \<open>Client\<close> the demonstrations of \<open>cmd/cmd.go\<close>, over the contract
  \<open>kv_client\<close>, which the handlers of a leader satisfy (\<open>sole_writer\<close>). \<open>Engine_Properties\<close> shows that a write that succeeded is read back, that a
  follower never answers a linearizable read itself, that the flag for consistent reads follows leadership and implies
  freshness once the notifications are handled, and that a stale flag is possible before; that a stopped loop ends; that
  identifiers are unbiased; and what a failing start leaves open. \<open>Client_Properties\<close> shows that the answer of \<open>Stat\<close> parses back
  to the state of the node, that the key-value demonstration prints what it wrote, and that a client that watches logs
  increasing indices until the state is abandoned.

  \<^bold>\<open>Libraries as parameters.\<close> Pebble is the record \<open>pebble\<close> with the contract \<open>pebble_live\<close>; the gzip writer, the snapshot sink,
  the raft library (\<open>raft_lib\<close> for proposals, \<open>raft_leadership\<close> for notifications and barriers), the membership library and
  gRPC are arguments, each contract interpreted on a small reference instance, on which the witnesses run. The raft contract
  says: leadership is verified only on the leader; a command whose future succeeds was applied as the last of some entries;
  changes of leadership are notified in order, each in one step with the change; a completed barrier means that every
  acknowledged write is applied here.

  \<^bold>\<open>Bounds.\<close> The JSON parser has fuel beyond twice the length of its input, with which more fuel changes nothing; the DEFLATE
  reader has the number of bits as fuel, and every block takes at least three. The loops of \<open>Watch\<close>, \<open>WatchKey\<close> and
  \<open>randomBytesMod\<close> and of the watching client may run forever: their fuel is the number of turns, and for the last two it is shown
  which fuel gives a result. The walk of \<open>DirSize\<close> has the depth of the file system as fuel, and the result is the whole sum.
  All other loops are recursions that terminate.

  \<^bold>\<open>Not modelled.\<close> Logging and \<open>Logger\<close>, except the lines of the client; the observer, which only logs; \<open>Destroy\<close> of a batch,
  which is a value here; calls that pass through to the membership library; keep-alive options and the registration of
  services in gRPC; the writer that runs beside the watch demonstration; signals; the generated protobuf code; tests and
  benchmarks. The files inside a database directory belong to Pebble, so their size is an argument. Locks are not objects of
  the model: a critical section is one step.
\<close>

end
